(* ===== verification/Go_Prelude.thy ===== *)
theory Go_Prelude
  imports Main "HOL-Library.Word" "HOL-Library.FSet" "HOL-Library.Finite_Map" "HOL-Library.Multiset"
begin

text \<open>
  Shared vocabulary of the development: the Go types the sources use, Go's run-time panics as
  values, the sequencing of calls that may panic, and the generic facts on words, lists and
  finite maps that the component theories share.

  \<^item> \<open>uint64\<close> is a 64-bit word, so \<open>+\<close> and \<open>-\<close> wrap as in Go; an \<open>int32\<close> enumeration is a
    32-bit word read with \<open>sint\<close>.  A Go \<open>int\<close> that only counts (a length, a number of votes)
    is a \<open>nat\<close>; the tick counters are \<open>int\<close> with the 64-bit wrap-around written out
    (\<open>int64\<close>).
  \<^item> \<open>NotReturning\<close> is the outcome of a loop that runs for ever; it is never a result of the code.
  \<^item> A call that may panic returns \<open>go_panic + 'a\<close>: \<open>Inl\<close> for the panic, \<open>Inr\<close> for the
    result.  A Go \<open>error\<close> result is an ordinary value of the model and never a panic.
  \<^item> A Go map is a finite map (or, for \<open>map[uint64]struct{}\<close>, a finite set): iteration order
    is not observable in the model, and every loop over a map in the sources is shown or
    written to be independent of it.
\<close>

unbundle bit_operations_syntax

type_synonym uint64 = "64 word"
type_synonym int32 = "32 word"
type_synonym byte = "8 word"

datatype go_panic =
    IndexOutOfRange
  | SliceBounds
  | NilMapWrite
  | NilDereference
  | NotReturning
  | ExplicitPanic string

type_synonym 'a go = "go_panic + 'a"

definition go_bind :: "'a go \<Rightarrow> ('a \<Rightarrow> 'b go) \<Rightarrow> 'b go" where
  "go_bind x f = (case x of Inl p \<Rightarrow> Inl p | Inr y \<Rightarrow> f y)"

lemma go_bind_simps [simp]:
  "go_bind (Inl p) f = Inl p"
  "go_bind (Inr x) f = f x"
  by (simp_all add: go_bind_def)

lemma go_bind_assoc [simp]:
  "go_bind (go_bind m f) g = go_bind m (\<lambda>x. go_bind (f x) g)"
  by (cases m) simp_all

lemma go_bind_return [simp]: "go_bind m Inr = m"
  by (cases m) simp_all

lemma go_bind_eq_Inr [simp]:
  "go_bind m f = Inr y \<longleftrightarrow> (\<exists>x. m = Inr x \<and> f x = Inr y)"
  by (cases m) simp_all

lemma go_bind_eq_Inl:
  "go_bind m f = Inl p \<longleftrightarrow> m = Inl p \<or> (\<exists>x. m = Inr x \<and> f x = Inl p)"
  by (cases m) simp_all

lemma go_bind_cong [fundef_cong]:
  "\<lbrakk>m = m'; \<And>x. m' = Inr x \<Longrightarrow> f x = f' x\<rbrakk> \<Longrightarrow> go_bind m f = go_bind m' f'"
  by (cases m') simp_all

text \<open>A loop over a slice whose body may panic.\<close>

fun go_foldl :: "('s \<Rightarrow> 'a \<Rightarrow> 's go) \<Rightarrow> 's \<Rightarrow> 'a list \<Rightarrow> 's go" where
  "go_foldl f s [] = Inr s"
| "go_foldl f s (x # xs) = go_bind (f s x) (\<lambda>s'. go_foldl f s' xs)"

lemma go_foldl_append [simp]:
  "go_foldl f s (xs @ ys) = go_bind (go_foldl f s xs) (\<lambda>s'. go_foldl f s' ys)"
  by (induction xs arbitrary: s) simp_all

lemma go_foldl_invariant:
  assumes "go_foldl f s xs = Inr s'" and "P s"
    and "\<And>s x s'. \<lbrakk>x \<in> set xs; P s; f s x = Inr s'\<rbrakk> \<Longrightarrow> P s'"
  shows "P s'"
  using assms
proof (induction xs arbitrary: s)
  case Nil
  then show ?case by simp
next
  case (Cons x xs)
  from Cons.prems(1) obtain t where t: "f s x = Inr t" "go_foldl f t xs = Inr s'"
    by auto
  from Cons.prems(2,3) t(1) have "P t" by (meson list.set_intros(1))
  with Cons.IH [OF t(2)] Cons.prems(3) show ?case by (meson list.set_intros(2))
qed

lemma go_foldl_total:
  assumes "P s"
    and "\<And>s x. \<lbrakk>x \<in> set xs; P s\<rbrakk> \<Longrightarrow> \<exists>s'. f s x = Inr s' \<and> P s'"
  shows "\<exists>s'. go_foldl f s xs = Inr s' \<and> P s'"
  using assms
proof (induction xs arbitrary: s)
  case Nil
  then show ?case by simp
next
  case (Cons x xs)
  from Cons.prems obtain t where t: "f s x = Inr t" "P t" by (meson list.set_intros(1))
  have "\<exists>s'. go_foldl f t xs = Inr s' \<and> P s'"
    using Cons.IH [of t] t(2) Cons.prems(2) by (meson list.set_intros(2))
  with t show ?case by simp
qed

text \<open>Indexing and slicing a Go slice, with the run-time checks of the language.\<close>

definition go_index :: "'a list \<Rightarrow> nat \<Rightarrow> 'a go" where
  "go_index xs i = (if i < length xs then Inr (xs ! i) else Inl IndexOutOfRange)"

definition go_slice :: "'a list \<Rightarrow> nat \<Rightarrow> nat \<Rightarrow> 'a list go" where
  "go_slice xs lo hi =
     (if lo \<le> hi \<and> hi \<le> length xs then Inr (take (hi - lo) (drop lo xs)) else Inl SliceBounds)"

lemma go_index_Inr [simp]: "i < length xs \<Longrightarrow> go_index xs i = Inr (xs ! i)"
  by (simp add: go_index_def)

lemma go_slice_Inr [simp]:
  "\<lbrakk>lo \<le> hi; hi \<le> length xs\<rbrakk> \<Longrightarrow> go_slice xs lo hi = Inr (take (hi - lo) (drop lo xs))"
  by (simp add: go_slice_def)

text \<open>The value of a 64-bit signed Go \<open>int\<close> after an operation whose exact result is \<open>x\<close>.\<close>

definition int64 :: "int \<Rightarrow> int" where
  "int64 x = signed_take_bit 63 x"

lemma int64_id: "\<lbrakk>- (2 ^ 63) \<le> x; x < 2 ^ 63\<rbrakk> \<Longrightarrow> int64 x = x"
  unfolding int64_def by (rule signed_take_bit_int_eq_self) simp_all

lemma int64_bounds: "- (2 ^ 63) \<le> int64 x \<and> int64 x < 2 ^ 63"
  using signed_take_bit_int_greater_eq_minus_exp [of 63 x] signed_take_bit_int_less_exp [of 63 x]
  by (simp add: int64_def)

text \<open>
  The bounds arithmetic of log indices: on 64-bit words that do not overflow, comparison and
  addition are those of natural numbers.
\<close>

lemma unat_add_nowrap:
  fixes a b :: uint64
  shows "unat a + unat b < 2 ^ 64 \<Longrightarrow> unat (a + b) = unat a + unat b"
  by (simp add: unat_word_ariths)

lemma unat_of_nat_small: "n < 2 ^ 64 \<Longrightarrow> unat (of_nat n :: uint64) = n"
  by (simp add: unat_of_nat)

lemma unat_sub_nowrap:
  fixes a b :: uint64
  shows "b \<le> a \<Longrightarrow> unat (a - b) = unat a - unat b"
  by (rule unat_sub)

text \<open>The digits that \<open>fmt\<close> prints for an unsigned integer.\<close>

fun decimal :: "nat \<Rightarrow> string" where
  "decimal n = (if n < 10 then [char_of (48 + n)] else decimal (n div 10) @ [char_of (48 + n mod 10)])"

declare decimal.simps [simp del]

lemma word_eq_of_nat: "unat (x :: uint64) = n \<Longrightarrow> x = of_nat n"
  by auto

lemma sint_small: "unat (x :: uint64) < 2 ^ 63 \<Longrightarrow> sint x = int (unat x)"
proof -
  assume "unat x < 2 ^ 63"
  then have "int (unat x) < int (2 ^ 63)" by (simp only: of_nat_less_iff)
  then have "int (unat x) < 2 ^ 63" by (simp only: of_nat_power of_nat_numeral)
  then have "signed_take_bit 63 (int (unat x)) = int (unat x)"
    using uint_ge_0 [of x] by (intro signed_take_bit_int_eq_self) (linarith, simp)
  then show ?thesis by (simp add: sint_uint)
qed

end
