(* ===== verification/Raftpb_Types.thy ===== *)
theory Raftpb_Types
  imports Go_Prelude
begin

text \<open>
  The protocol buffer data of \<open>src/raft/raftpb/raft.pb.go\<close>: the enumerations and the nine
  message structs, field for field.

  A generated enumeration is a Go \<open>int32\<close>: the decoder stores whatever number the peer sent,
  so the model keeps all 32-bit values and names the declared ones.  A \<open>[]byte\<close> field is an
  option because the encoder distinguishes a nil slice (\<open>None\<close>) from an empty one.
  \<open>Message\<close> contains messages (\<open>Responses\<close>), so it is a datatype; the other structs are
  records.
\<close>

section \<open>Enumerations\<close>

type_synonym EntryType = int32
type_synonym MessageType = int32
type_synonym ConfChangeTransition = int32
type_synonym ConfChangeType = int32

definition EntryNormal :: EntryType where "EntryNormal = 0"
definition EntryConfChange :: EntryType where "EntryConfChange = 1"
definition EntryConfChangeV2 :: EntryType where "EntryConfChangeV2 = 2"

definition MsgHup :: MessageType where "MsgHup = 0"
definition MsgBeat :: MessageType where "MsgBeat = 1"
definition MsgProp :: MessageType where "MsgProp = 2"
definition MsgApp :: MessageType where "MsgApp = 3"
definition MsgAppResp :: MessageType where "MsgAppResp = 4"
definition MsgVote :: MessageType where "MsgVote = 5"
definition MsgVoteResp :: MessageType where "MsgVoteResp = 6"
definition MsgSnap :: MessageType where "MsgSnap = 7"
definition MsgHeartbeat :: MessageType where "MsgHeartbeat = 8"
definition MsgHeartbeatResp :: MessageType where "MsgHeartbeatResp = 9"
definition MsgUnreachable :: MessageType where "MsgUnreachable = 10"
definition MsgSnapStatus :: MessageType where "MsgSnapStatus = 11"
definition MsgCheckQuorum :: MessageType where "MsgCheckQuorum = 12"
definition MsgTransferLeader :: MessageType where "MsgTransferLeader = 13"
definition MsgTimeoutNow :: MessageType where "MsgTimeoutNow = 14"
definition MsgReadIndex :: MessageType where "MsgReadIndex = 15"
definition MsgReadIndexResp :: MessageType where "MsgReadIndexResp = 16"
definition MsgPreVote :: MessageType where "MsgPreVote = 17"
definition MsgPreVoteResp :: MessageType where "MsgPreVoteResp = 18"
definition MsgStorageAppend :: MessageType where "MsgStorageAppend = 19"
definition MsgStorageAppendResp :: MessageType where "MsgStorageAppendResp = 20"
definition MsgStorageApply :: MessageType where "MsgStorageApply = 21"
definition MsgStorageApplyResp :: MessageType where "MsgStorageApplyResp = 22"
definition MsgForgetLeader :: MessageType where "MsgForgetLeader = 23"

definition ConfChangeTransitionAuto :: ConfChangeTransition where
  "ConfChangeTransitionAuto = 0"
definition ConfChangeTransitionJointImplicit :: ConfChangeTransition where
  "ConfChangeTransitionJointImplicit = 1"
definition ConfChangeTransitionJointExplicit :: ConfChangeTransition where
  "ConfChangeTransitionJointExplicit = 2"

definition ConfChangeAddNode :: ConfChangeType where "ConfChangeAddNode = 0"
definition ConfChangeRemoveNode :: ConfChangeType where "ConfChangeRemoveNode = 1"
definition ConfChangeUpdateNode :: ConfChangeType where "ConfChangeUpdateNode = 2"
definition ConfChangeAddLearnerNode :: ConfChangeType where "ConfChangeAddLearnerNode = 3"

lemmas EntryType_defs [simp] =
  EntryNormal_def EntryConfChange_def EntryConfChangeV2_def

lemmas MessageType_defs [simp] =
  MsgHup_def MsgBeat_def MsgProp_def MsgApp_def MsgAppResp_def MsgVote_def MsgVoteResp_def
  MsgSnap_def MsgHeartbeat_def MsgHeartbeatResp_def MsgUnreachable_def MsgSnapStatus_def
  MsgCheckQuorum_def MsgTransferLeader_def MsgTimeoutNow_def MsgReadIndex_def
  MsgReadIndexResp_def MsgPreVote_def MsgPreVoteResp_def MsgStorageAppend_def
  MsgStorageAppendResp_def MsgStorageApply_def MsgStorageApplyResp_def MsgForgetLeader_def

lemmas ConfChangeTransition_defs [simp] =
  ConfChangeTransitionAuto_def ConfChangeTransitionJointImplicit_def
  ConfChangeTransitionJointExplicit_def

lemmas ConfChangeType_defs [simp] =
  ConfChangeAddNode_def ConfChangeRemoveNode_def ConfChangeUpdateNode_def
  ConfChangeAddLearnerNode_def

section \<open>Messages\<close>

type_synonym bytes = "byte list option"

record Entry =
  eTerm :: uint64
  eIndex :: uint64
  eType :: EntryType
  eData :: bytes

record ConfState =
  Voters :: "uint64 list"
  Learners :: "uint64 list"
  VotersOutgoing :: "uint64 list"
  LearnersNext :: "uint64 list"
  AutoLeave :: bool

record SnapshotMetadata =
  smConfState :: ConfState
  smIndex :: uint64
  smTerm :: uint64

record Snapshot =
  sData :: bytes
  sMetadata :: SnapshotMetadata

record HardState =
  hsTerm :: uint64
  hsVote :: uint64
  hsCommit :: uint64

record ConfChange =
  ccType :: ConfChangeType
  ccNodeID :: uint64
  ccContext :: bytes
  ccID :: uint64

record ConfChangeSingle =
  csType :: ConfChangeType
  csNodeID :: uint64

record ConfChangeV2 =
  cc2Transition :: ConfChangeTransition
  cc2Changes :: "ConfChangeSingle list"
  cc2Context :: bytes

datatype Message = Message
  (mType: MessageType) (mTo: uint64) (mFrom: uint64) (mTerm: uint64) (mLogTerm: uint64)
  (mIndex: uint64) (mEntries: "Entry list") (mCommit: uint64) (mVote: uint64)
  (mSnapshot: "Snapshot option") (mReject: bool) (mRejectHint: uint64) (mContext: bytes)
  (mResponses: "Message list")

section \<open>Zero values\<close>

definition zeroEntry :: Entry where
  "zeroEntry = \<lparr>eTerm = 0, eIndex = 0, eType = 0, eData = None\<rparr>"

definition zeroConfState :: ConfState where
  "zeroConfState = \<lparr>Voters = [], Learners = [], VotersOutgoing = [], LearnersNext = [],
     AutoLeave = False\<rparr>"

definition zeroSnapshotMetadata :: SnapshotMetadata where
  "zeroSnapshotMetadata = \<lparr>smConfState = zeroConfState, smIndex = 0, smTerm = 0\<rparr>"

definition zeroSnapshot :: Snapshot where
  "zeroSnapshot = \<lparr>sData = None, sMetadata = zeroSnapshotMetadata\<rparr>"

definition zeroHardState :: HardState where
  "zeroHardState = \<lparr>hsTerm = 0, hsVote = 0, hsCommit = 0\<rparr>"

definition zeroConfChange :: ConfChange where
  "zeroConfChange = \<lparr>ccType = 0, ccNodeID = 0, ccContext = None, ccID = 0\<rparr>"

definition zeroConfChangeSingle :: ConfChangeSingle where
  "zeroConfChangeSingle = \<lparr>csType = 0, csNodeID = 0\<rparr>"

definition zeroConfChangeV2 :: ConfChangeV2 where
  "zeroConfChangeV2 = \<lparr>cc2Transition = 0, cc2Changes = [], cc2Context = None\<rparr>"

definition zeroMessage :: Message where
  "zeroMessage = Message 0 0 0 0 0 0 [] 0 0 None False 0 None []"

section \<open>Field updates of a message\<close>

text \<open>
  A composite literal \<open>pb.Message{To: t, Type: y}\<close> is written
  \<open>set_mTo t (set_mType y zeroMessage)\<close>, and \<open>m.To = t\<close> is \<open>set_mTo t m\<close>.
\<close>

primrec set_mType :: "MessageType \<Rightarrow> Message \<Rightarrow> Message" where
  "set_mType x (Message ty t f te l i es c v s r h cx rs) = Message x t f te l i es c v s r h cx rs"
primrec set_mTo :: "uint64 \<Rightarrow> Message \<Rightarrow> Message" where
  "set_mTo x (Message ty t f te l i es c v s r h cx rs) = Message ty x f te l i es c v s r h cx rs"
primrec set_mFrom :: "uint64 \<Rightarrow> Message \<Rightarrow> Message" where
  "set_mFrom x (Message ty t f te l i es c v s r h cx rs) = Message ty t x te l i es c v s r h cx rs"
primrec set_mTerm :: "uint64 \<Rightarrow> Message \<Rightarrow> Message" where
  "set_mTerm x (Message ty t f te l i es c v s r h cx rs) = Message ty t f x l i es c v s r h cx rs"
primrec set_mLogTerm :: "uint64 \<Rightarrow> Message \<Rightarrow> Message" where
  "set_mLogTerm x (Message ty t f te l i es c v s r h cx rs) =
     Message ty t f te x i es c v s r h cx rs"
primrec set_mIndex :: "uint64 \<Rightarrow> Message \<Rightarrow> Message" where
  "set_mIndex x (Message ty t f te l i es c v s r h cx rs) =
     Message ty t f te l x es c v s r h cx rs"
primrec set_mEntries :: "Entry list \<Rightarrow> Message \<Rightarrow> Message" where
  "set_mEntries x (Message ty t f te l i es c v s r h cx rs) =
     Message ty t f te l i x c v s r h cx rs"
primrec set_mCommit :: "uint64 \<Rightarrow> Message \<Rightarrow> Message" where
  "set_mCommit x (Message ty t f te l i es c v s r h cx rs) =
     Message ty t f te l i es x v s r h cx rs"
primrec set_mVote :: "uint64 \<Rightarrow> Message \<Rightarrow> Message" where
  "set_mVote x (Message ty t f te l i es c v s r h cx rs) =
     Message ty t f te l i es c x s r h cx rs"
primrec set_mSnapshot :: "Snapshot option \<Rightarrow> Message \<Rightarrow> Message" where
  "set_mSnapshot x (Message ty t f te l i es c v s r h cx rs) =
     Message ty t f te l i es c v x r h cx rs"
primrec set_mReject :: "bool \<Rightarrow> Message \<Rightarrow> Message" where
  "set_mReject x (Message ty t f te l i es c v s r h cx rs) =
     Message ty t f te l i es c v s x h cx rs"
primrec set_mRejectHint :: "uint64 \<Rightarrow> Message \<Rightarrow> Message" where
  "set_mRejectHint x (Message ty t f te l i es c v s r h cx rs) =
     Message ty t f te l i es c v s r x cx rs"
primrec set_mContext :: "bytes \<Rightarrow> Message \<Rightarrow> Message" where
  "set_mContext x (Message ty t f te l i es c v s r h cx rs) =
     Message ty t f te l i es c v s r h x rs"
primrec set_mResponses :: "Message list \<Rightarrow> Message \<Rightarrow> Message" where
  "set_mResponses x (Message ty t f te l i es c v s r h cx rs) =
     Message ty t f te l i es c v s r h cx x"

text \<open>Reading a field after writing one.\<close>

lemma set_mType_sel [simp]:
  "mType (set_mType x m) = x"
  "mTo (set_mType x m) = mTo m"
  "mFrom (set_mType x m) = mFrom m"
  "mTerm (set_mType x m) = mTerm m"
  "mLogTerm (set_mType x m) = mLogTerm m"
  "mIndex (set_mType x m) = mIndex m"
  "mEntries (set_mType x m) = mEntries m"
  "mCommit (set_mType x m) = mCommit m"
  "mVote (set_mType x m) = mVote m"
  "mSnapshot (set_mType x m) = mSnapshot m"
  "mReject (set_mType x m) = mReject m"
  "mRejectHint (set_mType x m) = mRejectHint m"
  "mContext (set_mType x m) = mContext m"
  "mResponses (set_mType x m) = mResponses m"
  by (cases m; simp)+

lemma set_mTo_sel [simp]:
  "mType (set_mTo x m) = mType m"
  "mTo (set_mTo x m) = x"
  "mFrom (set_mTo x m) = mFrom m"
  "mTerm (set_mTo x m) = mTerm m"
  "mLogTerm (set_mTo x m) = mLogTerm m"
  "mIndex (set_mTo x m) = mIndex m"
  "mEntries (set_mTo x m) = mEntries m"
  "mCommit (set_mTo x m) = mCommit m"
  "mVote (set_mTo x m) = mVote m"
  "mSnapshot (set_mTo x m) = mSnapshot m"
  "mReject (set_mTo x m) = mReject m"
  "mRejectHint (set_mTo x m) = mRejectHint m"
  "mContext (set_mTo x m) = mContext m"
  "mResponses (set_mTo x m) = mResponses m"
  by (cases m; simp)+

lemma set_mFrom_sel [simp]:
  "mType (set_mFrom x m) = mType m"
  "mTo (set_mFrom x m) = mTo m"
  "mFrom (set_mFrom x m) = x"
  "mTerm (set_mFrom x m) = mTerm m"
  "mLogTerm (set_mFrom x m) = mLogTerm m"
  "mIndex (set_mFrom x m) = mIndex m"
  "mEntries (set_mFrom x m) = mEntries m"
  "mCommit (set_mFrom x m) = mCommit m"
  "mVote (set_mFrom x m) = mVote m"
  "mSnapshot (set_mFrom x m) = mSnapshot m"
  "mReject (set_mFrom x m) = mReject m"
  "mRejectHint (set_mFrom x m) = mRejectHint m"
  "mContext (set_mFrom x m) = mContext m"
  "mResponses (set_mFrom x m) = mResponses m"
  by (cases m; simp)+

lemma set_mTerm_sel [simp]:
  "mType (set_mTerm x m) = mType m"
  "mTo (set_mTerm x m) = mTo m"
  "mFrom (set_mTerm x m) = mFrom m"
  "mTerm (set_mTerm x m) = x"
  "mLogTerm (set_mTerm x m) = mLogTerm m"
  "mIndex (set_mTerm x m) = mIndex m"
  "mEntries (set_mTerm x m) = mEntries m"
  "mCommit (set_mTerm x m) = mCommit m"
  "mVote (set_mTerm x m) = mVote m"
  "mSnapshot (set_mTerm x m) = mSnapshot m"
  "mReject (set_mTerm x m) = mReject m"
  "mRejectHint (set_mTerm x m) = mRejectHint m"
  "mContext (set_mTerm x m) = mContext m"
  "mResponses (set_mTerm x m) = mResponses m"
  by (cases m; simp)+

lemma set_mLogTerm_sel [simp]:
  "mType (set_mLogTerm x m) = mType m"
  "mTo (set_mLogTerm x m) = mTo m"
  "mFrom (set_mLogTerm x m) = mFrom m"
  "mTerm (set_mLogTerm x m) = mTerm m"
  "mLogTerm (set_mLogTerm x m) = x"
  "mIndex (set_mLogTerm x m) = mIndex m"
  "mEntries (set_mLogTerm x m) = mEntries m"
  "mCommit (set_mLogTerm x m) = mCommit m"
  "mVote (set_mLogTerm x m) = mVote m"
  "mSnapshot (set_mLogTerm x m) = mSnapshot m"
  "mReject (set_mLogTerm x m) = mReject m"
  "mRejectHint (set_mLogTerm x m) = mRejectHint m"
  "mContext (set_mLogTerm x m) = mContext m"
  "mResponses (set_mLogTerm x m) = mResponses m"
  by (cases m; simp)+

lemma set_mIndex_sel [simp]:
  "mType (set_mIndex x m) = mType m"
  "mTo (set_mIndex x m) = mTo m"
  "mFrom (set_mIndex x m) = mFrom m"
  "mTerm (set_mIndex x m) = mTerm m"
  "mLogTerm (set_mIndex x m) = mLogTerm m"
  "mIndex (set_mIndex x m) = x"
  "mEntries (set_mIndex x m) = mEntries m"
  "mCommit (set_mIndex x m) = mCommit m"
  "mVote (set_mIndex x m) = mVote m"
  "mSnapshot (set_mIndex x m) = mSnapshot m"
  "mReject (set_mIndex x m) = mReject m"
  "mRejectHint (set_mIndex x m) = mRejectHint m"
  "mContext (set_mIndex x m) = mContext m"
  "mResponses (set_mIndex x m) = mResponses m"
  by (cases m; simp)+

lemma set_mEntries_sel [simp]:
  "mType (set_mEntries x m) = mType m"
  "mTo (set_mEntries x m) = mTo m"
  "mFrom (set_mEntries x m) = mFrom m"
  "mTerm (set_mEntries x m) = mTerm m"
  "mLogTerm (set_mEntries x m) = mLogTerm m"
  "mIndex (set_mEntries x m) = mIndex m"
  "mEntries (set_mEntries x m) = x"
  "mCommit (set_mEntries x m) = mCommit m"
  "mVote (set_mEntries x m) = mVote m"
  "mSnapshot (set_mEntries x m) = mSnapshot m"
  "mReject (set_mEntries x m) = mReject m"
  "mRejectHint (set_mEntries x m) = mRejectHint m"
  "mContext (set_mEntries x m) = mContext m"
  "mResponses (set_mEntries x m) = mResponses m"
  by (cases m; simp)+

lemma set_mCommit_sel [simp]:
  "mType (set_mCommit x m) = mType m"
  "mTo (set_mCommit x m) = mTo m"
  "mFrom (set_mCommit x m) = mFrom m"
  "mTerm (set_mCommit x m) = mTerm m"
  "mLogTerm (set_mCommit x m) = mLogTerm m"
  "mIndex (set_mCommit x m) = mIndex m"
  "mEntries (set_mCommit x m) = mEntries m"
  "mCommit (set_mCommit x m) = x"
  "mVote (set_mCommit x m) = mVote m"
  "mSnapshot (set_mCommit x m) = mSnapshot m"
  "mReject (set_mCommit x m) = mReject m"
  "mRejectHint (set_mCommit x m) = mRejectHint m"
  "mContext (set_mCommit x m) = mContext m"
  "mResponses (set_mCommit x m) = mResponses m"
  by (cases m; simp)+

lemma set_mVote_sel [simp]:
  "mType (set_mVote x m) = mType m"
  "mTo (set_mVote x m) = mTo m"
  "mFrom (set_mVote x m) = mFrom m"
  "mTerm (set_mVote x m) = mTerm m"
  "mLogTerm (set_mVote x m) = mLogTerm m"
  "mIndex (set_mVote x m) = mIndex m"
  "mEntries (set_mVote x m) = mEntries m"
  "mCommit (set_mVote x m) = mCommit m"
  "mVote (set_mVote x m) = x"
  "mSnapshot (set_mVote x m) = mSnapshot m"
  "mReject (set_mVote x m) = mReject m"
  "mRejectHint (set_mVote x m) = mRejectHint m"
  "mContext (set_mVote x m) = mContext m"
  "mResponses (set_mVote x m) = mResponses m"
  by (cases m; simp)+

lemma set_mSnapshot_sel [simp]:
  "mType (set_mSnapshot x m) = mType m"
  "mTo (set_mSnapshot x m) = mTo m"
  "mFrom (set_mSnapshot x m) = mFrom m"
  "mTerm (set_mSnapshot x m) = mTerm m"
  "mLogTerm (set_mSnapshot x m) = mLogTerm m"
  "mIndex (set_mSnapshot x m) = mIndex m"
  "mEntries (set_mSnapshot x m) = mEntries m"
  "mCommit (set_mSnapshot x m) = mCommit m"
  "mVote (set_mSnapshot x m) = mVote m"
  "mSnapshot (set_mSnapshot x m) = x"
  "mReject (set_mSnapshot x m) = mReject m"
  "mRejectHint (set_mSnapshot x m) = mRejectHint m"
  "mContext (set_mSnapshot x m) = mContext m"
  "mResponses (set_mSnapshot x m) = mResponses m"
  by (cases m; simp)+

lemma set_mReject_sel [simp]:
  "mType (set_mReject x m) = mType m"
  "mTo (set_mReject x m) = mTo m"
  "mFrom (set_mReject x m) = mFrom m"
  "mTerm (set_mReject x m) = mTerm m"
  "mLogTerm (set_mReject x m) = mLogTerm m"
  "mIndex (set_mReject x m) = mIndex m"
  "mEntries (set_mReject x m) = mEntries m"
  "mCommit (set_mReject x m) = mCommit m"
  "mVote (set_mReject x m) = mVote m"
  "mSnapshot (set_mReject x m) = mSnapshot m"
  "mReject (set_mReject x m) = x"
  "mRejectHint (set_mReject x m) = mRejectHint m"
  "mContext (set_mReject x m) = mContext m"
  "mResponses (set_mReject x m) = mResponses m"
  by (cases m; simp)+

lemma set_mRejectHint_sel [simp]:
  "mType (set_mRejectHint x m) = mType m"
  "mTo (set_mRejectHint x m) = mTo m"
  "mFrom (set_mRejectHint x m) = mFrom m"
  "mTerm (set_mRejectHint x m) = mTerm m"
  "mLogTerm (set_mRejectHint x m) = mLogTerm m"
  "mIndex (set_mRejectHint x m) = mIndex m"
  "mEntries (set_mRejectHint x m) = mEntries m"
  "mCommit (set_mRejectHint x m) = mCommit m"
  "mVote (set_mRejectHint x m) = mVote m"
  "mSnapshot (set_mRejectHint x m) = mSnapshot m"
  "mReject (set_mRejectHint x m) = mReject m"
  "mRejectHint (set_mRejectHint x m) = x"
  "mContext (set_mRejectHint x m) = mContext m"
  "mResponses (set_mRejectHint x m) = mResponses m"
  by (cases m; simp)+

lemma set_mContext_sel [simp]:
  "mType (set_mContext x m) = mType m"
  "mTo (set_mContext x m) = mTo m"
  "mFrom (set_mContext x m) = mFrom m"
  "mTerm (set_mContext x m) = mTerm m"
  "mLogTerm (set_mContext x m) = mLogTerm m"
  "mIndex (set_mContext x m) = mIndex m"
  "mEntries (set_mContext x m) = mEntries m"
  "mCommit (set_mContext x m) = mCommit m"
  "mVote (set_mContext x m) = mVote m"
  "mSnapshot (set_mContext x m) = mSnapshot m"
  "mReject (set_mContext x m) = mReject m"
  "mRejectHint (set_mContext x m) = mRejectHint m"
  "mContext (set_mContext x m) = x"
  "mResponses (set_mContext x m) = mResponses m"
  by (cases m; simp)+

lemma set_mResponses_sel [simp]:
  "mType (set_mResponses x m) = mType m"
  "mTo (set_mResponses x m) = mTo m"
  "mFrom (set_mResponses x m) = mFrom m"
  "mTerm (set_mResponses x m) = mTerm m"
  "mLogTerm (set_mResponses x m) = mLogTerm m"
  "mIndex (set_mResponses x m) = mIndex m"
  "mEntries (set_mResponses x m) = mEntries m"
  "mCommit (set_mResponses x m) = mCommit m"
  "mVote (set_mResponses x m) = mVote m"
  "mSnapshot (set_mResponses x m) = mSnapshot m"
  "mReject (set_mResponses x m) = mReject m"
  "mRejectHint (set_mResponses x m) = mRejectHint m"
  "mContext (set_mResponses x m) = mContext m"
  "mResponses (set_mResponses x m) = x"
  by (cases m; simp)+

lemma zeroMessage_sel [simp]:
  "mType zeroMessage = 0"
  "mTo zeroMessage = 0"
  "mFrom zeroMessage = 0"
  "mTerm zeroMessage = 0"
  "mLogTerm zeroMessage = 0"
  "mIndex zeroMessage = 0"
  "mEntries zeroMessage = []"
  "mCommit zeroMessage = 0"
  "mVote zeroMessage = 0"
  "mSnapshot zeroMessage = None"
  "mReject zeroMessage = False"
  "mRejectHint zeroMessage = 0"
  "mContext zeroMessage = None"
  "mResponses zeroMessage = []"
  by (simp_all add: zeroMessage_def)

end
