(* ===== verification/Raftpb_Wire.thy ===== *)
theory Raftpb_Wire
  imports Raftpb_Types
begin

text \<open>
  The wire format primitives of \<open>src/raft/raftpb/raft.pb.go\<close>: the size of a varint
  (\<open>sovRaft\<close>), the backward writer every \<open>MarshalToSizedBuffer\<close> is made of
  (\<open>encodeVarintRaft\<close> and the stores \<open>i--; dAtA[i] = b\<close>), and the reading loops every
  \<open>Unmarshal\<close> is made of (the inlined varint loop, the length-delimited field, \<open>skipRaft\<close>).

  The writer's state is the buffer and the index \<open>i\<close> of the first byte written so far; a store
  outside the buffer is Go's index panic.  \<open>writes w bs\<close> says that a writer stores exactly the
  bytes \<open>bs\<close> in front of what is already there; it composes, which is how the marshalled bytes
  of a whole message are found.
\<close>

section \<open>Varints\<close>

text \<open>\<open>math/bits.Len64\<close>: the number of bits needed to represent the argument, 0 for 0.\<close>

fun bit_len :: "nat \<Rightarrow> nat" where
  "bit_len n = (if n = 0 then 0 else Suc (bit_len (n div 2)))"

declare bit_len.simps [simp del]

definition Len64 :: "uint64 \<Rightarrow> nat" where
  "Len64 x = bit_len (unat x)"

definition sovRaft :: "uint64 \<Rightarrow> nat" where
  "sovRaft x = (Len64 (x OR 1) + 6) div 7"

definition sozRaft :: "uint64 \<Rightarrow> nat" where
  "sozRaft x = sovRaft (push_bit 1 x XOR signed_drop_bit 63 x)"

type_synonym wbuf = "byte list \<times> nat"

text \<open>\<open>i--; dAtA[i] = b\<close>\<close>

definition put_byte :: "byte \<Rightarrow> wbuf \<Rightarrow> wbuf go" where
  "put_byte b s = (case s of (dAtA, i) \<Rightarrow>
     if 0 < i \<and> i \<le> length dAtA then Inr (dAtA[i - 1 := b], i - 1) else Inl IndexOutOfRange)"

text \<open>\<open>i -= len(bs); copy(dAtA[i:], bs)\<close>\<close>

definition put_bytes :: "byte list \<Rightarrow> wbuf \<Rightarrow> wbuf go" where
  "put_bytes bs s = (case s of (dAtA, i) \<Rightarrow>
     if length bs \<le> i \<and> i \<le> length dAtA
     then Inr (take (i - length bs) dAtA @ bs @ drop i dAtA, i - length bs)
     else Inl SliceBounds)"

lemma unat_drop_bit_7: "unat (drop_bit 7 (v :: uint64)) = unat v div 128"
  by (simp only: unat_drop_bit_eq) (simp add: drop_bit_eq_div)

lemma unat_drop_bit_7_less: "2 ^ 7 \<le> v \<Longrightarrow> unat (drop_bit 7 (v :: uint64)) < unat v"
  by (simp only: unat_drop_bit_7) (simp add: word_le_nat_alt)

function varint_loop :: "byte list \<Rightarrow> nat \<Rightarrow> uint64 \<Rightarrow> byte list go" where
  "varint_loop dAtA offset v =
     (if 2 ^ 7 \<le> v then
        (if offset < length dAtA
         then varint_loop (dAtA[offset := ucast (v AND 0x7f OR 0x80)]) (offset + 1) (drop_bit 7 v)
         else Inl IndexOutOfRange)
      else if offset < length dAtA then Inr (dAtA[offset := ucast v]) else Inl IndexOutOfRange)"
  by pat_completeness auto
termination
  by (relation "measure (\<lambda>(d, i, v). unat v)") (simp_all only: in_measure case_prod_conv wf_measure unat_drop_bit_7_less)

declare varint_loop.simps [simp del]

definition encodeVarintRaft :: "uint64 \<Rightarrow> wbuf \<Rightarrow> wbuf go" where
  "encodeVarintRaft v s = (case s of (dAtA, offset) \<Rightarrow>
     if offset < sovRaft v then Inl IndexOutOfRange
     else let base = offset - sovRaft v in
       go_bind (varint_loop dAtA base v) (\<lambda>d. Inr (d, base)))"

text \<open>The bytes of a varint, least significant group first.\<close>

function varint :: "uint64 \<Rightarrow> byte list" where
  "varint v = (if 2 ^ 7 \<le> v then ucast (v AND 0x7f OR 0x80) # varint (drop_bit 7 v) else [ucast v])"
  by pat_completeness auto
termination
  by (relation "measure unat") (simp_all only: in_measure wf_measure unat_drop_bit_7_less)

declare varint.simps [simp del]

lemma bit_len_pos: "0 < n \<Longrightarrow> 0 < bit_len n"
  by (simp add: bit_len.simps [of n])

lemma bit_len_div_128: "128 \<le> n \<Longrightarrow> bit_len n = 7 + bit_len (n div 128)"
proof -
  assume n: "128 \<le> n"
  have "bit_len m = Suc (bit_len (m div 2))" if "0 < m" for m
    using that by (simp add: bit_len.simps [of m])
  note step = this
  have "bit_len n = 7 + bit_len (n div 2 div 2 div 2 div 2 div 2 div 2 div 2)"
    using n by (simp add: step div_mult2_eq [symmetric])
  then show ?thesis by (simp add: div_mult2_eq [symmetric])
qed

lemma bit_len_small: "n < 128 \<Longrightarrow> bit_len n \<le> 7"
proof -
  have le: "bit_len n \<le> k" if "n < 2 ^ k" for n k
    using that
  proof (induction k arbitrary: n)
    case 0
    then show ?case by (simp add: bit_len.simps)
  next
    case (Suc k)
    then have "bit_len (n div 2) \<le> k" by simp
    then show ?case by (simp add: bit_len.simps [of n])
  qed
  show "n < 128 \<Longrightarrow> bit_len n \<le> 7" using le [of n 7] by simp
qed

lemma unat_or_1: "unat (v OR 1 :: uint64) = (if even (unat v) then unat v + 1 else unat v)"
proof -
  have "unat (v OR 1) = unat v OR unat (1 :: uint64)" by (rule unsigned_or_eq)
  then show ?thesis by (simp only: unsigned_1 or_one_eq) simp
qed

lemma sovRaft_step: "2 ^ 7 \<le> v \<Longrightarrow> sovRaft v = Suc (sovRaft (drop_bit 7 v))"
proof -
  assume "2 ^ 7 \<le> v"
  then have v: "128 \<le> unat v" by (simp add: word_le_nat_alt)
  have d: "unat (v OR 1) div 128 = unat v div 128"
    unfolding unat_or_1 by (auto elim!: evenE)
  have l: "bit_len (unat (v OR 1)) = 7 + bit_len (unat v div 128)"
    using bit_len_div_128 [of "unat (v OR 1)"] v d by (simp add: unat_or_1 split: if_splits)
  have w: "bit_len (unat w) = bit_len (unat (w OR 1))" if "unat w \<noteq> 0" for w :: uint64
    using that by (subst (1 2) bit_len.simps) (auto simp: unat_or_1 elim!: evenE)
  have "unat (drop_bit 7 v) \<noteq> 0"
    unfolding unat_drop_bit_7 using v by simp
  then have "bit_len (unat (drop_bit 7 v OR 1)) = bit_len (unat v div 128)"
    using w [of "drop_bit 7 v"] unat_drop_bit_7 [of v] by argo
  with l show ?thesis unfolding sovRaft_def Len64_def by simp
qed

lemma sovRaft_small: "\<not> 2 ^ 7 \<le> v \<Longrightarrow> sovRaft v = 1"
proof -
  assume "\<not> 2 ^ 7 \<le> v"
  then have v: "unat v < 128" by (simp add: word_le_nat_alt not_le)
  have "unat (v OR 1) < 128" using v by (auto simp: unat_or_1 elim!: evenE)
  then have "bit_len (unat (v OR 1)) \<le> 7" by (rule bit_len_small)
  moreover have "0 < unat (v OR 1)" by (auto simp: unat_or_1 odd_pos)
  then have "0 < bit_len (unat (v OR 1))" by (rule bit_len_pos)
  ultimately show ?thesis by (simp add: sovRaft_def Len64_def)
qed

lemma length_varint: "length (varint v) = sovRaft v"
proof (induction v rule: varint.induct)
  case (1 v)
  show ?case
  proof (cases "2 ^ 7 \<le> v")
    case True
    with "1.IH" have "length (varint (drop_bit 7 v)) = sovRaft (drop_bit 7 v)" by blast
    with True show ?thesis by (simp only: varint.simps [of v] sovRaft_step [of v]) simp
  next
    case False
    then show ?thesis
      by (simp only: varint.simps [of v] sovRaft_small [OF False] if_False) simp
  qed
qed

lemma varint_not_Nil [simp]: "varint v \<noteq> []"
  by (simp add: varint.simps [of v])

section \<open>The backward writer\<close>

definition writes :: "(wbuf \<Rightarrow> wbuf go) \<Rightarrow> byte list \<Rightarrow> bool" where
  "writes w bs \<longleftrightarrow> (\<forall>dAtA i. length bs \<le> i \<and> i \<le> length dAtA \<longrightarrow>
     w (dAtA, i) = Inr (take (i - length bs) dAtA @ bs @ drop i dAtA, i - length bs))"

text \<open>Running one writer after another.\<close>

definition wseq :: "(wbuf \<Rightarrow> wbuf go) \<Rightarrow> (wbuf \<Rightarrow> wbuf go) \<Rightarrow> wbuf \<Rightarrow> wbuf go" where
  "wseq f g s = go_bind (f s) g"

named_theorems writes_intros

lemma writesD:
  "\<lbrakk>writes w bs; length bs \<le> i; i \<le> length dAtA\<rbrakk> \<Longrightarrow>
     w (dAtA, i) = Inr (take (i - length bs) dAtA @ bs @ drop i dAtA, i - length bs)"
  by (simp add: writes_def)

lemma writes_return: "writes Inr []"
  by (simp add: writes_def)

lemma writes_put_byte [writes_intros]: "writes (put_byte b) [b]"
  unfolding writes_def put_byte_def
  by (auto simp: upd_conv_take_nth_drop Suc_diff_Suc)

lemma writes_put_bytes [writes_intros]: "writes (put_bytes bs) bs"
  by (simp add: writes_def put_bytes_def)

lemma writes_wseq:
  assumes "writes f xs" and "writes g ys"
  shows "writes (wseq f g) (ys @ xs)"
  unfolding writes_def wseq_def
proof (intro allI impI)
  fix dAtA :: "byte list" and i :: nat
  assume "length (ys @ xs) \<le> i \<and> i \<le> length dAtA"
  then have i: "length ys + length xs \<le> i" "i \<le> length dAtA" by simp_all
  let ?d = "take (i - length xs) dAtA @ xs @ drop i dAtA"
  have f: "f (dAtA, i) = Inr (?d, i - length xs)"
    using writesD [OF assms(1)] i by simp
  have "g (?d, i - length xs) =
      Inr (take (i - length xs - length ys) ?d @ ys @ drop (i - length xs) ?d,
        i - length xs - length ys)"
    using i by (intro writesD [OF assms(2)]) simp_all
  moreover have "take (i - length xs - length ys) ?d = take (i - length (ys @ xs)) dAtA"
    using i by (simp add: min_def diff_diff_left add.commute)
  moreover have "drop (i - length xs) ?d = xs @ drop i dAtA"
    using i by simp
  ultimately show "go_bind (f (dAtA, i)) g =
      Inr (take (i - length (ys @ xs)) dAtA @ (ys @ xs) @ drop i dAtA, i - length (ys @ xs))"
    using i by (simp add: f diff_diff_left add.commute)
qed

lemma varint_loop_writes:
  "offset + length (varint v) \<le> length dAtA \<Longrightarrow>
     varint_loop dAtA offset v =
       Inr (take offset dAtA @ varint v @ drop (offset + length (varint v)) dAtA)"
proof (induction v arbitrary: dAtA offset rule: varint.induct)
  case (1 v)
  show ?case
  proof (cases "2 ^ 7 \<le> v")
    case False
    then show ?thesis
      using "1.prems"
      by (simp only: varint.simps [of v] varint_loop.simps [of dAtA offset v] if_False)
        (simp add: upd_conv_take_nth_drop)
  next
    case True
    let ?b = "ucast (v AND 0x7f OR 0x80) :: byte"
    let ?d = "dAtA[offset := ?b]"
    have v: "varint v = ?b # varint (drop_bit 7 v)"
      using True by (simp only: varint.simps [of v] if_True)
    have o: "offset < length dAtA" using "1.prems" v by simp
    have "varint_loop dAtA offset v = varint_loop ?d (offset + 1) (drop_bit 7 v)"
      using True o by (simp only: varint_loop.simps [of dAtA offset v] if_True)
    also have "\<dots> = Inr (take (offset + 1) ?d @ varint (drop_bit 7 v) @
        drop (offset + 1 + length (varint (drop_bit 7 v))) ?d)"
      using "1.prems" v by (intro "1.IH" [OF True]) simp
    also have "take (offset + 1) ?d = take offset dAtA @ [?b]"
      using o by (simp add: take_Suc_conv_app_nth)
    finally show ?thesis using v by simp
  qed
qed

lemma writes_encodeVarintRaft [writes_intros]: "writes (encodeVarintRaft v) (varint v)"
  by (auto simp: writes_def encodeVarintRaft_def length_varint [symmetric] varint_loop_writes Let_def)

text \<open>
  A sub-message: it marshals itself into \<open>dAtA[:i]\<close>, which shares the array, and its size is
  then written in front of it.
\<close>

definition put_nested :: "(wbuf \<Rightarrow> wbuf go) \<Rightarrow> wbuf \<Rightarrow> wbuf go" where
  "put_nested w s = (case s of (dAtA, i) \<Rightarrow>
     go_bind (go_slice dAtA 0 i) (\<lambda>sub.
     go_bind (w (sub, length sub)) (\<lambda>(sub', j).
       let n = length sub' - j in
       if n \<le> i then encodeVarintRaft (of_nat n) (sub' @ drop i dAtA, i - n)
       else Inl IndexOutOfRange)))"

lemma writes_put_nested [writes_intros]:
  assumes "writes w bs"
  shows "writes (put_nested w) (varint (of_nat (length bs)) @ bs)"
  unfolding writes_def
proof (intro allI impI)
  fix dAtA :: "byte list" and i :: nat
  let ?n = "of_nat (length bs) :: uint64"
  assume "length (varint ?n @ bs) \<le> i \<and> i \<le> length dAtA"
  then have i: "length (varint ?n) + length bs \<le> i" "i \<le> length dAtA" by simp_all
  let ?sub = "take (i - length bs) dAtA @ bs"
  have sub: "length ?sub = i" using i by simp
  have w: "w (take i dAtA, length (take i dAtA)) = Inr (?sub, i - length bs)"
    using writesD [OF assms, of i "take i dAtA"] i by (simp add: min_absorb1 min_absorb2)
  have n: "length ?sub - (i - length bs) = length bs" using i sub by simp
  have e: "encodeVarintRaft ?n (?sub @ drop i dAtA, i - length bs) =
      Inr (take (i - length bs - length (varint ?n)) (?sub @ drop i dAtA) @ varint ?n @
        drop (i - length bs) (?sub @ drop i dAtA), i - length bs - length (varint ?n))"
    using i by (intro writesD [OF writes_encodeVarintRaft]) simp_all
  have t: "take (i - length bs - length (varint ?n)) (?sub @ drop i dAtA) =
      take (i - length (varint ?n @ bs)) dAtA"
    using i by (simp add: min_absorb1 diff_diff_left add.commute)
  have d: "drop (i - length bs) (?sub @ drop i dAtA) = bs @ drop i dAtA"
    using i by simp
  have "go_slice dAtA 0 i = Inr (take i dAtA)" using i by simp
  then show "put_nested w (dAtA, i) =
      Inr (take (i - length (varint ?n @ bs)) dAtA @ (varint ?n @ bs) @ drop i dAtA,
        i - length (varint ?n @ bs))"
    using i e unfolding t d
    by (simp only: put_nested_def case_prod_conv go_bind_simps w n Let_def)
      (simp add: diff_diff_left add.commute)
qed

text \<open>\<open>for iNdEx := len(xs) - 1; iNdEx >= 0; iNdEx--\<close> around a writer of one element.\<close>

definition put_each :: "('a \<Rightarrow> wbuf \<Rightarrow> wbuf go) \<Rightarrow> 'a list \<Rightarrow> wbuf \<Rightarrow> wbuf go" where
  "put_each f xs s = go_foldl (\<lambda>t x. f x t) s (rev xs)"

lemma put_each_cong [fundef_cong]:
  "\<lbrakk>xs = ys; \<And>x. x \<in> set ys \<Longrightarrow> f x = g x\<rbrakk> \<Longrightarrow> put_each f xs = put_each g ys"
proof -
  assume eq: "xs = ys" and fg: "\<And>x. x \<in> set ys \<Longrightarrow> f x = g x"
  have "go_foldl (\<lambda>t x. f x t) s zs = go_foldl (\<lambda>t x. g x t) s zs" if "set zs \<subseteq> set ys" for s zs
    using that
  proof (induction zs arbitrary: s)
    case (Cons z zs)
    then show ?case by (simp add: fg)
  qed simp
  then show ?thesis by (simp add: put_each_def eq fun_eq_iff)
qed

lemma writes_put_each [writes_intros]:
  "(\<And>x. x \<in> set xs \<Longrightarrow> writes (f x) (e x)) \<Longrightarrow> writes (put_each f xs) (concat (map e xs))"
proof (induction xs)
  case Nil
  then show ?case by (simp add: put_each_def writes_def)
next
  case (Cons x xs)
  have "put_each f (x # xs) = wseq (put_each f xs) (f x)"
    by (simp add: put_each_def wseq_def fun_eq_iff)
  then show ?case using Cons writes_wseq [of "put_each f xs" "concat (map e xs)" "f x" "e x"] by simp
qed

text \<open>An optional field, skipped when the pointer or slice is nil.\<close>

definition put_opt :: "('a \<Rightarrow> wbuf \<Rightarrow> wbuf go) \<Rightarrow> 'a option \<Rightarrow> wbuf \<Rightarrow> wbuf go" where
  "put_opt f x s = (case x of None \<Rightarrow> Inr s | Some y \<Rightarrow> f y s)"

lemma writes_put_opt [writes_intros]:
  "(\<And>y. x = Some y \<Longrightarrow> writes (f y) (e y)) \<Longrightarrow>
     writes (put_opt f x) (case x of None \<Rightarrow> [] | Some y \<Rightarrow> e y)"
  by (cases x) (simp_all add: put_opt_def writes_def)

text \<open>The body of a \<open>MarshalToSizedBuffer\<close>: writers run one after another.\<close>

primrec wrun :: "(wbuf \<Rightarrow> wbuf go) list \<Rightarrow> wbuf \<Rightarrow> wbuf go" where
  "wrun [] = Inr"
| "wrun (w # ws) = wseq w (wrun ws)"

lemma writes_wrun_Nil [writes_intros]: "writes (wrun []) []"
  by (simp add: writes_def)

lemma writes_wrun_Cons [writes_intros]:
  assumes "writes w xs" and "writes (wrun ws) ys"
  shows "writes (wrun (w # ws)) (ys @ xs)"
  using writes_wseq [OF assms] by simp

lemma writes_eq: "\<lbrakk>writes w bs; bs = bs'\<rbrakk> \<Longrightarrow> writes w bs'"
  by simp

text \<open>\<open>i -= len(b); copy(dAtA[i:], b); i = encodeVarintRaft(dAtA, i, uint64(len(b))); i--; dAtA[i] = t\<close>\<close>

definition put_data :: "byte \<Rightarrow> byte list \<Rightarrow> wbuf \<Rightarrow> wbuf go" where
  "put_data t bs = wrun [put_bytes bs, encodeVarintRaft (of_nat (length bs)), put_byte t]"

definition data_bytes :: "byte \<Rightarrow> byte list \<Rightarrow> byte list" where
  "data_bytes t bs = t # varint (of_nat (length bs)) @ bs"

lemma writes_put_data [writes_intros]: "writes (put_data t bs) (data_bytes t bs)"
  unfolding put_data_def data_bytes_def
  by (rule writes_eq, (rule writes_intros)+) simp

text \<open>A sub-message with its tag.\<close>

definition put_msg :: "byte \<Rightarrow> (wbuf \<Rightarrow> wbuf go) \<Rightarrow> wbuf \<Rightarrow> wbuf go" where
  "put_msg t w = wrun [put_nested w, put_byte t]"

lemma writes_put_msg: "writes w bs \<Longrightarrow> writes (put_msg t w) (data_bytes t bs)"
  unfolding put_msg_def data_bytes_def
  by (rule writes_eq, (rule writes_intros | assumption)+) simp

lemma length_data_bytes: "length (data_bytes t bs) = 1 + length bs + sovRaft (of_nat (length bs))"
  by (simp add: data_bytes_def length_varint)

text \<open>
  \<open>Marshal\<close>, the same for all nine messages: a zeroed buffer of \<open>Size()\<close> bytes, filled from its
  end; the result is \<open>dAtA[:n]\<close> for the number \<open>n\<close> of bytes written.
\<close>

definition pb_Marshal :: "nat \<Rightarrow> (wbuf \<Rightarrow> wbuf go) \<Rightarrow> byte list go" where
  "pb_Marshal n w =
     go_bind (w (replicate n 0, n)) (\<lambda>(dAtA, i). go_slice dAtA 0 (length dAtA - i))"

lemma pb_Marshal_writes:
  assumes "writes w bs" and "length bs = n"
  shows "pb_Marshal n w = Inr bs"
  using writesD [OF assms(1), of n "replicate n 0"] assms(2)
  by (simp add: pb_Marshal_def)

section \<open>The reader\<close>

datatype pb_err =
    ErrIntOverflowRaft
  | ErrUnexpectedEOF
  | ErrInvalidLengthRaft
  | ErrUnexpectedEndOfGroupRaft
  | EndGroupForNonGroup
  | IllegalTag
  | WrongWireType
  | IllegalWireType

text \<open>
  The inlined varint loop, for the integer type of the field: the bits read so far are returned
  also when the loop fails, because a generated field is assigned in place.
\<close>

function dec_varint :: "byte list \<Rightarrow> nat \<Rightarrow> nat \<Rightarrow> 'a::len word \<Rightarrow> ('a word \<times> nat) \<times> pb_err option" where
  "dec_varint dAtA iNdEx shift v =
     (if 64 \<le> shift then ((v, iNdEx), Some ErrIntOverflowRaft)
      else if length dAtA \<le> iNdEx then ((v, iNdEx), Some ErrUnexpectedEOF)
      else let b = dAtA ! iNdEx; v' = v OR push_bit shift (ucast (b AND 0x7F)) in
        if b < 0x80 then ((v', iNdEx + 1), None) else dec_varint dAtA (iNdEx + 1) (shift + 7) v')"
  by pat_completeness auto
termination by (relation "measure (\<lambda>(d, i, s, v). 64 - s)") auto

declare dec_varint.simps [simp del]

lemma dec_varint_progress:
  "dec_varint d i s v = ((w, j), None) \<Longrightarrow> i < j \<and> j \<le> length d"
proof (induction d i s v rule: dec_varint.induct)
  case (1 d i s v)
  then show ?case
    by (subst (asm) (2) dec_varint.simps) (fastforce simp: Let_def split: if_splits)
qed

text \<open>
  The length prefix of a length-delimited field: \<open>byteLen < 0\<close> and \<open>postIndex < 0\<close> are the
  64-bit checks (a sum of two non-negative \<open>int\<close>s is negative exactly from \<open>2 ^ 63\<close> on).
  The result is \<open>(iNdEx, postIndex)\<close>.
\<close>

definition dec_len :: "byte list \<Rightarrow> nat \<Rightarrow> pb_err + (nat \<times> nat)" where
  "dec_len dAtA j =
     (case dec_varint dAtA j 0 (0 :: uint64) of
        (_, Some e) \<Rightarrow> Inl e
      | ((byteLen, iNdEx), None) \<Rightarrow>
          if sint byteLen < 0 then Inl ErrInvalidLengthRaft
          else let postIndex = iNdEx + unat byteLen in
            if 2 ^ 63 \<le> postIndex then Inl ErrInvalidLengthRaft
            else if length dAtA < postIndex then Inl ErrUnexpectedEOF
            else Inr (iNdEx, postIndex))"

lemma dec_len_progress:
  "dec_len d j = Inr (i, p) \<Longrightarrow> j < i \<and> i \<le> p \<and> p \<le> length d"
  by (auto simp: dec_len_def Let_def split: prod.splits option.splits if_splits
      dest: dec_varint_progress)

end
