(* ===== verification/Raftpb_Decode.thy ===== *)
theory Raftpb_Decode
  imports Raftpb_Wire
begin

text \<open>
  The loop that every generated \<open>Unmarshal\<close> of \<open>src/raft/raftpb/raft.pb.go\<close> consists of, once
  for all messages.  A message type contributes its \<open>switch fieldNum\<close> as a table from field
  numbers to field kinds; the kinds are the five shapes of code the generator emits for a case.
  A decoder returns the message as far as it was filled and the error, if any, as the method
  with its pointer receiver does.

  \<open>decodes fld bs h\<close> says that the bytes \<open>bs\<close>, wherever they stand in the input, take the loop
  over them with the effect \<open>h\<close> on the message; it composes like \<open>writes\<close> does.
\<close>

section \<open>skipRaft\<close>

text \<open>
  One item of an unknown field after its tag: \<open>Inr (iNdEx, depth)\<close> or the error.  The cursor is
  an \<open>int\<close> of the source; it is negative after an overflow, that is, from \<open>2 ^ 63\<close> on.
\<close>

definition skip_item :: "byte list \<Rightarrow> nat \<Rightarrow> nat \<Rightarrow> nat \<Rightarrow> pb_err + (nat \<times> nat)" where
  "skip_item dAtA wireType iNdEx depth =
     (if wireType = 0 then
        (case dec_varint dAtA iNdEx 0 (0 :: uint64) of
           (_, Some e) \<Rightarrow> Inl e
         | ((_, i), None) \<Rightarrow> Inr (i, depth))
      else if wireType = 1 then Inr (iNdEx + 8, depth)
      else if wireType = 2 then
        (case dec_varint dAtA iNdEx 0 (0 :: uint64) of
           (_, Some e) \<Rightarrow> Inl e
         | ((len, i), None) \<Rightarrow>
             if sint len < 0 then Inl ErrInvalidLengthRaft else Inr (i + unat len, depth))
      else if wireType = 3 then Inr (iNdEx, depth + 1)
      else if wireType = 4 then
        (if depth = 0 then Inl ErrUnexpectedEndOfGroupRaft else Inr (iNdEx, depth - 1))
      else if wireType = 5 then Inr (iNdEx + 4, depth)
      else Inl IllegalWireType)"

lemma skip_item_progress: "skip_item d w i k = Inr (j, k') \<Longrightarrow> i \<le> j"
  by (auto simp: skip_item_def split: if_splits prod.splits option.splits dest: dec_varint_progress)

function skip_loop :: "byte list \<Rightarrow> nat \<Rightarrow> nat \<Rightarrow> nat \<times> pb_err option" where
  "skip_loop dAtA iNdEx depth =
     (if length dAtA \<le> iNdEx then (0, Some ErrUnexpectedEOF)
      else case dec_varint dAtA iNdEx 0 (0 :: uint64) of
        (_, Some e) \<Rightarrow> (0, Some e)
      | ((wire, i), None) \<Rightarrow>
          (case skip_item dAtA (unat (wire AND 0x7)) i depth of
             Inl e \<Rightarrow> (0, Some e)
           | Inr (i', depth') \<Rightarrow>
               if 2 ^ 63 \<le> i' then (0, Some ErrInvalidLengthRaft)
               else if depth' = 0 then (i', None)
               else skip_loop dAtA i' depth'))"
  by pat_completeness auto
termination
  by (relation "measure (\<lambda>(d, i, k). length d - i)")
    (auto dest!: dec_varint_progress [OF sym] skip_item_progress [OF sym] skip_item_progress)

declare skip_loop.simps [simp del]

definition skipRaft :: "byte list \<Rightarrow> nat \<times> pb_err option" where
  "skipRaft dAtA = skip_loop dAtA 0 0"

lemma skip_loop_progress: "skip_loop d i k = (n, None) \<Longrightarrow> i < n"
proof (induction d i k rule: skip_loop.induct)
  case (1 d i k)
  show ?case
    using "1.prems" "1.IH"
    by (subst (asm) (1) skip_loop.simps)
      (fastforce split: if_splits prod.splits option.splits sum.splits
        dest!: dec_varint_progress skip_item_progress)
qed

lemma skipRaft_pos: "skipRaft d = (n, None) \<Longrightarrow> 0 < n"
  by (auto simp: skipRaft_def dest: skip_loop_progress)

section \<open>Fields\<close>

text \<open>
  The kinds of a case of the switch: an unsigned or enumeration field assigned in place, a
  boolean read into a local first, a length-delimited field (bytes or a sub-message), a
  sub-message of the message's own type, and a repeated number, which is accepted one at a time
  or packed.
\<close>

datatype 'm pb_field =
    FVarint64 "uint64 \<Rightarrow> 'm \<Rightarrow> 'm"
  | FVarint32 "int32 \<Rightarrow> 'm \<Rightarrow> 'm"
  | FBool "bool \<Rightarrow> 'm \<Rightarrow> 'm"
  | FLen "byte list \<Rightarrow> 'm \<Rightarrow> 'm \<times> pb_err option"
  | FSelf "'m \<Rightarrow> 'm \<Rightarrow> 'm"
  | FRepeated "uint64 \<Rightarrow> 'm \<Rightarrow> 'm"

function packed_loop ::
    "(uint64 \<Rightarrow> 'm \<Rightarrow> 'm) \<Rightarrow> byte list \<Rightarrow> nat \<Rightarrow> 'm \<Rightarrow> nat \<Rightarrow> ('m \<times> nat) \<times> pb_err option" where
  "packed_loop g dAtA postIndex m iNdEx =
     (if postIndex \<le> iNdEx then ((m, iNdEx), None)
      else case dec_varint dAtA iNdEx 0 (0 :: uint64) of
        (_, Some e) \<Rightarrow> ((m, iNdEx), Some e)
      | ((v, i), None) \<Rightarrow> packed_loop g dAtA postIndex (g v m) i)"
  by pat_completeness auto
termination
  by (relation "measure (\<lambda>(g, d, p, m, i). p - i)")
    (auto dest!: dec_varint_progress [OF sym])

declare packed_loop.simps [simp del]

definition dec_field ::
    "(byte list \<Rightarrow> 'm \<times> pb_err option) \<Rightarrow> 'm pb_field \<Rightarrow> nat \<Rightarrow> byte list \<Rightarrow> 'm \<Rightarrow> nat
      \<Rightarrow> ('m \<times> nat) \<times> pb_err option" where
  "dec_field self f wireType dAtA m iNdEx =
     (case f of
        FVarint64 g \<Rightarrow>
          if wireType \<noteq> 0 then ((m, iNdEx), Some WrongWireType)
          else (case dec_varint dAtA iNdEx 0 0 of ((v, i), e) \<Rightarrow> ((g v m, i), e))
      | FVarint32 g \<Rightarrow>
          if wireType \<noteq> 0 then ((m, iNdEx), Some WrongWireType)
          else (case dec_varint dAtA iNdEx 0 0 of ((v, i), e) \<Rightarrow> ((g v m, i), e))
      | FBool g \<Rightarrow>
          if wireType \<noteq> 0 then ((m, iNdEx), Some WrongWireType)
          else (case dec_varint dAtA iNdEx 0 (0 :: uint64) of
              ((v, i), Some e) \<Rightarrow> ((m, i), Some e)
            | ((v, i), None) \<Rightarrow> ((g (v \<noteq> 0) m, i), None))
      | FLen g \<Rightarrow>
          if wireType \<noteq> 2 then ((m, iNdEx), Some WrongWireType)
          else (case dec_len dAtA iNdEx of
              Inl e \<Rightarrow> ((m, iNdEx), Some e)
            | Inr (i, postIndex) \<Rightarrow>
                (case g (take (postIndex - i) (drop i dAtA)) m of (m', e) \<Rightarrow> ((m', postIndex), e)))
      | FSelf g \<Rightarrow>
          if wireType \<noteq> 2 then ((m, iNdEx), Some WrongWireType)
          else (case dec_len dAtA iNdEx of
              Inl e \<Rightarrow> ((m, iNdEx), Some e)
            | Inr (i, postIndex) \<Rightarrow>
                (case self (take (postIndex - i) (drop i dAtA)) of
                   (r, e) \<Rightarrow> ((g r m, postIndex), e)))
      | FRepeated g \<Rightarrow>
          if wireType = 0 then
            (case dec_varint dAtA iNdEx 0 0 of
               ((v, i), Some e) \<Rightarrow> ((m, i), Some e)
             | ((v, i), None) \<Rightarrow> ((g v m, i), None))
          else if wireType = 2 then
            (case dec_len dAtA iNdEx of
               Inl e \<Rightarrow> ((m, iNdEx), Some e)
             | Inr (i, postIndex) \<Rightarrow> packed_loop g dAtA postIndex m i)
          else ((m, iNdEx), Some WrongWireType))"

lemma packed_loop_progress:
  "packed_loop g d p m i = ((m', j), None) \<Longrightarrow> i \<le> j"
proof (induction g d p m i rule: packed_loop.induct)
  case (1 g d p m i)
  show ?case
    using "1.prems" "1.IH"
    by (subst (asm) (1) packed_loop.simps)
      (fastforce split: if_splits prod.splits option.splits dest!: dec_varint_progress)
qed

lemma dec_field_progress:
  "dec_field self f w d m i = ((m', j), None) \<Longrightarrow> i \<le> j"
  unfolding dec_field_def
  by (fastforce split: pb_field.splits if_splits prod.splits option.splits sum.splits
      dest!: dec_varint_progress dec_len_progress packed_loop_progress)

section \<open>The loop of Unmarshal\<close>

function pb_loop ::
    "(int32 \<Rightarrow> 'm pb_field option) \<Rightarrow> (byte list \<Rightarrow> 'm \<times> pb_err option) \<Rightarrow> byte list \<Rightarrow> 'm \<Rightarrow> nat
      \<Rightarrow> 'm \<times> pb_err option" where
  "pb_loop fld self dAtA m iNdEx =
     (if length dAtA \<le> iNdEx then (m, if length dAtA < iNdEx then Some ErrUnexpectedEOF else None)
      else case dec_varint dAtA iNdEx 0 (0 :: uint64) of
        (_, Some e) \<Rightarrow> (m, Some e)
      | ((wire, j), None) \<Rightarrow>
          (let fieldNum = ucast (drop_bit 3 wire) :: int32; wireType = unat (wire AND 0x7) in
           if wireType = 4 then (m, Some EndGroupForNonGroup)
           else if sint fieldNum \<le> 0 then (m, Some IllegalTag)
           else (case fld fieldNum of
             Some f \<Rightarrow>
               (case dec_field self f wireType dAtA m j of
                  ((m', _), Some e) \<Rightarrow> (m', Some e)
                | ((m', i'), None) \<Rightarrow> pb_loop fld self dAtA m' i')
           | None \<Rightarrow>
               (case skipRaft (drop iNdEx dAtA) of
                  (_, Some e) \<Rightarrow> (m, Some e)
                | (skippy, None) \<Rightarrow>
                    if 2 ^ 63 \<le> iNdEx + skippy then (m, Some ErrInvalidLengthRaft)
                    else if length dAtA < iNdEx + skippy then (m, Some ErrUnexpectedEOF)
                    else pb_loop fld self dAtA m (iNdEx + skippy)))))"
  by pat_completeness auto
termination
  by (relation "measure (\<lambda>(fld, self, d, m, i). length d - i)")
    (auto dest!: dec_varint_progress [OF sym] dec_field_progress [OF sym] skipRaft_pos [OF sym]
      dec_field_progress skipRaft_pos)

declare pb_loop.simps [simp del]

lemma dec_field_cong:
  assumes "\<And>bs. length bs < length d \<Longrightarrow> self bs = self' bs"
  shows "dec_field self f w d m j = dec_field self' f w d m j"
proof -
  have "self (take (p - i) (drop i d)) = self' (take (p - i) (drop i d))"
    if "dec_len d j = Inr (i, p)" for i p
    using dec_len_progress [OF that] by (intro assms) auto
  then show ?thesis
    by (auto simp: dec_field_def split: pb_field.splits sum.splits prod.splits)
qed

lemma pb_loop_cong [fundef_cong]:
  assumes "fld = fld'" and "d = d'" and "m = m'" and "i = i'"
    and "\<And>bs. length bs < length d' \<Longrightarrow> self bs = self' bs"
  shows "pb_loop fld self d m i = pb_loop fld' self' d' m' i'"
proof -
  have "pb_loop fld self d m i = pb_loop fld self' d m i"
    if "\<And>bs. length bs < length d \<Longrightarrow> self bs = self' bs" for m i
    using that
  proof (induction fld self d m i rule: pb_loop.induct)
    case (1 fld self d m i)
    have f: "dec_field self f w d m j = dec_field self' f w d m j" for f w m j
      by (rule dec_field_cong) (rule "1.prems")
    show ?case
      unfolding pb_loop.simps [of fld self d m i] pb_loop.simps [of fld self' d m i] f
      using "1.IH" "1.prems"
      by (auto simp: Let_def f split: prod.splits option.splits)
  qed
  then show ?thesis using assms by simp
qed

definition pb_Unmarshal :: "(int32 \<Rightarrow> 'm pb_field option) \<Rightarrow> 'm \<Rightarrow> byte list \<Rightarrow> 'm \<times> pb_err option" where
  "pb_Unmarshal fld m dAtA = pb_loop fld (\<lambda>_. (m, None)) dAtA m 0"

text \<open>\<open>pb_Unmarshal\<close> is for the messages without a field of their own type; see \<open>Message\<close>.\<close>

section \<open>Reading back what was written\<close>

lemma ucast_split_7:
  assumes "LENGTH('a::len) \<le> 64"
  shows "(ucast (v :: uint64) :: 'a word) = ucast (ucast (v AND 0x7F) :: byte) OR push_bit 7 (ucast (drop_bit 7 v))"
proof (rule bit_eqI)
  fix n
  assume "possible_bit TYPE('a word) n"
  then have n: "n < LENGTH('a)" by simp
  have m: "v AND 0x7F = take_bit 7 v"
    by (simp add: take_bit_eq_mask mask_eq_exp_minus_1)
  show "bit (ucast v :: 'a word) n =
      bit (ucast (ucast (v AND 0x7F) :: byte) OR push_bit 7 (ucast (drop_bit 7 v)) :: 'a word) n"
    unfolding m using n assms by (cases "n < 7") (auto simp: bit_simps)
qed

lemma take_bit_unat_self: "unat (v :: 'a::len word) < 2 ^ n \<Longrightarrow> take_bit n v = v"
proof -
  assume "unat v < 2 ^ n"
  then have "unat (take_bit n v) = unat v"
    by (simp only: unsigned_take_bit_eq take_bit_nat_eq_self)
  then show ?thesis by (rule unsigned_word_eqI)
qed

lemma dec_varint_byte:
  assumes "drop i d = b # rest" and "b < 0x80" and "s < 64"
  shows "dec_varint d i s v = ((v OR push_bit s (ucast b), i + 1), None)"
proof -
  from assms(1) have i: "i < length d" "d ! i = b"
    by (metis drop_all not_less list.distinct(1)) (metis assms(1) hd_drop_conv_nth list.sel(1) list.distinct(1) drop_all not_less)
  have "b AND 0x7F = b"
  proof -
    have "take_bit 7 b = b" using assms(2) by (intro take_bit_unat_self) (simp add: word_less_nat_alt)
    then show ?thesis by (simp add: take_bit_eq_mask mask_eq_exp_minus_1)
  qed
  then show ?thesis using i assms(2,3) by (simp add: dec_varint.simps [of d i s v] Let_def)
qed

lemma dec_varint_varint_aux:
  assumes "LENGTH('a::len) \<le> 64"
  shows "\<lbrakk>drop i d = varint v @ rest; s < 64; unat v < 2 ^ (64 - s)\<rbrakk> \<Longrightarrow>
    dec_varint d i s (acc :: 'a word) =
      ((acc OR push_bit s (ucast v), i + length (varint v)), None)"
proof (induction v arbitrary: i s acc rule: varint.induct)
  case (1 v)
  show ?case
  proof (cases "2 ^ 7 \<le> v")
    case False
    then have v: "varint v = [ucast v]" by (simp only: varint.simps [of v] if_False)
    have lt: "unat v < 128" using False by (simp add: word_le_nat_alt not_le)
    have "(ucast v :: byte) < 0x80"
      using lt by (simp add: word_less_nat_alt unsigned_ucast_eq take_bit_nat_eq_self)
    moreover have "(ucast (ucast v :: byte) :: 'a word) = ucast v"
    proof (rule bit_word_eqI)
      fix n
      assume "n < LENGTH('a)"
      moreover have "\<not> bit v n" if "8 \<le> n"
      proof -
        have "take_bit 8 v = v"
          using lt by (intro take_bit_unat_self) simp
        then have "bit v n = bit (take_bit 8 v) n" by simp
        with that show ?thesis by (simp add: bit_simps)
      qed
      ultimately show "bit (ucast (ucast v :: byte) :: 'a word) n = bit (ucast v :: 'a word) n"
        by (cases "n < 8") (auto simp: bit_simps)
    qed
    ultimately show ?thesis
      using dec_varint_byte [of i d "ucast v" rest s acc] "1.prems" v by simp
  next
    case True
    let ?b = "ucast (v AND 0x7F OR 0x80) :: byte"
    let ?w = "drop_bit 7 v"
    have v: "varint v = ?b # varint ?w" using True by (simp only: varint.simps [of v] if_True)
    have big: "128 \<le> unat v" using True by (simp add: word_le_nat_alt)
    have s: "7 < 64 - s"
    proof (rule ccontr)
      assume "\<not> 7 < 64 - s"
      then have "(2 :: nat) ^ (64 - s) \<le> 2 ^ 7" by (intro power_increasing) simp_all
      with big "1.prems"(3) show False by simp
    qed
    have i: "i < length d" "d ! i = ?b" and rest: "drop (i + 1) d = varint ?w @ rest"
      using "1.prems"(1) v
      by (metis append_Cons drop_all list.distinct(1) not_less,
          metis append_Cons drop_all hd_drop_conv_nth list.distinct(1) list.sel(1) not_less,
          metis Suc_eq_plus1 append_Cons drop_Suc list.sel(3) tl_drop)
    have b: "?b = ucast (v AND 0x7F) OR 0x80" by (simp add: unsigned_or_eq)
    have b8: "\<not> ?b < 0x80" unfolding b by (simp add: not_less le_word_or1)
    have b7: "?b AND 0x7F = ucast (v AND 0x7F)" unfolding b
      by (simp add: unsigned_and_eq bit.conj_disj_distrib2 and.assoc)
    have w: "unat ?w < 2 ^ (64 - (s + 7))"
    proof -
      have "(2 :: nat) ^ (64 - s) = 2 ^ ((64 - (s + 7)) + 7)" using s by simp
      then have "unat v < 2 ^ (64 - (s + 7)) * 128"
        using "1.prems"(3) by (simp only: power_add) simp
      then show ?thesis by (simp add: unat_drop_bit_7 div_less_iff_less_mult)
    qed
    have "dec_varint d i s acc =
        dec_varint d (i + 1) (s + 7) (acc OR push_bit s (ucast (?b AND 0x7F)))"
      using i b8 "1.prems"(2) by (simp add: dec_varint.simps [of d i s acc] Let_def)
    also have "\<dots> = ((acc OR push_bit s (ucast (?b AND 0x7F)) OR push_bit (s + 7) (ucast ?w),
        i + 1 + length (varint ?w)), None)"
      using "1.IH" [OF True rest _ w] s by (simp add: or.assoc)
    also have "push_bit (s + 7) (ucast ?w :: 'a word) = push_bit s (push_bit 7 (ucast ?w))"
      by simp
    finally show ?thesis
      using ucast_split_7 [OF assms, of v] v b7 by (simp add: or.assoc)
  qed
qed

lemma dec_varint_varint:
  assumes "LENGTH('a::len) \<le> 64" and "drop i d = varint v @ rest"
  shows "dec_varint d i 0 (0 :: 'a word) = ((ucast v, i + length (varint v)), None)"
proof -
  have "unat v < 2 ^ (64 - 0)" using unsigned_less [of v] by simp
  from dec_varint_varint_aux [OF assms(1,2) _ this] show ?thesis by simp
qed

lemma dec_varint_varint64:
  "drop i d = varint v @ rest \<Longrightarrow>
     dec_varint d i 0 (0 :: uint64) = ((v, i + length (varint v)), None)"
  by (subst dec_varint_varint) simp_all

lemma dec_len_varint:
  assumes "drop i d = varint (of_nat (length bs)) @ bs @ rest" and "length d < 2 ^ 63"
  shows "dec_len d i = Inr (i + length (varint (of_nat (length bs))),
    i + length (varint (of_nat (length bs))) + length bs)"
proof -
  let ?v = "of_nat (length bs) :: uint64"
  have "length (drop i d) = length (varint ?v) + length bs + length rest"
    using assms(1) by simp
  then have l: "i + length (varint ?v) + length bs \<le> length d \<or> length d < i"
    by (cases "i \<le> length d") simp_all
  have i: "\<not> length d < i" using assms(1) by (metis append_is_Nil_conv drop_all less_imp_le varint_not_Nil)
  have small: "length bs < 2 ^ 63" using l i assms(2) by linarith
  then have u: "unat ?v = length bs" by (intro unat_of_nat_small) simp
  then have "sint ?v = int (length bs)"
    using small by (simp add: sint_uint uint_nat signed_take_bit_int_eq_self del: of_nat_unat unat_of_nat)
  then show ?thesis
    using l i assms(2) u by (simp add: dec_len_def dec_varint_varint64 [OF assms(1)] Let_def)
qed

text \<open>The tag byte of a field: its number and its wire type.\<close>

definition decodes ::
    "(int32 \<Rightarrow> 'm pb_field option) \<Rightarrow> (byte list \<Rightarrow> 'm \<times> pb_err option) \<Rightarrow> byte list \<Rightarrow> ('m \<Rightarrow> 'm) \<Rightarrow> bool"
  where
  "decodes fld self bs h \<longleftrightarrow> (\<forall>d i m rest.
     drop i d = bs @ rest \<and> i \<le> length d \<and> length d < 2 ^ 63 \<longrightarrow>
     pb_loop fld self d m i = pb_loop fld self d (h m) (i + length bs))"

named_theorems decodes_intros

lemma decodes_Nil: "decodes fld self [] id"
  by (simp add: decodes_def)

lemma decodes_append:
  assumes "decodes fld self xs f" and "decodes fld self ys g"
  shows "decodes fld self (xs @ ys) (\<lambda>m. g (f m))"
  unfolding decodes_def
proof (intro allI impI, elim conjE)
  fix d i m rest
  assume d: "drop i d = (xs @ ys) @ rest" and i: "i \<le> length d" and l: "length d < 2 ^ 63"
  then have "length d - i = length xs + length ys + length rest" by (metis length_append length_drop)
  with i have i': "i + length xs \<le> length d" by linarith
  have d': "drop (i + length xs) d = ys @ rest"
    using d by (metis append.assoc append_eq_conv_conj drop_drop add.commute)
  have "pb_loop fld self d m i = pb_loop fld self d (f m) (i + length xs)"
    using assms(1) d i l unfolding decodes_def by (metis append.assoc)
  also have "\<dots> = pb_loop fld self d (g (f m)) (i + length xs + length ys)"
    using assms(2) d' i' l unfolding decodes_def by blast
  finally show "pb_loop fld self d m i = pb_loop fld self d (g (f m)) (i + length (xs @ ys))"
    by (simp add: add.assoc)
qed

lemma decodes_concat:
  "(\<And>x. x \<in> set xs \<Longrightarrow> decodes fld self (e x) (g x)) \<Longrightarrow>
     decodes fld self (concat (map e xs)) (\<lambda>m. fold g xs m)"
proof (induction xs)
  case Nil
  then show ?case using decodes_Nil by (simp add: id_def)
next
  case (Cons x xs)
  then show ?case using decodes_append [of fld self "e x" "g x"] by simp
qed

lemma decodes_run:
  assumes "decodes fld self bs h" and "length bs < 2 ^ 63"
  shows "pb_loop fld self bs m 0 = (h m, None)"
proof -
  have "pb_loop fld self bs m 0 = pb_loop fld self bs (h m) (0 + length bs)"
    using assms unfolding decodes_def by (metis append_Nil2 drop0 le0)
  then show ?thesis by (simp add: pb_loop.simps [of fld self bs _ "length bs"])
qed

definition tag_ok :: "byte \<Rightarrow> int32 \<Rightarrow> nat \<Rightarrow> bool" where
  "tag_ok t n w \<longleftrightarrow> t < 0x80 \<and> ucast (drop_bit 3 (ucast t :: uint64)) = n \<and>
     unat (ucast t AND 0x7 :: uint64) = w \<and> 0 < sint n \<and> w \<noteq> 4"

lemma pb_loop_field:
  assumes "drop i d = t # xs" and "tag_ok t n w" and "fld n = Some f"
    and "dec_field self f w d m (i + 1) = ((m', j), None)"
  shows "pb_loop fld self d m i = pb_loop fld self d m' j"
proof -
  have i: "\<not> length d \<le> i" using assms(1) by (metis drop_all list.distinct(1))
  have t: "t < 0x80" "unat (ucast t AND 0x7 :: uint64) = w" "w \<noteq> 4"
      "ucast (drop_bit 3 (ucast t :: uint64)) = n" "\<not> sint n \<le> 0"
    using assms(2) by (simp_all add: tag_ok_def)
  have "dec_varint d i 0 (0 :: uint64) = ((ucast t, i + 1), None)"
    using dec_varint_byte [OF assms(1) t(1), of 0 "0 :: uint64"] by simp
  then show ?thesis
    using i t assms(3,4) by (simp only: pb_loop.simps [of fld self d m i]) (simp add: Let_def)
qed

lemma decodesI:
  assumes "tag_ok t n w" and "fld n = Some f"
    and "\<And>d j m rest. \<lbrakk>drop j d = bs @ rest; length bs < 2 ^ 63; length d < 2 ^ 63\<rbrakk> \<Longrightarrow>
           dec_field self f w d m j = ((h m, j + length bs), None)"
  shows "decodes fld self (t # bs) h"
  unfolding decodes_def
proof (intro allI impI, elim conjE)
  fix d i m rest
  assume d: "drop i d = (t # bs) @ rest" and l: "length d < 2 ^ 63"
  have "drop (i + 1) d = bs @ rest" using d by (metis Suc_eq_plus1 append_Cons drop_Suc list.sel(3) tl_drop)
  moreover have "length bs \<le> length d" using arg_cong [OF d, of length] by simp
  ultimately have "dec_field self f w d m (i + 1) = ((h m, i + 1 + length bs), None)"
    using assms(3) l by auto
  then show "pb_loop fld self d m i = pb_loop fld self d (h m) (i + length (t # bs))"
    using pb_loop_field [where fld = fld and n = n, OF _ assms(1,2)] d by simp
qed

lemma decodes_varint64:
  assumes "tag_ok t n 0" and "fld n = Some (FVarint64 g)"
  shows "decodes fld self (t # varint v) (g v)"
  by (rule decodesI [where fld = fld, OF assms]) (simp add: dec_field_def dec_varint_varint64)

lemma decodes_varint32:
  assumes "tag_ok t n 0" and "fld n = Some (FVarint32 g)"
  shows "decodes fld self (t # varint v) (g (ucast v))"
  by (rule decodesI [where fld = fld, OF assms]) (simp add: dec_field_def dec_varint_varint)

lemma decodes_bool:
  assumes "tag_ok t n 0" and "fld n = Some (FBool g)"
  shows "decodes fld self (t # [if b then 1 else 0]) (g b)"
  by (rule decodesI [where fld = fld, OF assms]) (auto simp: dec_field_def dec_varint_byte)

lemma decodes_repeated:
  assumes "tag_ok t n 0" and "fld n = Some (FRepeated g)"
  shows "decodes fld self (t # varint v) (g v)"
  by (rule decodesI [where fld = fld, OF assms]) (simp add: dec_field_def dec_varint_varint64)

lemma take_drop_append: "drop j d = xs @ ys @ rest \<Longrightarrow> take (length ys) (drop (j + length xs) d) = ys"
proof -
  assume "drop j d = xs @ ys @ rest"
  then have "drop (j + length xs) d = ys @ rest"
    by (metis add.commute append_eq_conv_conj drop_drop)
  then show ?thesis by simp
qed

lemma decodes_len:
  assumes "tag_ok t n 2" and "fld n = Some (FLen g)"
    and "\<And>m. length bs < 2 ^ 63 \<Longrightarrow> g bs m = (h m, None)"
  shows "decodes fld self (t # varint (of_nat (length bs)) @ bs) h"
proof (rule decodesI [where fld = fld, OF assms(1,2)])
  fix d j m rest
  let ?v = "varint (of_nat (length bs))"
  assume d: "drop j d = (?v @ bs) @ rest" and l: "length (?v @ bs) < 2 ^ 63" "length d < 2 ^ 63"
  have "dec_len d j = Inr (j + length ?v, j + length ?v + length bs)"
    using d l(2) by (intro dec_len_varint) simp_all
  moreover have "take (length bs) (drop (j + length ?v) d) = bs"
    using d by (intro take_drop_append) simp
  moreover have "g bs m = (h m, None)" using l by (intro assms(3)) simp
  ultimately show "dec_field self (FLen g) 2 d m j = ((h m, j + length (?v @ bs)), None)"
    by (simp add: dec_field_def add.assoc)
qed

lemma decodes_self:
  assumes "tag_ok t n 2" and "fld n = Some (FSelf g)"
    and "length bs < 2 ^ 63 \<Longrightarrow> self bs = (r, None)"
  shows "decodes fld self (t # varint (of_nat (length bs)) @ bs) (g r)"
proof (rule decodesI [where fld = fld, OF assms(1,2)])
  fix d j m rest
  let ?v = "varint (of_nat (length bs))"
  assume d: "drop j d = (?v @ bs) @ rest" and l: "length (?v @ bs) < 2 ^ 63" "length d < 2 ^ 63"
  have "dec_len d j = Inr (j + length ?v, j + length ?v + length bs)"
    using d l(2) by (intro dec_len_varint) simp_all
  moreover have "take (length bs) (drop (j + length ?v) d) = bs"
    using d by (intro take_drop_append) simp
  moreover have "self bs = (r, None)" using l by (intro assms(3)) simp
  ultimately show "dec_field self (FSelf g) 2 d m j = ((g r m, j + length (?v @ bs)), None)"
    by (simp add: dec_field_def add.assoc)
qed

lemma decodes_opt:
  "(\<And>y. x = Some y \<Longrightarrow> decodes fld self (e y) (g y)) \<Longrightarrow>
     decodes fld self (case x of None \<Rightarrow> [] | Some y \<Rightarrow> e y) (case x of None \<Rightarrow> id | Some y \<Rightarrow> g y)"
  by (cases x) (simp_all add: decodes_Nil)

lemma scast_enum_roundtrip: "(ucast (scast (x :: int32) :: uint64) :: int32) = x"
  by (rule bit_word_eqI) (simp add: bit_simps)

lemma decodes_enum:
  assumes "tag_ok t n 0" and "fld n = Some (FVarint32 g)"
  shows "decodes fld self (t # varint (scast (x :: int32))) (g x)"
  using decodes_varint32 [where fld = fld and v = "scast x", OF assms, of self]
  by (simp add: scast_enum_roundtrip)

lemma decodes_data:
  assumes "tag_ok t n 2" and "fld n = Some (FLen g)"
    and "\<And>m. length bs < 2 ^ 63 \<Longrightarrow> g bs m = (h m, None)"
  shows "decodes fld self (data_bytes t bs) h"
  unfolding data_bytes_def using assms by (rule decodes_len)

lemma decodes_subself:
  assumes "tag_ok t n 2" and "fld n = Some (FSelf g)"
    and "length bs < 2 ^ 63 \<Longrightarrow> self bs = (r, None)"
  shows "decodes fld self (data_bytes t bs) (g r)"
  unfolding data_bytes_def using assms by (rule decodes_self)

lemma decodes_repeated_list:
  assumes "tag_ok t n 0" and "fld n = Some (FRepeated g)" and "\<And>m. fold g vs m = h m"
  shows "decodes fld self (concat (map (\<lambda>v. t # varint v) vs)) h"
proof -
  have "decodes fld self (concat (map (\<lambda>v. t # varint v) vs)) (\<lambda>m. fold g vs m)"
    by (rule decodes_concat) (rule decodes_repeated [where fld = fld, OF assms(1,2)])
  then show ?thesis by (simp add: assms(3))
qed

lemma pb_Unmarshal_decodes:
  assumes "decodes fld (\<lambda>_. (m, None)) bs h" and "length bs < 2 ^ 63" and "h m = m'"
  shows "pb_Unmarshal fld m bs = (m', None)"
  unfolding pb_Unmarshal_def decodes_run [OF assms(1,2)] assms(3) ..

end
