(* ===== verification/Raftpb_Codec.thy ===== *)
theory Raftpb_Codec
  imports Raftpb_Decode
begin

text \<open>
  \<open>Size\<close>, \<open>MarshalToSizedBuffer\<close>, \<open>Marshal\<close> and \<open>Unmarshal\<close> of the nine messages of
  \<open>src/raft/raftpb/raft.pb.go\<close>, and the proof that they are a codec: \<open>Marshal\<close> never panics,
  fills its buffer exactly, and \<open>Unmarshal\<close> recovers the message.

  \<open>X_bytes\<close> is the wire format of a message written front to back; the locale \<open>pb_codec\<close> is
  the contract between the three methods of a type and that format, and every message is an
  interpretation of it.  The bound \<open>2 ^ 63\<close> on a message's size is that of a Go \<open>int\<close>.
\<close>

section \<open>The contract of a message type\<close>

locale pb_codec =
  fixes size_of :: "'m \<Rightarrow> nat"
    and bytes_of :: "'m \<Rightarrow> byte list"
    and writer :: "'m \<Rightarrow> wbuf \<Rightarrow> wbuf go"
    and reader :: "'m \<Rightarrow> byte list \<Rightarrow> 'm \<times> pb_err option"
    and zero :: 'm
  assumes writer_bytes: "writes (writer m) (bytes_of m)"
    and length_bytes: "length (bytes_of m) = size_of m"
    and reader_bytes: "size_of m < 2 ^ 63 \<Longrightarrow> reader zero (bytes_of m) = (m, None)"
begin

lemma marshal: "pb_Marshal (size_of m) (writer m) = Inr (bytes_of m)"
  by (rule pb_Marshal_writes [OF writer_bytes length_bytes])

lemma roundtrip:
  "size_of m < 2 ^ 63 \<Longrightarrow>
     \<exists>bs. pb_Marshal (size_of m) (writer m) = Inr bs \<and> length bs = size_of m \<and>
       reader zero bs = (m, None)"
  by (simp add: marshal length_bytes reader_bytes)

lemma marshal_inj:
  assumes "size_of m < 2 ^ 63" and "pb_Marshal (size_of m) (writer m) = pb_Marshal (size_of n) (writer n)"
  shows "m = n"
proof -
  have b: "bytes_of m = bytes_of n" using assms(2) by (simp add: marshal)
  then have "size_of n = size_of m" by (metis length_bytes)
  with b assms(1) show ?thesis by (metis reader_bytes prod.inject)
qed

lemma writes_sub: "writes (put_msg t (writer m)) (data_bytes t (bytes_of m))"
  by (rule writes_put_msg [OF writer_bytes])

lemma length_sub: "length (data_bytes t (bytes_of m)) = 1 + size_of m + sovRaft (of_nat (size_of m))"
  by (simp add: length_data_bytes length_bytes)

lemma reader_bytes': "length (bytes_of m) < 2 ^ 63 \<Longrightarrow> reader zero (bytes_of m) = (m, None)"
  by (simp add: length_bytes reader_bytes)

end

section \<open>Entry\<close>

definition Entry_Size :: "Entry \<Rightarrow> nat" where
  "Entry_Size m =
     (1 + sovRaft (scast (eType m))) + (1 + sovRaft (eTerm m)) + (1 + sovRaft (eIndex m)) +
     (case eData m of None \<Rightarrow> 0 | Some b \<Rightarrow> 1 + length b + sovRaft (of_nat (length b)))"

definition Entry_MarshalToSizedBuffer :: "Entry \<Rightarrow> wbuf \<Rightarrow> wbuf go" where
  "Entry_MarshalToSizedBuffer m = wrun
     [put_opt (put_data 0x22) (eData m),
      encodeVarintRaft (eIndex m), put_byte 0x18,
      encodeVarintRaft (eTerm m), put_byte 0x10,
      encodeVarintRaft (scast (eType m)), put_byte 0x8]"

definition Entry_Marshal :: "Entry \<Rightarrow> byte list go" where
  "Entry_Marshal m = pb_Marshal (Entry_Size m) (Entry_MarshalToSizedBuffer m)"

definition Entry_fields :: "int32 \<Rightarrow> Entry pb_field option" where
  "Entry_fields n =
     (if n = 1 then Some (FVarint32 (\<lambda>v m. m\<lparr>eType := v\<rparr>))
      else if n = 2 then Some (FVarint64 (\<lambda>v m. m\<lparr>eTerm := v\<rparr>))
      else if n = 3 then Some (FVarint64 (\<lambda>v m. m\<lparr>eIndex := v\<rparr>))
      else if n = 4 then Some (FLen (\<lambda>bs m. (m\<lparr>eData := Some bs\<rparr>, None)))
      else None)"

definition Entry_Unmarshal :: "Entry \<Rightarrow> byte list \<Rightarrow> Entry \<times> pb_err option" where
  "Entry_Unmarshal = pb_Unmarshal Entry_fields"

definition Entry_bytes :: "Entry \<Rightarrow> byte list" where
  "Entry_bytes m =
     (0x8 # varint (scast (eType m))) @ (0x10 # varint (eTerm m)) @ (0x18 # varint (eIndex m)) @
     (case eData m of None \<Rightarrow> [] | Some b \<Rightarrow> data_bytes 0x22 b)"

lemma writes_Entry: "writes (Entry_MarshalToSizedBuffer m) (Entry_bytes m)"
  unfolding Entry_MarshalToSizedBuffer_def Entry_bytes_def
  by (rule writes_eq, (rule writes_intros)+) simp

lemma length_Entry_bytes: "length (Entry_bytes m) = Entry_Size m"
  by (simp add: Entry_bytes_def Entry_Size_def length_varint length_data_bytes split: option.split)

lemma decodes_Entry:
  "decodes Entry_fields self (Entry_bytes m)
     (\<lambda>x. (case eData m of None \<Rightarrow> id | Some b \<Rightarrow> (\<lambda>x. x\<lparr>eData := Some b\<rparr>))
       (x\<lparr>eType := eType m, eTerm := eTerm m, eIndex := eIndex m\<rparr>))"
proof -
  have 1: "decodes Entry_fields self (0x8 # varint (scast (eType m))) (\<lambda>x. x\<lparr>eType := eType m\<rparr>)"
    by (rule decodes_enum [where n = 1]) (simp_all add: tag_ok_def Entry_fields_def)
  have 2: "decodes Entry_fields self (0x10 # varint (eTerm m)) (\<lambda>x. x\<lparr>eTerm := eTerm m\<rparr>)"
    by (rule decodes_varint64 [where n = 2]) (simp_all add: tag_ok_def Entry_fields_def)
  have 3: "decodes Entry_fields self (0x18 # varint (eIndex m)) (\<lambda>x. x\<lparr>eIndex := eIndex m\<rparr>)"
    by (rule decodes_varint64 [where n = 3]) (simp_all add: tag_ok_def Entry_fields_def)
  have 4: "decodes Entry_fields self (case eData m of None \<Rightarrow> [] | Some b \<Rightarrow> data_bytes 0x22 b)
      (case eData m of None \<Rightarrow> id | Some b \<Rightarrow> (\<lambda>x. x\<lparr>eData := Some b\<rparr>))"
    by (rule decodes_opt, rule decodes_data [where n = 4]) (simp_all add: tag_ok_def Entry_fields_def)
  show ?thesis
    unfolding Entry_bytes_def
    using decodes_append [OF 1 decodes_append [OF 2 decodes_append [OF 3 4]]] by simp
qed

interpretation entry: pb_codec Entry_Size Entry_bytes Entry_MarshalToSizedBuffer Entry_Unmarshal zeroEntry
proof
  fix m :: Entry
  show "writes (Entry_MarshalToSizedBuffer m) (Entry_bytes m)" by (rule writes_Entry)
  show "length (Entry_bytes m) = Entry_Size m" by (rule length_Entry_bytes)
  assume "Entry_Size m < 2 ^ 63"
  then show "Entry_Unmarshal zeroEntry (Entry_bytes m) = (m, None)"
    using decodes_run [OF decodes_Entry, of m]
    by (simp add: Entry_Unmarshal_def pb_Unmarshal_def length_Entry_bytes zeroEntry_def
        split: option.split)
qed

section \<open>ConfState\<close>

definition ConfState_Size :: "ConfState \<Rightarrow> nat" where
  "ConfState_Size m =
     sum_list (map (\<lambda>e. 1 + sovRaft e) (Voters m)) +
     sum_list (map (\<lambda>e. 1 + sovRaft e) (Learners m)) +
     sum_list (map (\<lambda>e. 1 + sovRaft e) (VotersOutgoing m)) +
     sum_list (map (\<lambda>e. 1 + sovRaft e) (LearnersNext m)) + 2"

definition ConfState_MarshalToSizedBuffer :: "ConfState \<Rightarrow> wbuf \<Rightarrow> wbuf go" where
  "ConfState_MarshalToSizedBuffer m = wrun
     [put_byte (if AutoLeave m then 1 else 0), put_byte 0x28,
      put_each (\<lambda>v. wrun [encodeVarintRaft v, put_byte 0x20]) (LearnersNext m),
      put_each (\<lambda>v. wrun [encodeVarintRaft v, put_byte 0x18]) (VotersOutgoing m),
      put_each (\<lambda>v. wrun [encodeVarintRaft v, put_byte 0x10]) (Learners m),
      put_each (\<lambda>v. wrun [encodeVarintRaft v, put_byte 0x8]) (Voters m)]"

definition ConfState_Marshal :: "ConfState \<Rightarrow> byte list go" where
  "ConfState_Marshal m = pb_Marshal (ConfState_Size m) (ConfState_MarshalToSizedBuffer m)"

text \<open>The cases of the switch in three parts.\<close>

definition ConfState_fields_4 :: "int32 \<Rightarrow> ConfState pb_field option" where
  [simp]: "ConfState_fields_4 n =
     (if n = 4 then Some (FRepeated (\<lambda>v m. m\<lparr>LearnersNext := LearnersNext m @ [v]\<rparr>))
      else if n = 5 then Some (FBool (\<lambda>b m. m\<lparr>AutoLeave := b\<rparr>))
      else None)"

definition ConfState_fields_2 :: "int32 \<Rightarrow> ConfState pb_field option" where
  [simp]: "ConfState_fields_2 n =
     (if n = 2 then Some (FRepeated (\<lambda>v m. m\<lparr>Learners := Learners m @ [v]\<rparr>))
      else if n = 3 then Some (FRepeated (\<lambda>v m. m\<lparr>VotersOutgoing := VotersOutgoing m @ [v]\<rparr>))
      else ConfState_fields_4 n)"

definition ConfState_fields :: "int32 \<Rightarrow> ConfState pb_field option" where
  "ConfState_fields n =
     (if n = 1 then Some (FRepeated (\<lambda>v m. m\<lparr>Voters := Voters m @ [v]\<rparr>))
      else ConfState_fields_2 n)"

definition ConfState_Unmarshal :: "ConfState \<Rightarrow> byte list \<Rightarrow> ConfState \<times> pb_err option" where
  "ConfState_Unmarshal = pb_Unmarshal ConfState_fields"

definition ConfState_bytes :: "ConfState \<Rightarrow> byte list" where
  "ConfState_bytes m =
     concat (map (\<lambda>v. 0x8 # varint v) (Voters m)) @
     concat (map (\<lambda>v. 0x10 # varint v) (Learners m)) @
     concat (map (\<lambda>v. 0x18 # varint v) (VotersOutgoing m)) @
     concat (map (\<lambda>v. 0x20 # varint v) (LearnersNext m)) @
     [0x28, if AutoLeave m then 1 else 0]"

lemma writes_tagged_varint [writes_intros]:
  "writes (wrun [encodeVarintRaft v, put_byte t]) (t # varint v)"
  by (rule writes_eq, (rule writes_intros)+) simp

lemma writes_ConfState: "writes (ConfState_MarshalToSizedBuffer m) (ConfState_bytes m)"
  unfolding ConfState_MarshalToSizedBuffer_def ConfState_bytes_def
  by (rule writes_eq,
      (rule writes_wrun_Cons writes_wrun_Nil writes_put_byte writes_put_each writes_tagged_varint)+) simp

lemma length_concat_varints:
  "length (concat (map (\<lambda>v. t # varint v) vs)) = sum_list (map (\<lambda>e. 1 + sovRaft e) vs)"
  by (induction vs) (simp_all add: length_varint)

lemma length_ConfState_bytes: "length (ConfState_bytes m) = ConfState_Size m"
  unfolding ConfState_bytes_def ConfState_Size_def length_append length_concat_varints by simp

lemma fold_ConfState:
  "fold (\<lambda>v m. m\<lparr>Voters := Voters m @ [v]\<rparr>) vs m = m\<lparr>Voters := Voters m @ vs\<rparr>"
  "fold (\<lambda>v m. m\<lparr>Learners := Learners m @ [v]\<rparr>) vs m = m\<lparr>Learners := Learners m @ vs\<rparr>"
  "fold (\<lambda>v m. m\<lparr>VotersOutgoing := VotersOutgoing m @ [v]\<rparr>) vs m =
     m\<lparr>VotersOutgoing := VotersOutgoing m @ vs\<rparr>"
  "fold (\<lambda>v m. m\<lparr>LearnersNext := LearnersNext m @ [v]\<rparr>) vs m =
     m\<lparr>LearnersNext := LearnersNext m @ vs\<rparr>"
  by (induction vs arbitrary: m) simp_all

lemma decodes_ConfState:
  "decodes ConfState_fields self (ConfState_bytes m)
     (\<lambda>x. x\<lparr>Voters := Voters x @ Voters m, Learners := Learners x @ Learners m,
       VotersOutgoing := VotersOutgoing x @ VotersOutgoing m,
       LearnersNext := LearnersNext x @ LearnersNext m, AutoLeave := AutoLeave m\<rparr>)"
proof -
  have 1: "decodes ConfState_fields self (concat (map (\<lambda>v. 0x8 # varint v) (Voters m)))
      (\<lambda>x. x\<lparr>Voters := Voters x @ Voters m\<rparr>)"
    by (rule decodes_repeated_list [where n = 1])
      (simp add: tag_ok_def, simp add: ConfState_fields_def, rule fold_ConfState)
  have 2: "decodes ConfState_fields self (concat (map (\<lambda>v. 0x10 # varint v) (Learners m)))
      (\<lambda>x. x\<lparr>Learners := Learners x @ Learners m\<rparr>)"
    by (rule decodes_repeated_list [where n = 2])
      (simp add: tag_ok_def, simp add: ConfState_fields_def, rule fold_ConfState)
  have 3: "decodes ConfState_fields self (concat (map (\<lambda>v. 0x18 # varint v) (VotersOutgoing m)))
      (\<lambda>x. x\<lparr>VotersOutgoing := VotersOutgoing x @ VotersOutgoing m\<rparr>)"
    by (rule decodes_repeated_list [where n = 3])
      (simp add: tag_ok_def, simp add: ConfState_fields_def, rule fold_ConfState)
  have 4: "decodes ConfState_fields self (concat (map (\<lambda>v. 0x20 # varint v) (LearnersNext m)))
      (\<lambda>x. x\<lparr>LearnersNext := LearnersNext x @ LearnersNext m\<rparr>)"
    by (rule decodes_repeated_list [where n = 4])
      (simp add: tag_ok_def, simp add: ConfState_fields_def, rule fold_ConfState)
  have 5: "decodes ConfState_fields self [0x28, if AutoLeave m then 1 else 0]
      (\<lambda>x. x\<lparr>AutoLeave := AutoLeave m\<rparr>)"
    by (rule decodes_bool [where n = 5]) (simp_all add: tag_ok_def ConfState_fields_def)
  show ?thesis
    unfolding ConfState_bytes_def
    using decodes_append [OF 1 decodes_append [OF 2 decodes_append [OF 3 decodes_append [OF 4 5]]]]
    by simp
qed

interpretation confstate:
  pb_codec ConfState_Size ConfState_bytes ConfState_MarshalToSizedBuffer ConfState_Unmarshal zeroConfState
proof
  fix m :: ConfState
  show "writes (ConfState_MarshalToSizedBuffer m) (ConfState_bytes m)" by (rule writes_ConfState)
  show "length (ConfState_bytes m) = ConfState_Size m" by (rule length_ConfState_bytes)
  assume "ConfState_Size m < 2 ^ 63"
  then show "ConfState_Unmarshal zeroConfState (ConfState_bytes m) = (m, None)"
    using decodes_run [OF decodes_ConfState, of m]
    by (simp add: ConfState_Unmarshal_def pb_Unmarshal_def length_ConfState_bytes zeroConfState_def)
qed

section \<open>SnapshotMetadata\<close>

definition SnapshotMetadata_Size :: "SnapshotMetadata \<Rightarrow> nat" where
  "SnapshotMetadata_Size m =
     (let l = ConfState_Size (smConfState m) in 1 + l + sovRaft (of_nat l)) +
     (1 + sovRaft (smIndex m)) + (1 + sovRaft (smTerm m))"

definition SnapshotMetadata_MarshalToSizedBuffer :: "SnapshotMetadata \<Rightarrow> wbuf \<Rightarrow> wbuf go" where
  "SnapshotMetadata_MarshalToSizedBuffer m = wrun
     [encodeVarintRaft (smTerm m), put_byte 0x18,
      encodeVarintRaft (smIndex m), put_byte 0x10,
      put_msg 0xa (ConfState_MarshalToSizedBuffer (smConfState m))]"

definition SnapshotMetadata_Marshal :: "SnapshotMetadata \<Rightarrow> byte list go" where
  "SnapshotMetadata_Marshal m = pb_Marshal (SnapshotMetadata_Size m) (SnapshotMetadata_MarshalToSizedBuffer m)"

definition SnapshotMetadata_fields :: "int32 \<Rightarrow> SnapshotMetadata pb_field option" where
  "SnapshotMetadata_fields n =
     (if n = 1 then Some (FLen (\<lambda>bs m.
        case ConfState_Unmarshal (smConfState m) bs of (c, e) \<Rightarrow> (m\<lparr>smConfState := c\<rparr>, e)))
      else if n = 2 then Some (FVarint64 (\<lambda>v m. m\<lparr>smIndex := v\<rparr>))
      else if n = 3 then Some (FVarint64 (\<lambda>v m. m\<lparr>smTerm := v\<rparr>))
      else None)"

definition SnapshotMetadata_Unmarshal :: "SnapshotMetadata \<Rightarrow> byte list \<Rightarrow> SnapshotMetadata \<times> pb_err option" where
  "SnapshotMetadata_Unmarshal = pb_Unmarshal SnapshotMetadata_fields"

definition SnapshotMetadata_bytes :: "SnapshotMetadata \<Rightarrow> byte list" where
  "SnapshotMetadata_bytes m =
     data_bytes 0xa (ConfState_bytes (smConfState m)) @
     (0x10 # varint (smIndex m)) @ (0x18 # varint (smTerm m))"

lemma writes_SnapshotMetadata:
  "writes (SnapshotMetadata_MarshalToSizedBuffer m) (SnapshotMetadata_bytes m)"
  unfolding SnapshotMetadata_MarshalToSizedBuffer_def SnapshotMetadata_bytes_def
  by (rule writes_eq, (rule writes_intros confstate.writes_sub)+) simp

lemma length_SnapshotMetadata_bytes:
  "length (SnapshotMetadata_bytes m) = SnapshotMetadata_Size m"
  by (simp add: SnapshotMetadata_bytes_def SnapshotMetadata_Size_def length_varint
      confstate.length_sub Let_def)

text \<open>A sub-message is decoded into the value already there; from the zero value it is recovered.\<close>

lemma decodes_SnapshotMetadata:
  "decodes SnapshotMetadata_fields self (SnapshotMetadata_bytes m)
     (\<lambda>x. x\<lparr>smConfState := (smConfState x)\<lparr>
         Voters := Voters (smConfState x) @ Voters (smConfState m),
         Learners := Learners (smConfState x) @ Learners (smConfState m),
         VotersOutgoing := VotersOutgoing (smConfState x) @ VotersOutgoing (smConfState m),
         LearnersNext := LearnersNext (smConfState x) @ LearnersNext (smConfState m),
         AutoLeave := AutoLeave (smConfState m)\<rparr>, smIndex := smIndex m, smTerm := smTerm m\<rparr>)"
proof -
  have 1: "decodes SnapshotMetadata_fields self (data_bytes 0xa (ConfState_bytes (smConfState m)))
      (\<lambda>x. x\<lparr>smConfState := (smConfState x)\<lparr>
         Voters := Voters (smConfState x) @ Voters (smConfState m),
         Learners := Learners (smConfState x) @ Learners (smConfState m),
         VotersOutgoing := VotersOutgoing (smConfState x) @ VotersOutgoing (smConfState m),
         LearnersNext := LearnersNext (smConfState x) @ LearnersNext (smConfState m),
         AutoLeave := AutoLeave (smConfState m)\<rparr>\<rparr>)"
    by (rule decodes_data [where n = 1], simp add: tag_ok_def, simp add: SnapshotMetadata_fields_def)
      (simp add: ConfState_Unmarshal_def pb_Unmarshal_def decodes_run [OF decodes_ConfState])
  have 2: "decodes SnapshotMetadata_fields self (0x10 # varint (smIndex m)) (\<lambda>x. x\<lparr>smIndex := smIndex m\<rparr>)"
    by (rule decodes_varint64 [where n = 2]) (simp_all add: tag_ok_def SnapshotMetadata_fields_def)
  have 3: "decodes SnapshotMetadata_fields self (0x18 # varint (smTerm m)) (\<lambda>x. x\<lparr>smTerm := smTerm m\<rparr>)"
    by (rule decodes_varint64 [where n = 3]) (simp_all add: tag_ok_def SnapshotMetadata_fields_def)
  show ?thesis
    unfolding SnapshotMetadata_bytes_def using decodes_append [OF 1 decodes_append [OF 2 3]] by simp
qed

interpretation snapmeta: pb_codec SnapshotMetadata_Size SnapshotMetadata_bytes SnapshotMetadata_MarshalToSizedBuffer SnapshotMetadata_Unmarshal zeroSnapshotMetadata
proof
  fix m :: SnapshotMetadata
  show "writes (SnapshotMetadata_MarshalToSizedBuffer m) (SnapshotMetadata_bytes m)" by (rule writes_SnapshotMetadata)
  show "length (SnapshotMetadata_bytes m) = SnapshotMetadata_Size m" by (rule length_SnapshotMetadata_bytes)
  assume "SnapshotMetadata_Size m < 2 ^ 63"
  then show "SnapshotMetadata_Unmarshal zeroSnapshotMetadata (SnapshotMetadata_bytes m) = (m, None)"
    unfolding SnapshotMetadata_Unmarshal_def
    by (intro pb_Unmarshal_decodes [OF decodes_SnapshotMetadata])
      (simp_all add: length_SnapshotMetadata_bytes zeroSnapshotMetadata_def zeroConfState_def)
qed

section \<open>Snapshot\<close>

definition Snapshot_Size :: "Snapshot \<Rightarrow> nat" where
  "Snapshot_Size m =
     (case sData m of None \<Rightarrow> 0 | Some b \<Rightarrow> 1 + length b + sovRaft (of_nat (length b))) +
     (let l = SnapshotMetadata_Size (sMetadata m) in 1 + l + sovRaft (of_nat l))"

definition Snapshot_MarshalToSizedBuffer :: "Snapshot \<Rightarrow> wbuf \<Rightarrow> wbuf go" where
  "Snapshot_MarshalToSizedBuffer m = wrun
     [put_msg 0x12 (SnapshotMetadata_MarshalToSizedBuffer (sMetadata m)),
      put_opt (put_data 0xa) (sData m)]"

definition Snapshot_Marshal :: "Snapshot \<Rightarrow> byte list go" where
  "Snapshot_Marshal m = pb_Marshal (Snapshot_Size m) (Snapshot_MarshalToSizedBuffer m)"

definition Snapshot_fields :: "int32 \<Rightarrow> Snapshot pb_field option" where
  "Snapshot_fields n =
     (if n = 1 then Some (FLen (\<lambda>bs m. (m\<lparr>sData := Some bs\<rparr>, None)))
      else if n = 2 then Some (FLen (\<lambda>bs m.
        case SnapshotMetadata_Unmarshal (sMetadata m) bs of (x, e) \<Rightarrow> (m\<lparr>sMetadata := x\<rparr>, e)))
      else None)"

definition Snapshot_Unmarshal :: "Snapshot \<Rightarrow> byte list \<Rightarrow> Snapshot \<times> pb_err option" where
  "Snapshot_Unmarshal = pb_Unmarshal Snapshot_fields"

definition Snapshot_bytes :: "Snapshot \<Rightarrow> byte list" where
  "Snapshot_bytes m =
     (case sData m of None \<Rightarrow> [] | Some b \<Rightarrow> data_bytes 0xa b) @
     data_bytes 0x12 (SnapshotMetadata_bytes (sMetadata m))"

lemma writes_Snapshot: "writes (Snapshot_MarshalToSizedBuffer m) (Snapshot_bytes m)"
  unfolding Snapshot_MarshalToSizedBuffer_def Snapshot_bytes_def
  by (rule writes_eq, (rule writes_intros snapmeta.writes_sub)+) simp

lemma length_Snapshot_bytes: "length (Snapshot_bytes m) = Snapshot_Size m"
  by (simp add: Snapshot_bytes_def Snapshot_Size_def length_data_bytes snapmeta.length_bytes Let_def
      split: option.split)

lemma decodes_Snapshot:
  "decodes Snapshot_fields self (Snapshot_bytes m)
     (\<lambda>x. let y = (case sData m of None \<Rightarrow> id | Some b \<Rightarrow> (\<lambda>x. x\<lparr>sData := Some b\<rparr>)) x in
       y\<lparr>sMetadata := fst (SnapshotMetadata_Unmarshal (sMetadata y) (SnapshotMetadata_bytes (sMetadata m)))\<rparr>)"
proof -
  let ?f = "case sData m of None \<Rightarrow> id | Some b \<Rightarrow> (\<lambda>x. x\<lparr>sData := Some b\<rparr>)"
  let ?g = "\<lambda>x. x\<lparr>sMetadata :=
      fst (SnapshotMetadata_Unmarshal (sMetadata x) (SnapshotMetadata_bytes (sMetadata m)))\<rparr>"
  have 1: "decodes Snapshot_fields self (case sData m of None \<Rightarrow> [] | Some b \<Rightarrow> data_bytes 0xa b) ?f" for self
    by (rule decodes_opt, rule decodes_data [where n = 1]) (simp_all add: tag_ok_def Snapshot_fields_def)
  have 2: "decodes Snapshot_fields self (data_bytes 0x12 (SnapshotMetadata_bytes (sMetadata m))) ?g" for self
    by (rule decodes_data [where n = 2], simp add: tag_ok_def, simp add: Snapshot_fields_def)
      (simp add: SnapshotMetadata_Unmarshal_def pb_Unmarshal_def
        decodes_run [OF decodes_SnapshotMetadata] Let_def)
  show ?thesis
    unfolding Snapshot_bytes_def Let_def by (rule decodes_append [OF 1 2])
qed

lemma reader_Snapshot:
  assumes "Snapshot_Size m < 2 ^ 63"
  shows "Snapshot_Unmarshal zeroSnapshot (Snapshot_bytes m) = (m, None)"
proof -
  have "SnapshotMetadata_Size (sMetadata m) < 2 ^ 63"
    using assms by (simp add: Snapshot_Size_def Let_def)
  then have "fst (SnapshotMetadata_Unmarshal zeroSnapshotMetadata
      (SnapshotMetadata_bytes (sMetadata m))) = sMetadata m"
    using snapmeta.reader_bytes [of "sMetadata m"] by simp
  then show ?thesis
    unfolding Snapshot_Unmarshal_def
    by (intro pb_Unmarshal_decodes [OF decodes_Snapshot])
      (use assms in \<open>simp_all add: length_Snapshot_bytes zeroSnapshot_def Let_def split: option.split\<close>)
qed

lemma Snapshot_Unmarshal_ok:
  "length (Snapshot_bytes m) < 2 ^ 63 \<Longrightarrow> snd (Snapshot_Unmarshal x (Snapshot_bytes m)) = None"
  by (simp add: Snapshot_Unmarshal_def pb_Unmarshal_def decodes_run [OF decodes_Snapshot])

interpretation snapshot: pb_codec Snapshot_Size Snapshot_bytes Snapshot_MarshalToSizedBuffer
  Snapshot_Unmarshal zeroSnapshot
  by unfold_locales (rule writes_Snapshot length_Snapshot_bytes reader_Snapshot, assumption?)+

section \<open>HardState\<close>

definition HardState_Size :: "HardState \<Rightarrow> nat" where
  "HardState_Size m = (1 + sovRaft (hsTerm m)) + (1 + sovRaft (hsVote m)) + (1 + sovRaft (hsCommit m))"

definition HardState_MarshalToSizedBuffer :: "HardState \<Rightarrow> wbuf \<Rightarrow> wbuf go" where
  "HardState_MarshalToSizedBuffer m = wrun
     [encodeVarintRaft (hsCommit m), put_byte 0x18,
      encodeVarintRaft (hsVote m), put_byte 0x10,
      encodeVarintRaft (hsTerm m), put_byte 0x8]"

definition HardState_Marshal :: "HardState \<Rightarrow> byte list go" where
  "HardState_Marshal m = pb_Marshal (HardState_Size m) (HardState_MarshalToSizedBuffer m)"

definition HardState_fields :: "int32 \<Rightarrow> HardState pb_field option" where
  "HardState_fields n =
     (if n = 1 then Some (FVarint64 (\<lambda>v m. m\<lparr>hsTerm := v\<rparr>))
      else if n = 2 then Some (FVarint64 (\<lambda>v m. m\<lparr>hsVote := v\<rparr>))
      else if n = 3 then Some (FVarint64 (\<lambda>v m. m\<lparr>hsCommit := v\<rparr>))
      else None)"

definition HardState_Unmarshal :: "HardState \<Rightarrow> byte list \<Rightarrow> HardState \<times> pb_err option" where
  "HardState_Unmarshal = pb_Unmarshal HardState_fields"

definition HardState_bytes :: "HardState \<Rightarrow> byte list" where
  "HardState_bytes m =
     (0x8 # varint (hsTerm m)) @ (0x10 # varint (hsVote m)) @ (0x18 # varint (hsCommit m))"

lemma writes_HardState: "writes (HardState_MarshalToSizedBuffer m) (HardState_bytes m)"
  unfolding HardState_MarshalToSizedBuffer_def HardState_bytes_def
  by (rule writes_eq, (rule writes_intros)+) simp

lemma length_HardState_bytes: "length (HardState_bytes m) = HardState_Size m"
  by (simp add: HardState_bytes_def HardState_Size_def length_varint)

lemma decodes_HardState:
  "decodes HardState_fields self (HardState_bytes m)
     (\<lambda>x. x\<lparr>hsTerm := hsTerm m, hsVote := hsVote m, hsCommit := hsCommit m\<rparr>)"
proof -
  have 1: "decodes HardState_fields self (0x8 # varint (hsTerm m)) (\<lambda>x. x\<lparr>hsTerm := hsTerm m\<rparr>)"
    by (rule decodes_varint64 [where n = 1]) (simp_all add: tag_ok_def HardState_fields_def)
  have 2: "decodes HardState_fields self (0x10 # varint (hsVote m)) (\<lambda>x. x\<lparr>hsVote := hsVote m\<rparr>)"
    by (rule decodes_varint64 [where n = 2]) (simp_all add: tag_ok_def HardState_fields_def)
  have 3: "decodes HardState_fields self (0x18 # varint (hsCommit m)) (\<lambda>x. x\<lparr>hsCommit := hsCommit m\<rparr>)"
    by (rule decodes_varint64 [where n = 3]) (simp_all add: tag_ok_def HardState_fields_def)
  show ?thesis
    unfolding HardState_bytes_def using decodes_append [OF 1 decodes_append [OF 2 3]] by simp
qed

interpretation hardstate: pb_codec HardState_Size HardState_bytes HardState_MarshalToSizedBuffer HardState_Unmarshal zeroHardState
proof
  fix m :: HardState
  show "writes (HardState_MarshalToSizedBuffer m) (HardState_bytes m)" by (rule writes_HardState)
  show "length (HardState_bytes m) = HardState_Size m" by (rule length_HardState_bytes)
  assume "HardState_Size m < 2 ^ 63"
  then show "HardState_Unmarshal zeroHardState (HardState_bytes m) = (m, None)"
    unfolding HardState_Unmarshal_def
    by (intro pb_Unmarshal_decodes [OF decodes_HardState])
      (simp_all add: length_HardState_bytes zeroHardState_def)
qed

section \<open>ConfChange\<close>

definition ConfChange_Size :: "ConfChange \<Rightarrow> nat" where
  "ConfChange_Size m =
     (1 + sovRaft (ccID m)) + (1 + sovRaft (scast (ccType m))) + (1 + sovRaft (ccNodeID m)) +
     (case ccContext m of None \<Rightarrow> 0 | Some b \<Rightarrow> 1 + length b + sovRaft (of_nat (length b)))"

definition ConfChange_MarshalToSizedBuffer :: "ConfChange \<Rightarrow> wbuf \<Rightarrow> wbuf go" where
  "ConfChange_MarshalToSizedBuffer m = wrun
     [put_opt (put_data 0x22) (ccContext m),
      encodeVarintRaft (ccNodeID m), put_byte 0x18,
      encodeVarintRaft (scast (ccType m)), put_byte 0x10,
      encodeVarintRaft (ccID m), put_byte 0x8]"

definition ConfChange_Marshal :: "ConfChange \<Rightarrow> byte list go" where
  "ConfChange_Marshal m = pb_Marshal (ConfChange_Size m) (ConfChange_MarshalToSizedBuffer m)"

definition ConfChange_fields :: "int32 \<Rightarrow> ConfChange pb_field option" where
  "ConfChange_fields n =
     (if n = 1 then Some (FVarint64 (\<lambda>v m. m\<lparr>ccID := v\<rparr>))
      else if n = 2 then Some (FVarint32 (\<lambda>v m. m\<lparr>ccType := v\<rparr>))
      else if n = 3 then Some (FVarint64 (\<lambda>v m. m\<lparr>ccNodeID := v\<rparr>))
      else if n = 4 then Some (FLen (\<lambda>bs m. (m\<lparr>ccContext := Some bs\<rparr>, None)))
      else None)"

definition ConfChange_Unmarshal :: "ConfChange \<Rightarrow> byte list \<Rightarrow> ConfChange \<times> pb_err option" where
  "ConfChange_Unmarshal = pb_Unmarshal ConfChange_fields"

definition ConfChange_bytes :: "ConfChange \<Rightarrow> byte list" where
  "ConfChange_bytes m =
     (0x8 # varint (ccID m)) @ (0x10 # varint (scast (ccType m))) @ (0x18 # varint (ccNodeID m)) @
     (case ccContext m of None \<Rightarrow> [] | Some b \<Rightarrow> data_bytes 0x22 b)"

lemma writes_ConfChange: "writes (ConfChange_MarshalToSizedBuffer m) (ConfChange_bytes m)"
  unfolding ConfChange_MarshalToSizedBuffer_def ConfChange_bytes_def
  by (rule writes_eq, (rule writes_intros)+) simp

lemma length_ConfChange_bytes: "length (ConfChange_bytes m) = ConfChange_Size m"
  by (simp add: ConfChange_bytes_def ConfChange_Size_def length_varint length_data_bytes
      split: option.split)

lemma decodes_ConfChange:
  "decodes ConfChange_fields self (ConfChange_bytes m)
     (\<lambda>x. (case ccContext m of None \<Rightarrow> id | Some b \<Rightarrow> (\<lambda>x. x\<lparr>ccContext := Some b\<rparr>))
       (x\<lparr>ccID := ccID m, ccType := ccType m, ccNodeID := ccNodeID m\<rparr>))"
proof -
  have 1: "decodes ConfChange_fields self (0x8 # varint (ccID m)) (\<lambda>x. x\<lparr>ccID := ccID m\<rparr>)"
    by (rule decodes_varint64 [where n = 1]) (simp_all add: tag_ok_def ConfChange_fields_def)
  have 2: "decodes ConfChange_fields self (0x10 # varint (scast (ccType m))) (\<lambda>x. x\<lparr>ccType := ccType m\<rparr>)"
    by (rule decodes_enum [where n = 2]) (simp_all add: tag_ok_def ConfChange_fields_def)
  have 3: "decodes ConfChange_fields self (0x18 # varint (ccNodeID m)) (\<lambda>x. x\<lparr>ccNodeID := ccNodeID m\<rparr>)"
    by (rule decodes_varint64 [where n = 3]) (simp_all add: tag_ok_def ConfChange_fields_def)
  have 4: "decodes ConfChange_fields self (case ccContext m of None \<Rightarrow> [] | Some b \<Rightarrow> data_bytes 0x22 b)
      (case ccContext m of None \<Rightarrow> id | Some b \<Rightarrow> (\<lambda>x. x\<lparr>ccContext := Some b\<rparr>))"
    by (rule decodes_opt, rule decodes_data [where n = 4]) (simp_all add: tag_ok_def ConfChange_fields_def)
  show ?thesis
    unfolding ConfChange_bytes_def
    using decodes_append [OF 1 decodes_append [OF 2 decodes_append [OF 3 4]]] by simp
qed

interpretation confchange: pb_codec ConfChange_Size ConfChange_bytes ConfChange_MarshalToSizedBuffer ConfChange_Unmarshal zeroConfChange
proof
  fix m :: ConfChange
  show "writes (ConfChange_MarshalToSizedBuffer m) (ConfChange_bytes m)" by (rule writes_ConfChange)
  show "length (ConfChange_bytes m) = ConfChange_Size m" by (rule length_ConfChange_bytes)
  assume "ConfChange_Size m < 2 ^ 63"
  then show "ConfChange_Unmarshal zeroConfChange (ConfChange_bytes m) = (m, None)"
    unfolding ConfChange_Unmarshal_def
    by (intro pb_Unmarshal_decodes [OF decodes_ConfChange])
      (simp_all add: length_ConfChange_bytes zeroConfChange_def split: option.split)
qed

section \<open>ConfChangeSingle\<close>

definition ConfChangeSingle_Size :: "ConfChangeSingle \<Rightarrow> nat" where
  "ConfChangeSingle_Size m = (1 + sovRaft (scast (csType m))) + (1 + sovRaft (csNodeID m))"

definition ConfChangeSingle_MarshalToSizedBuffer :: "ConfChangeSingle \<Rightarrow> wbuf \<Rightarrow> wbuf go" where
  "ConfChangeSingle_MarshalToSizedBuffer m = wrun
     [encodeVarintRaft (csNodeID m), put_byte 0x10,
      encodeVarintRaft (scast (csType m)), put_byte 0x8]"

definition ConfChangeSingle_Marshal :: "ConfChangeSingle \<Rightarrow> byte list go" where
  "ConfChangeSingle_Marshal m = pb_Marshal (ConfChangeSingle_Size m) (ConfChangeSingle_MarshalToSizedBuffer m)"

definition ConfChangeSingle_fields :: "int32 \<Rightarrow> ConfChangeSingle pb_field option" where
  "ConfChangeSingle_fields n =
     (if n = 1 then Some (FVarint32 (\<lambda>v m. m\<lparr>csType := v\<rparr>))
      else if n = 2 then Some (FVarint64 (\<lambda>v m. m\<lparr>csNodeID := v\<rparr>))
      else None)"

definition ConfChangeSingle_Unmarshal :: "ConfChangeSingle \<Rightarrow> byte list \<Rightarrow> ConfChangeSingle \<times> pb_err option" where
  "ConfChangeSingle_Unmarshal = pb_Unmarshal ConfChangeSingle_fields"

definition ConfChangeSingle_bytes :: "ConfChangeSingle \<Rightarrow> byte list" where
  "ConfChangeSingle_bytes m = (0x8 # varint (scast (csType m))) @ (0x10 # varint (csNodeID m))"

lemma writes_ConfChangeSingle:
  "writes (ConfChangeSingle_MarshalToSizedBuffer m) (ConfChangeSingle_bytes m)"
  unfolding ConfChangeSingle_MarshalToSizedBuffer_def ConfChangeSingle_bytes_def
  by (rule writes_eq, (rule writes_intros)+) simp

lemma length_ConfChangeSingle_bytes: "length (ConfChangeSingle_bytes m) = ConfChangeSingle_Size m"
  by (simp add: ConfChangeSingle_bytes_def ConfChangeSingle_Size_def length_varint)

lemma decodes_ConfChangeSingle:
  "decodes ConfChangeSingle_fields self (ConfChangeSingle_bytes m)
     (\<lambda>x. x\<lparr>csType := csType m, csNodeID := csNodeID m\<rparr>)"
proof -
  have 1: "decodes ConfChangeSingle_fields self (0x8 # varint (scast (csType m)))
      (\<lambda>x. x\<lparr>csType := csType m\<rparr>)"
    by (rule decodes_enum [where n = 1]) (simp_all add: tag_ok_def ConfChangeSingle_fields_def)
  have 2: "decodes ConfChangeSingle_fields self (0x10 # varint (csNodeID m)) (\<lambda>x. x\<lparr>csNodeID := csNodeID m\<rparr>)"
    by (rule decodes_varint64 [where n = 2]) (simp_all add: tag_ok_def ConfChangeSingle_fields_def)
  show ?thesis
    unfolding ConfChangeSingle_bytes_def using decodes_append [OF 1 2] by simp
qed

interpretation ccsingle: pb_codec ConfChangeSingle_Size ConfChangeSingle_bytes ConfChangeSingle_MarshalToSizedBuffer ConfChangeSingle_Unmarshal zeroConfChangeSingle
proof
  fix m :: ConfChangeSingle
  show "writes (ConfChangeSingle_MarshalToSizedBuffer m) (ConfChangeSingle_bytes m)" by (rule writes_ConfChangeSingle)
  show "length (ConfChangeSingle_bytes m) = ConfChangeSingle_Size m" by (rule length_ConfChangeSingle_bytes)
  assume "ConfChangeSingle_Size m < 2 ^ 63"
  then show "ConfChangeSingle_Unmarshal zeroConfChangeSingle (ConfChangeSingle_bytes m) = (m, None)"
    unfolding ConfChangeSingle_Unmarshal_def
    by (intro pb_Unmarshal_decodes [OF decodes_ConfChangeSingle])
      (simp_all add: length_ConfChangeSingle_bytes zeroConfChangeSingle_def)
qed

section \<open>ConfChangeV2\<close>

definition ConfChangeV2_Size :: "ConfChangeV2 \<Rightarrow> nat" where
  "ConfChangeV2_Size m =
     (1 + sovRaft (scast (cc2Transition m))) +
     sum_list (map (\<lambda>e. let l = ConfChangeSingle_Size e in 1 + l + sovRaft (of_nat l)) (cc2Changes m)) +
     (case cc2Context m of None \<Rightarrow> 0 | Some b \<Rightarrow> 1 + length b + sovRaft (of_nat (length b)))"

definition ConfChangeV2_MarshalToSizedBuffer :: "ConfChangeV2 \<Rightarrow> wbuf \<Rightarrow> wbuf go" where
  "ConfChangeV2_MarshalToSizedBuffer m = wrun
     [put_opt (put_data 0x1a) (cc2Context m),
      put_each (\<lambda>c. put_msg 0x12 (ConfChangeSingle_MarshalToSizedBuffer c)) (cc2Changes m),
      encodeVarintRaft (scast (cc2Transition m)), put_byte 0x8]"

definition ConfChangeV2_Marshal :: "ConfChangeV2 \<Rightarrow> byte list go" where
  "ConfChangeV2_Marshal m = pb_Marshal (ConfChangeV2_Size m) (ConfChangeV2_MarshalToSizedBuffer m)"

definition ConfChangeV2_fields :: "int32 \<Rightarrow> ConfChangeV2 pb_field option" where
  "ConfChangeV2_fields n =
     (if n = 1 then Some (FVarint32 (\<lambda>v m. m\<lparr>cc2Transition := v\<rparr>))
      else if n = 2 then Some (FLen (\<lambda>bs m.
        case ConfChangeSingle_Unmarshal zeroConfChangeSingle bs of
          (c, e) \<Rightarrow> (m\<lparr>cc2Changes := cc2Changes m @ [c]\<rparr>, e)))
      else if n = 3 then Some (FLen (\<lambda>bs m. (m\<lparr>cc2Context := Some bs\<rparr>, None)))
      else None)"

definition ConfChangeV2_Unmarshal :: "ConfChangeV2 \<Rightarrow> byte list \<Rightarrow> ConfChangeV2 \<times> pb_err option" where
  "ConfChangeV2_Unmarshal = pb_Unmarshal ConfChangeV2_fields"

definition ConfChangeV2_bytes :: "ConfChangeV2 \<Rightarrow> byte list" where
  "ConfChangeV2_bytes m =
     (0x8 # varint (scast (cc2Transition m))) @
     concat (map (\<lambda>c. data_bytes 0x12 (ConfChangeSingle_bytes c)) (cc2Changes m)) @
     (case cc2Context m of None \<Rightarrow> [] | Some b \<Rightarrow> data_bytes 0x1a b)"

lemma writes_ConfChangeV2: "writes (ConfChangeV2_MarshalToSizedBuffer m) (ConfChangeV2_bytes m)"
  unfolding ConfChangeV2_MarshalToSizedBuffer_def ConfChangeV2_bytes_def
  by (rule writes_eq, (rule writes_intros ccsingle.writes_sub)+) simp

lemma length_ConfChangeV2_bytes: "length (ConfChangeV2_bytes m) = ConfChangeV2_Size m"
proof -
  have "length (concat (map (\<lambda>c. data_bytes 0x12 (ConfChangeSingle_bytes c)) cs)) =
      sum_list (map (\<lambda>e. let l = ConfChangeSingle_Size e in 1 + l + sovRaft (of_nat l)) cs)" for cs
    by (induction cs) (simp_all add: ccsingle.length_sub Let_def)
  then show ?thesis
    by (simp add: ConfChangeV2_bytes_def ConfChangeV2_Size_def length_varint length_data_bytes
        split: option.split)
qed

lemma fold_ConfChangeV2:
  "fold (\<lambda>c m. m\<lparr>cc2Changes := cc2Changes m @ [c]\<rparr>) cs m = m\<lparr>cc2Changes := cc2Changes m @ cs\<rparr>"
  by (induction cs arbitrary: m) simp_all

lemma decodes_ConfChangeV2:
  "decodes ConfChangeV2_fields self (ConfChangeV2_bytes m)
     (\<lambda>x. (case cc2Context m of None \<Rightarrow> id | Some b \<Rightarrow> (\<lambda>x. x\<lparr>cc2Context := Some b\<rparr>))
       (x\<lparr>cc2Transition := cc2Transition m, cc2Changes := cc2Changes x @ cc2Changes m\<rparr>))"
proof -
  have 1: "decodes ConfChangeV2_fields self (0x8 # varint (scast (cc2Transition m)))
      (\<lambda>x. x\<lparr>cc2Transition := cc2Transition m\<rparr>)"
    by (rule decodes_enum [where n = 1]) (simp_all add: tag_ok_def ConfChangeV2_fields_def)
  have "decodes ConfChangeV2_fields self (data_bytes 0x12 (ConfChangeSingle_bytes c))
      (\<lambda>x. x\<lparr>cc2Changes := cc2Changes x @ [c]\<rparr>)" for c
    by (rule decodes_data [where n = 2], simp add: tag_ok_def, simp add: ConfChangeV2_fields_def)
      (simp add: ccsingle.reader_bytes')
  then have "decodes ConfChangeV2_fields self
      (concat (map (\<lambda>c. data_bytes 0x12 (ConfChangeSingle_bytes c)) (cc2Changes m)))
      (\<lambda>x. fold (\<lambda>c m. m\<lparr>cc2Changes := cc2Changes m @ [c]\<rparr>) (cc2Changes m) x)"
    by (rule decodes_concat)
  then have 2: "decodes ConfChangeV2_fields self
      (concat (map (\<lambda>c. data_bytes 0x12 (ConfChangeSingle_bytes c)) (cc2Changes m)))
      (\<lambda>x. x\<lparr>cc2Changes := cc2Changes x @ cc2Changes m\<rparr>)"
    unfolding fold_ConfChangeV2 .
  have 3: "decodes ConfChangeV2_fields self (case cc2Context m of None \<Rightarrow> [] | Some b \<Rightarrow> data_bytes 0x1a b)
      (case cc2Context m of None \<Rightarrow> id | Some b \<Rightarrow> (\<lambda>x. x\<lparr>cc2Context := Some b\<rparr>))"
    by (rule decodes_opt, rule decodes_data [where n = 3]) (simp_all add: tag_ok_def ConfChangeV2_fields_def)
  show ?thesis
    unfolding ConfChangeV2_bytes_def using decodes_append [OF 1 decodes_append [OF 2 3]] by simp
qed

interpretation ccv2: pb_codec ConfChangeV2_Size ConfChangeV2_bytes ConfChangeV2_MarshalToSizedBuffer ConfChangeV2_Unmarshal zeroConfChangeV2
proof
  fix m :: ConfChangeV2
  show "writes (ConfChangeV2_MarshalToSizedBuffer m) (ConfChangeV2_bytes m)" by (rule writes_ConfChangeV2)
  show "length (ConfChangeV2_bytes m) = ConfChangeV2_Size m" by (rule length_ConfChangeV2_bytes)
  assume "ConfChangeV2_Size m < 2 ^ 63"
  then show "ConfChangeV2_Unmarshal zeroConfChangeV2 (ConfChangeV2_bytes m) = (m, None)"
    unfolding ConfChangeV2_Unmarshal_def
    by (intro pb_Unmarshal_decodes [OF decodes_ConfChangeV2])
      (simp_all add: length_ConfChangeV2_bytes zeroConfChangeV2_def split: option.split)
qed

section \<open>Message\<close>

text \<open>The one message with a field of its own type: the responses a storage message carries.\<close>

lemma size_mResponses [termination_simp]: "x \<in> set (mResponses m) \<Longrightarrow> size x < size m"
  by (cases m) (auto dest: size_list_estimation' [where f = size] simp: less_Suc_eq_le)

function Message_Size :: "Message \<Rightarrow> nat" where
  "Message_Size m =
     (1 + sovRaft (scast (mType m))) + (1 + sovRaft (mTo m)) + (1 + sovRaft (mFrom m)) +
     (1 + sovRaft (mTerm m)) + (1 + sovRaft (mLogTerm m)) + (1 + sovRaft (mIndex m)) +
     sum_list (map (\<lambda>e. let l = Entry_Size e in 1 + l + sovRaft (of_nat l)) (mEntries m)) +
     (1 + sovRaft (mCommit m)) +
     (case mSnapshot m of None \<Rightarrow> 0
        | Some s \<Rightarrow> (let l = Snapshot_Size s in 1 + l + sovRaft (of_nat l))) +
     2 + (1 + sovRaft (mRejectHint m)) +
     (case mContext m of None \<Rightarrow> 0 | Some b \<Rightarrow> 1 + length b + sovRaft (of_nat (length b))) +
     (1 + sovRaft (mVote m)) +
     sum_list (map (\<lambda>e. let l = Message_Size e in 1 + l + sovRaft (of_nat l)) (mResponses m))"
  by pat_completeness auto
termination by (relation "measure size") (auto simp: size_mResponses)

function Message_MarshalToSizedBuffer :: "Message \<Rightarrow> wbuf \<Rightarrow> wbuf go" where
  "Message_MarshalToSizedBuffer m = wrun
     [put_each (\<lambda>x. put_msg 0x72 (Message_MarshalToSizedBuffer x)) (mResponses m),
      encodeVarintRaft (mVote m), put_byte 0x68,
      put_opt (put_data 0x62) (mContext m),
      encodeVarintRaft (mRejectHint m), put_byte 0x58,
      put_byte (if mReject m then 1 else 0), put_byte 0x50,
      put_opt (\<lambda>s. put_msg 0x4a (Snapshot_MarshalToSizedBuffer s)) (mSnapshot m),
      encodeVarintRaft (mCommit m), put_byte 0x40,
      put_each (\<lambda>e. put_msg 0x3a (Entry_MarshalToSizedBuffer e)) (mEntries m),
      encodeVarintRaft (mIndex m), put_byte 0x30,
      encodeVarintRaft (mLogTerm m), put_byte 0x28,
      encodeVarintRaft (mTerm m), put_byte 0x20,
      encodeVarintRaft (mFrom m), put_byte 0x18,
      encodeVarintRaft (mTo m), put_byte 0x10,
      encodeVarintRaft (scast (mType m)), put_byte 0x8]"
  by pat_completeness auto
termination by (relation "measure size") (auto simp: size_mResponses)

declare Message_Size.simps [simp del] Message_MarshalToSizedBuffer.simps [simp del]

definition Message_Marshal :: "Message \<Rightarrow> byte list go" where
  "Message_Marshal m = pb_Marshal (Message_Size m) (Message_MarshalToSizedBuffer m)"

text \<open>The cases of the switch in three parts.\<close>

definition Message_fields_12 :: "int32 \<Rightarrow> Message pb_field option" where
  [simp]: "Message_fields_12 n =
     (if n = 12 then Some (FLen (\<lambda>bs m. (set_mContext (Some bs) m, None)))
      else if n = 13 then Some (FVarint64 set_mVote)
      else if n = 14 then Some (FSelf (\<lambda>r m. set_mResponses (mResponses m @ [r]) m))
      else None)"

definition Message_fields_7 :: "int32 \<Rightarrow> Message pb_field option" where
  [simp]: "Message_fields_7 n =
     (if n = 7 then Some (FLen (\<lambda>bs m.
        case Entry_Unmarshal zeroEntry bs of (x, e) \<Rightarrow> (set_mEntries (mEntries m @ [x]) m, e)))
      else if n = 8 then Some (FVarint64 set_mCommit)
      else if n = 9 then Some (FLen (\<lambda>bs m.
        case Snapshot_Unmarshal (case mSnapshot m of None \<Rightarrow> zeroSnapshot | Some s \<Rightarrow> s) bs of
          (x, e) \<Rightarrow> (set_mSnapshot (Some x) m, e)))
      else if n = 10 then Some (FBool set_mReject)
      else if n = 11 then Some (FVarint64 set_mRejectHint)
      else Message_fields_12 n)"

definition Message_fields :: "int32 \<Rightarrow> Message pb_field option" where
  "Message_fields n =
     (if n = 1 then Some (FVarint32 set_mType)
      else if n = 2 then Some (FVarint64 set_mTo)
      else if n = 3 then Some (FVarint64 set_mFrom)
      else if n = 4 then Some (FVarint64 set_mTerm)
      else if n = 5 then Some (FVarint64 set_mLogTerm)
      else if n = 6 then Some (FVarint64 set_mIndex)
      else Message_fields_7 n)"

function Message_Unmarshal :: "Message \<Rightarrow> byte list \<Rightarrow> Message \<times> pb_err option" where
  "Message_Unmarshal m dAtA = pb_loop Message_fields (\<lambda>bs. Message_Unmarshal zeroMessage bs) dAtA m 0"
  by pat_completeness auto
termination by (relation "measure (length \<circ> snd)") auto

declare Message_Unmarshal.simps [simp del]

function Message_bytes :: "Message \<Rightarrow> byte list" where
  "Message_bytes m =
     (0x8 # varint (scast (mType m))) @ (0x10 # varint (mTo m)) @ (0x18 # varint (mFrom m)) @
     (0x20 # varint (mTerm m)) @ (0x28 # varint (mLogTerm m)) @ (0x30 # varint (mIndex m)) @
     concat (map (\<lambda>e. data_bytes 0x3a (Entry_bytes e)) (mEntries m)) @
     (0x40 # varint (mCommit m)) @
     (case mSnapshot m of None \<Rightarrow> [] | Some s \<Rightarrow> data_bytes 0x4a (Snapshot_bytes s)) @
     [0x50, if mReject m then 1 else 0] @ (0x58 # varint (mRejectHint m)) @
     (case mContext m of None \<Rightarrow> [] | Some b \<Rightarrow> data_bytes 0x62 b) @
     (0x68 # varint (mVote m)) @
     concat (map (\<lambda>x. data_bytes 0x72 (Message_bytes x)) (mResponses m))"
  by pat_completeness auto
termination by (relation "measure size") (auto simp: size_mResponses)

declare Message_bytes.simps [simp del]

lemma writes_Message: "writes (Message_MarshalToSizedBuffer m) (Message_bytes m)"
proof (induction m rule: Message_MarshalToSizedBuffer.induct)
  case (1 m)
  have r: "writes (put_each (\<lambda>x. put_msg 0x72 (Message_MarshalToSizedBuffer x)) (mResponses m))
      (concat (map (\<lambda>x. data_bytes 0x72 (Message_bytes x)) (mResponses m)))"
    by (intro writes_put_each writes_put_msg "1.IH")
  have e: "writes (put_each (\<lambda>e. put_msg 0x3a (Entry_MarshalToSizedBuffer e)) (mEntries m))
      (concat (map (\<lambda>e. data_bytes 0x3a (Entry_bytes e)) (mEntries m)))"
    by (intro writes_put_each entry.writes_sub)
  show ?case
    unfolding Message_MarshalToSizedBuffer.simps [of m] Message_bytes.simps [of m]
    by (rule writes_eq, (rule r e writes_intros snapshot.writes_sub)+) simp
qed

lemma length_concat_map: "length (concat (map f xs)) = sum_list (map (\<lambda>x. length (f x)) xs)"
  by (simp add: length_concat comp_def)

lemma length_Message_bytes: "length (Message_bytes m) = Message_Size m"
proof (induction m rule: Message_Size.induct)
  case (1 m)
  have r: "map (\<lambda>x. length (data_bytes 0x72 (Message_bytes x))) (mResponses m) =
      map (\<lambda>e. let l = Message_Size e in 1 + l + sovRaft (of_nat l)) (mResponses m)"
    using "1.IH" by (auto simp: length_data_bytes Let_def)
  show ?case
    unfolding Message_Size.simps [of m] Message_bytes.simps [of m]
    unfolding length_append length_concat_map r
    by (simp add: length_varint length_data_bytes entry.length_bytes snapshot.length_bytes Let_def
        split: option.split)
qed

lemma set_mEntries_twice [simp]: "set_mEntries x (set_mEntries y m) = set_mEntries x m"
  by (cases m) simp

lemma set_mResponses_twice [simp]: "set_mResponses x (set_mResponses y m) = set_mResponses x m"
  by (cases m) simp

lemma set_mEntries_same [simp]: "set_mEntries (mEntries m) m = m"
  by (cases m) simp

lemma set_mResponses_same [simp]: "set_mResponses (mResponses m) m = m"
  by (cases m) simp

lemma fold_mEntries:
  "fold (\<lambda>e m. set_mEntries (mEntries m @ [e]) m) es m = set_mEntries (mEntries m @ es) m"
  by (induction es arbitrary: m) simp_all

lemma fold_mResponses:
  "fold (\<lambda>r m. set_mResponses (mResponses m @ [r]) m) rs m = set_mResponses (mResponses m @ rs) m"
  by (induction rs arbitrary: m) simp_all

lemma decodes_mType:
  "decodes Message_fields self (0x8 # varint (scast (mType m))) (set_mType (mType m))"
  by (rule decodes_enum [where n = 1]) (simp_all add: tag_ok_def Message_fields_def)

lemma decodes_mReject: "decodes Message_fields self [0x50, if b then 1 else 0] (set_mReject b)"
  by (rule decodes_bool [where n = 10]) (simp_all add: tag_ok_def Message_fields_def)

lemma decodes_mTo: "decodes Message_fields self (0x10 # varint v) (set_mTo v)"
  by (rule decodes_varint64 [where n = 2]) (simp_all add: tag_ok_def Message_fields_def)

lemma decodes_mFrom: "decodes Message_fields self (0x18 # varint v) (set_mFrom v)"
  by (rule decodes_varint64 [where n = 3]) (simp_all add: tag_ok_def Message_fields_def)

lemma decodes_mTerm: "decodes Message_fields self (0x20 # varint v) (set_mTerm v)"
  by (rule decodes_varint64 [where n = 4]) (simp_all add: tag_ok_def Message_fields_def)

lemma decodes_mLogTerm: "decodes Message_fields self (0x28 # varint v) (set_mLogTerm v)"
  by (rule decodes_varint64 [where n = 5]) (simp_all add: tag_ok_def Message_fields_def)

lemma decodes_mIndex: "decodes Message_fields self (0x30 # varint v) (set_mIndex v)"
  by (rule decodes_varint64 [where n = 6]) (simp_all add: tag_ok_def Message_fields_def)

lemma decodes_mCommit: "decodes Message_fields self (0x40 # varint v) (set_mCommit v)"
  by (rule decodes_varint64 [where n = 8]) (simp_all add: tag_ok_def Message_fields_def)

lemma decodes_mRejectHint: "decodes Message_fields self (0x58 # varint v) (set_mRejectHint v)"
  by (rule decodes_varint64 [where n = 11]) (simp_all add: tag_ok_def Message_fields_def)

lemma decodes_mVote: "decodes Message_fields self (0x68 # varint v) (set_mVote v)"
  by (rule decodes_varint64 [where n = 13]) (simp_all add: tag_ok_def Message_fields_def)

lemma decodes_Message_entries:
  "decodes Message_fields self (concat (map (\<lambda>e. data_bytes 0x3a (Entry_bytes e)) es))
     (\<lambda>m. set_mEntries (mEntries m @ es) m)"
proof -
  have "decodes Message_fields self (data_bytes 0x3a (Entry_bytes e))
      (\<lambda>m. set_mEntries (mEntries m @ [e]) m)" for e
    by (rule decodes_data [where n = 7], simp add: tag_ok_def, simp add: Message_fields_def)
      (simp add: entry.reader_bytes')
  then have "decodes Message_fields self (concat (map (\<lambda>e. data_bytes 0x3a (Entry_bytes e)) es))
      (\<lambda>m. fold (\<lambda>e m. set_mEntries (mEntries m @ [e]) m) es m)"
    by (intro decodes_concat)
  then show ?thesis by (simp add: fold_mEntries)
qed

lemma decodes_Message_snapshot:
  "decodes Message_fields self (data_bytes 0x4a (Snapshot_bytes s))
     (\<lambda>m. set_mSnapshot (Some (fst (Snapshot_Unmarshal
        (case mSnapshot m of None \<Rightarrow> zeroSnapshot | Some s \<Rightarrow> s) (Snapshot_bytes s)))) m)"
  by (rule decodes_data [where n = 9], simp add: tag_ok_def, simp add: Message_fields_def)
    (simp add: split_def Snapshot_Unmarshal_ok)

lemma decodes_Message_context:
  "decodes Message_fields self (data_bytes 0x62 b) (set_mContext (Some b))"
  by (rule decodes_data [where n = 12]) (simp_all add: tag_ok_def Message_fields_def)

lemma decodes_Message_responses:
  assumes "\<And>r. r \<in> set rs \<Longrightarrow> length (Message_bytes r) < 2 ^ 63 \<Longrightarrow> self (Message_bytes r) = (r, None)"
  shows "decodes Message_fields self (concat (map (\<lambda>x. data_bytes 0x72 (Message_bytes x)) rs))
     (\<lambda>m. set_mResponses (mResponses m @ rs) m)"
proof -
  have "decodes Message_fields self (data_bytes 0x72 (Message_bytes r))
      (\<lambda>m. set_mResponses (mResponses m @ [r]) m)" if "r \<in> set rs" for r
    by (rule decodes_subself [where n = 14], simp add: tag_ok_def, simp add: Message_fields_def)
      (rule assms [OF that])
  then have "decodes Message_fields self (concat (map (\<lambda>x. data_bytes 0x72 (Message_bytes x)) rs))
      (\<lambda>m. fold (\<lambda>r m. set_mResponses (mResponses m @ [r]) m) rs m)"
    by (intro decodes_concat)
  then show ?thesis by (simp add: fold_mResponses)
qed

lemma in_concat_length: "x \<in> set xs \<Longrightarrow> length (f x) \<le> length (concat (map f xs))"
  by (induction xs) auto

lemma reader_Message:
  "Message_Size m < 2 ^ 63 \<Longrightarrow> Message_Unmarshal zeroMessage (Message_bytes m) = (m, None)"
proof (induction m rule: Message_Size.induct)
  case (1 m)
  have len: "length (Message_bytes m) < 2 ^ 63" using "1.prems" by (simp add: length_Message_bytes)
  let ?self = "\<lambda>bs. Message_Unmarshal zeroMessage bs"
  have r: "?self (Message_bytes r) = (r, None)" if "r \<in> set (mResponses m)"
      "length (Message_bytes r) < 2 ^ 63" for r
    using "1.IH" that by (simp add: length_Message_bytes)
  have snap: "fst (Snapshot_Unmarshal zeroSnapshot (Snapshot_bytes s)) = s" if "mSnapshot m = Some s" for s
  proof -
    have "length (Snapshot_bytes s) < 2 ^ 63"
      using len that by (simp add: Message_bytes.simps [of m] data_bytes_def)
    then show ?thesis by (simp add: snapshot.reader_bytes')
  qed
  note d = decodes_append [OF decodes_mType [of ?self m]
    decodes_append [OF decodes_mTo decodes_append [OF decodes_mFrom
    decodes_append [OF decodes_mTerm decodes_append [OF decodes_mLogTerm
    decodes_append [OF decodes_mIndex decodes_append [OF decodes_Message_entries
    decodes_append [OF decodes_mCommit
    decodes_append [OF decodes_opt [OF decodes_Message_snapshot]
    decodes_append [OF decodes_mReject decodes_append [OF decodes_mRejectHint
    decodes_append [OF decodes_opt [OF decodes_Message_context]
    decodes_append [OF decodes_mVote decodes_Message_responses]]]]]]]]]]]]]
  have "pb_loop Message_fields ?self (Message_bytes m) zeroMessage 0 = (m, None)"
    unfolding Message_bytes.simps [of m]
    using decodes_run [OF d [OF r] len [unfolded Message_bytes.simps [of m]], of zeroMessage]
    by (cases m) (simp add: snap zeroMessage_def split: option.splits)
  then show ?case by (subst Message_Unmarshal.simps)
qed

interpretation message: pb_codec Message_Size Message_bytes Message_MarshalToSizedBuffer
  Message_Unmarshal zeroMessage
  by unfold_locales (rule writes_Message length_Message_bytes reader_Message, assumption?)+

section \<open>Properties\<close>

text \<open>C8: every raft message, with its entries, snapshot, context and nested responses, is marshalled
  without a panic into exactly \<open>Size()\<close> bytes, and unmarshalling those bytes into a zero message
  gives the message back without an error.\<close>

theorem message_roundtrip:
  assumes "Message_Size m < 2 ^ 63"
  shows "\<exists>bs. Message_Marshal m = Inr bs \<and> length bs = Message_Size m \<and>
    Message_Unmarshal zeroMessage bs = (m, None)"
  unfolding Message_Marshal_def by (rule message.roundtrip [OF assms])

definition sample_message :: Message where
  "sample_message =
     set_mType MsgApp (set_mTo 2 (set_mFrom 1 (set_mTerm 3 (set_mIndex 200 (set_mReject True
       (set_mEntries [\<lparr>eTerm = 3, eIndex = 201, eType = EntryNormal, eData = Some [0xff, 7]\<rparr>]
       (set_mContext (Some []) (set_mSnapshot (Some zeroSnapshot)
       (set_mResponses [zeroMessage] zeroMessage)))))))))"

theorem message_roundtrip_witness:
  "Message_Size sample_message < 2 ^ 63 \<and>
   (\<exists>bs. Message_Marshal sample_message = Inr bs \<and> length bs = Message_Size sample_message \<and>
      Message_Unmarshal zeroMessage bs = (sample_message, None))"
proof -
  have v: "sovRaft 0 = 1" "sovRaft 1 = 1" "sovRaft 2 = 1" "sovRaft 3 = 1" "sovRaft 200 = 2"
      "sovRaft 10 = 1" "sovRaft 11 = 1" "sovRaft 20 = 1"
    by code_simp+
  have e: "Entry_Size \<lparr>eTerm = 3, eIndex = 201, eType = EntryNormal, eData = Some [0xff, 7]\<rparr> = 11"
    and s: "Snapshot_Size zeroSnapshot = 10"
    by code_simp+
  have z: "Message_Size zeroMessage = 20"
    by (subst Message_Size.simps) (simp add: v)
  have "Message_Size sample_message = 70"
    unfolding sample_message_def
    by (subst Message_Size.simps) (simp add: v e s z Let_def del: EntryNormal_def)
  then have "Message_Size sample_message < 2 ^ 63" by simp
  then show ?thesis using message_roundtrip by blast
qed

text \<open>C9: the persistent state and the configuration changes of a node survive encoding: hard states,
  snapshots, log entries and both generations of configuration changes are read back as written, by
  \<open>Marshal\<close> and \<open>Unmarshal\<close> alike for every one of these types.\<close>

theorem persistent_roundtrip:
  assumes "HardState_Size h < 2 ^ 63" and "Snapshot_Size s < 2 ^ 63" and "Entry_Size e < 2 ^ 63"
    and "ConfChange_Size c < 2 ^ 63" and "ConfChangeV2_Size c2 < 2 ^ 63"
  shows "(\<exists>bs. HardState_Marshal h = Inr bs \<and> HardState_Unmarshal zeroHardState bs = (h, None)) \<and>
    (\<exists>bs. Snapshot_Marshal s = Inr bs \<and> Snapshot_Unmarshal zeroSnapshot bs = (s, None)) \<and>
    (\<exists>bs. Entry_Marshal e = Inr bs \<and> Entry_Unmarshal zeroEntry bs = (e, None)) \<and>
    (\<exists>bs. ConfChange_Marshal c = Inr bs \<and> ConfChange_Unmarshal zeroConfChange bs = (c, None)) \<and>
    (\<exists>bs. ConfChangeV2_Marshal c2 = Inr bs \<and> ConfChangeV2_Unmarshal zeroConfChangeV2 bs = (c2, None))"
  unfolding HardState_Marshal_def Snapshot_Marshal_def Entry_Marshal_def ConfChange_Marshal_def
    ConfChangeV2_Marshal_def
  using hardstate.roundtrip [OF assms(1)] snapshot.roundtrip [OF assms(2)] entry.roundtrip [OF assms(3)]
    confchange.roundtrip [OF assms(4)] ccv2.roundtrip [OF assms(5)] by blast

theorem persistent_roundtrip_witness:
  "\<exists>bs. HardState_Marshal \<lparr>hsTerm = 300, hsVote = 2, hsCommit = 7\<rparr> = Inr bs \<and>
     HardState_Unmarshal zeroHardState bs = (\<lparr>hsTerm = 300, hsVote = 2, hsCommit = 7\<rparr>, None)"
proof -
  let ?h = "\<lparr>hsTerm = 300, hsVote = 2, hsCommit = 7\<rparr>"
  have "HardState_Size ?h = 7" "Snapshot_Size zeroSnapshot = 10" "Entry_Size zeroEntry = 6"
    "ConfChange_Size zeroConfChange = 6" "ConfChangeV2_Size zeroConfChangeV2 = 2"
    by code_simp+
  then have "HardState_Size ?h < 2 ^ 63" "Snapshot_Size zeroSnapshot < 2 ^ 63" "Entry_Size zeroEntry < 2 ^ 63"
    "ConfChange_Size zeroConfChange < 2 ^ 63" "ConfChangeV2_Size zeroConfChangeV2 < 2 ^ 63" by simp_all
  then show ?thesis using persistent_roundtrip by blast
qed

end
