(* ===== verification/Raftpb_ConfChange.thy ===== *)
theory Raftpb_ConfChange
  imports Raftpb_Codec
begin

text \<open>
  \<open>src/raft/raftpb/confchange.go\<close> and \<open>src/raft/raftpb/pbutils.go\<close>: the two generations of
  configuration changes, their encoding as log entries, and the textual notation of lists of
  single changes.  The standard library's \<open>strings.TrimSpace\<close>, \<open>strings.Split\<close>,
  \<open>strconv.ParseUint\<close> and the \<open>%d\<close> verb are modelled as the code uses them; a Go string is
  the list of its bytes.  \<open>proto.Equal\<close> of gogo/protobuf is a parameter of \<open>LeaveJoint\<close>.
\<close>

section \<open>The two generations of configuration changes\<close>

text \<open>A value of the interface \<open>ConfChangeI\<close> that is not nil.\<close>

datatype ConfChangeI = CCV1 ConfChange | CCV2 ConfChangeV2

definition ConfChange_AsV2 :: "ConfChange \<Rightarrow> ConfChangeV2" where
  "ConfChange_AsV2 c = zeroConfChangeV2
     \<lparr>cc2Changes := [\<lparr>csType = ccType c, csNodeID = ccNodeID c\<rparr>], cc2Context := ccContext c\<rparr>"

fun AsV2 :: "ConfChangeI \<Rightarrow> ConfChangeV2" where
  "AsV2 (CCV1 c) = ConfChange_AsV2 c"
| "AsV2 (CCV2 c) = c"

fun AsV1 :: "ConfChangeI \<Rightarrow> ConfChange \<times> bool" where
  "AsV1 (CCV1 c) = (c, True)"
| "AsV1 (CCV2 c) = (zeroConfChange, False)"

definition MarshalConfChange :: "ConfChangeI option \<Rightarrow> (int32 \<times> bytes) go" where
  "MarshalConfChange c =
     (case c of
        None \<Rightarrow> Inr (EntryConfChangeV2, None)
      | Some c' \<Rightarrow>
          (case AsV1 c' of
             (ccv1, True) \<Rightarrow> go_bind (ConfChange_Marshal ccv1) (\<lambda>d. Inr (EntryConfChange, Some d))
           | (_, False) \<Rightarrow>
               go_bind (ConfChangeV2_Marshal (AsV2 c')) (\<lambda>d. Inr (EntryConfChangeV2, Some d))))"

definition EnterJoint :: "ConfChangeV2 \<Rightarrow> (bool \<times> bool) go" where
  "EnterJoint c =
     (if cc2Transition c \<noteq> ConfChangeTransitionAuto \<or> length (cc2Changes c) > 1 then
        (if cc2Transition c = ConfChangeTransitionAuto then Inr (True, True)
         else if cc2Transition c = ConfChangeTransitionJointImplicit then Inr (True, True)
         else if cc2Transition c = ConfChangeTransitionJointExplicit then Inr (False, True)
         else Inl (ExplicitPanic ''unknown transition''))
      else Inr (False, False))"

definition LeaveJoint :: "(ConfChangeV2 \<Rightarrow> ConfChangeV2 \<Rightarrow> bool) \<Rightarrow> ConfChangeV2 \<Rightarrow> bool" where
  "LeaveJoint proto_Equal c = proto_Equal (c\<lparr>cc2Context := None\<rparr>) zeroConfChangeV2"

section \<open>pbutils.go\<close>

definition MustMarshal :: "'a go \<Rightarrow> 'a go" where
  "MustMarshal d = d"

definition MustUnmarshal :: "'m \<times> pb_err option \<Rightarrow> 'm go" where
  "MustUnmarshal r =
     (case r of (m, None) \<Rightarrow> Inr m | (_, Some e) \<Rightarrow> Inl (ExplicitPanic ''unmarshal should never fail''))"

definition MaybeUnmarshal :: "'m \<times> pb_err option \<Rightarrow> 'm \<times> bool" where
  "MaybeUnmarshal r = (case r of (m, None) \<Rightarrow> (m, True) | (m, Some _) \<Rightarrow> (m, False))"

definition GetBool :: "bool option \<Rightarrow> bool \<times> bool" where
  "GetBool v = (case v of None \<Rightarrow> (False, False) | Some b \<Rightarrow> (b, True))"

definition Boolp :: "bool \<Rightarrow> bool option" where
  "Boolp b = Some b"

section \<open>The standard library's string functions\<close>

text \<open>The white space of \<open>unicode.IsSpace\<close>, in UTF-8.\<close>

definition unicode_spaces :: "string list" where
  "unicode_spaces =
     [[CHR 0x09], [CHR 0x0A], [CHR 0x0B], [CHR 0x0C], [CHR 0x0D], [CHR 0x20],
      [CHR 0xC2, CHR 0x85], [CHR 0xC2, CHR 0xA0], [CHR 0xE1, CHR 0x9A, CHR 0x80],
      [CHR 0xE2, CHR 0x80, CHR 0x80], [CHR 0xE2, CHR 0x80, CHR 0x81], [CHR 0xE2, CHR 0x80, CHR 0x82],
      [CHR 0xE2, CHR 0x80, CHR 0x83], [CHR 0xE2, CHR 0x80, CHR 0x84], [CHR 0xE2, CHR 0x80, CHR 0x85],
      [CHR 0xE2, CHR 0x80, CHR 0x86], [CHR 0xE2, CHR 0x80, CHR 0x87], [CHR 0xE2, CHR 0x80, CHR 0x88],
      [CHR 0xE2, CHR 0x80, CHR 0x89], [CHR 0xE2, CHR 0x80, CHR 0x8A], [CHR 0xE2, CHR 0x80, CHR 0xA8],
      [CHR 0xE2, CHR 0x80, CHR 0xA9], [CHR 0xE2, CHR 0x80, CHR 0xAF], [CHR 0xE2, CHR 0x81, CHR 0x9F],
      [CHR 0xE3, CHR 0x80, CHR 0x80]]"

function trim_with :: "string list \<Rightarrow> string \<Rightarrow> string" where
  "trim_with ws s =
     (case find (\<lambda>w. w \<noteq> [] \<and> w = take (length w) s) ws of
        None \<Rightarrow> s
      | Some w \<Rightarrow> trim_with ws (drop (length w) s))"
  by pat_completeness auto
termination
proof (relation "measure (length \<circ> snd)")
  fix ws s x
  assume "find (\<lambda>w. w \<noteq> [] \<and> w = take (length w) s) ws = Some x"
  then have "x \<noteq> []" "x = take (length x) s" by (auto simp: find_Some_iff)
  then have "s \<noteq> []" by (metis take_Nil)
  with \<open>x \<noteq> []\<close> show "((ws, drop (length x) s), ws, s) \<in> measure (length \<circ> snd)" by simp
qed simp

declare trim_with.simps [simp del]

definition TrimSpace :: "string \<Rightarrow> string" where
  "TrimSpace s = rev (trim_with (map rev unicode_spaces) (rev (trim_with unicode_spaces s)))"

fun Split :: "char \<Rightarrow> string \<Rightarrow> string list" where
  "Split sep [] = [[]]"
| "Split sep (c # s) =
     (if c = sep then [] # Split sep s
      else (case Split sep s of [] \<Rightarrow> [[c]] | t # ts \<Rightarrow> (c # t) # ts))"

datatype NumError = ErrSyntax | ErrRange

text \<open>\<open>strconv.ParseUint(s, 10, 64)\<close>: digits are read left to right, and the first character
  that is no digit or that makes the value exceed 64 bits decides the error.\<close>

fun parse_digits :: "nat \<Rightarrow> string \<Rightarrow> NumError + nat" where
  "parse_digits n [] = Inr n"
| "parse_digits n (c # s) =
     (if \<not> (48 \<le> (of_char c :: nat) \<and> (of_char c :: nat) \<le> 57) then Inl ErrSyntax
      else if 2 ^ 64 \<le> n * 10 + (of_char c - 48) then Inl ErrRange
      else parse_digits (n * 10 + (of_char c - 48)) s)"

definition ParseUint :: "string \<Rightarrow> NumError + uint64" where
  "ParseUint s = (if s = [] then Inl ErrSyntax else map_sum id of_nat (parse_digits 0 s))"

section \<open>The textual notation\<close>

datatype conf_err = UnknownToken string | UnknownInput string | NumErr NumError

definition parse_change :: "string \<Rightarrow> conf_err + ConfChangeSingle" where
  "parse_change tok =
     (if length tok < 2 then Inl (UnknownToken tok)
      else (case (if hd tok = CHR ''v'' then Some ConfChangeAddNode
                  else if hd tok = CHR ''l'' then Some ConfChangeAddLearnerNode
                  else if hd tok = CHR ''r'' then Some ConfChangeRemoveNode
                  else if hd tok = CHR ''u'' then Some ConfChangeUpdateNode
                  else None) of
          None \<Rightarrow> Inl (UnknownInput tok)
        | Some typ \<Rightarrow>
            (case ParseUint (tl tok) of
               Inl e \<Rightarrow> Inl (NumErr e)
             | Inr i \<Rightarrow> Inr \<lparr>csType = typ, csNodeID = i\<rparr>)))"

fun parse_changes :: "ConfChangeSingle list \<Rightarrow> string list \<Rightarrow> conf_err + ConfChangeSingle list" where
  "parse_changes ccs [] = Inr ccs"
| "parse_changes ccs (tok # toks) =
     (case parse_change tok of Inl e \<Rightarrow> Inl e | Inr cc \<Rightarrow> parse_changes (ccs @ [cc]) toks)"

definition ConfChangesFromString :: "string \<Rightarrow> conf_err + ConfChangeSingle list" where
  "ConfChangesFromString s =
     (let toks = Split (CHR '' '') (TrimSpace s); toks = (if hd toks = [] then [] else toks)
      in parse_changes [] toks)"

definition change_letter :: "int32 \<Rightarrow> string" where
  "change_letter t =
     (if t = ConfChangeAddNode then ''v''
      else if t = ConfChangeAddLearnerNode then ''l''
      else if t = ConfChangeRemoveNode then ''r''
      else if t = ConfChangeUpdateNode then ''u''
      else ''unknown'')"

fun write_changes :: "string \<Rightarrow> nat \<Rightarrow> ConfChangeSingle list \<Rightarrow> string" where
  "write_changes buf i [] = buf"
| "write_changes buf i (cc # ccs) =
     write_changes
       (buf @ (if i > 0 then '' '' else []) @ change_letter (csType cc) @ decimal (unat (csNodeID cc)))
       (Suc i) ccs"

definition ConfChangesToString :: "ConfChangeSingle list \<Rightarrow> string" where
  "ConfChangesToString ccs = write_changes [] 0 ccs"

section \<open>Reading back what was printed\<close>

lemma parse_digits_append:
  "parse_digits k xs = Inr v \<Longrightarrow> parse_digits k (xs @ ys) = parse_digits v ys"
  by (induction k xs rule: parse_digits.induct) (auto split: if_splits)

lemma of_char_digit: "d < 10 \<Longrightarrow> (of_char (char_of (48 + d :: nat)) :: nat) = 48 + d"
  by simp

lemma parse_digits_decimal: "n < 2 ^ 64 \<Longrightarrow> parse_digits 0 (decimal n) = Inr n"
proof (induction n rule: decimal.induct)
  case (1 n)
  show ?case
  proof (cases "n < 10")
    case True
    then show ?thesis by (simp add: decimal.simps [of n])
  next
    case False
    have "parse_digits 0 (decimal (n div 10)) = Inr (n div 10)" using 1 False by simp
    then show ?thesis
      using False "1.prems" by (simp add: decimal.simps [of n] parse_digits_append of_char_digit)
  qed
qed

definition digit_chars :: "char set" where
  "digit_chars = set ''0123456789''"

lemma digit_char: "d < 10 \<Longrightarrow> char_of (48 + d :: nat) \<in> digit_chars"
proof -
  assume "d < 10"
  then have "d = 0 \<or> d = 1 \<or> d = 2 \<or> d = 3 \<or> d = 4 \<or> d = 5 \<or> d = 6 \<or> d = 7 \<or> d = 8 \<or> d = 9"
    by presburger
  then show ?thesis by (elim disjE) (simp_all add: digit_chars_def char_of_def bit_0)
qed

lemma decimal_digits: "set (decimal n) \<subseteq> digit_chars \<and> decimal n \<noteq> []"
proof (induction n rule: decimal.induct)
  case (1 n)
  then show ?case
    using digit_char [of n] digit_char [of "n mod 10"]
    by (cases "n < 10") (simp_all add: decimal.simps [of n])
qed

lemma ParseUint_decimal: "ParseUint (decimal (unat v)) = Inr v"
proof -
  have "unat v < 2 ^ 64" using unsigned_less [of v] by simp
  then show ?thesis using decimal_digits [of "unat v"] by (simp add: ParseUint_def parse_digits_decimal)
qed

text \<open>A token of the notation: a letter and a decimal number.\<close>

definition known_change :: "ConfChangeSingle \<Rightarrow> bool" where
  "known_change cc \<longleftrightarrow> csType cc \<in>
     {ConfChangeAddNode, ConfChangeAddLearnerNode, ConfChangeRemoveNode, ConfChangeUpdateNode}"

definition change_token :: "ConfChangeSingle \<Rightarrow> string" where
  "change_token cc = change_letter (csType cc) @ decimal (unat (csNodeID cc))"

lemma parse_change_token: "known_change cc \<Longrightarrow> parse_change (change_token cc) = Inr cc"
proof -
  assume k: "known_change cc"
  obtain c cs where d: "decimal (unat (csNodeID cc)) = c # cs"
    using decimal_digits [of "unat (csNodeID cc)"] by (cases "decimal (unat (csNodeID cc))") auto
  have "ParseUint (c # cs) = Inr (csNodeID cc)" using ParseUint_decimal [of "csNodeID cc"] d by simp
  moreover have "csType cc = t \<Longrightarrow> \<lparr>csType = t, csNodeID = csNodeID cc\<rparr> = cc" for t by (cases cc) simp
  ultimately show ?thesis
    using k by (auto simp: known_change_def parse_change_def change_token_def change_letter_def d)
qed

lemma parse_changes_map:
  "(\<forall>cc \<in> set ccs. parse_change (f cc) = Inr cc) \<Longrightarrow> parse_changes acc (map f ccs) = Inr (acc @ ccs)"
  by (induction ccs arbitrary: acc) simp_all

fun spaced :: "string list \<Rightarrow> string" where
  "spaced [] = []"
| "spaced [t] = t"
| "spaced (t # ts) = t @ CHR '' '' # spaced ts"

lemma write_changes_spaced:
  "write_changes buf i ccs =
     buf @ (if i > 0 \<and> ccs \<noteq> [] then '' '' else []) @ spaced (map change_token ccs)"
proof (induction ccs arbitrary: buf i)
  case (Cons cc ccs)
  have "spaced (map change_token (cc # ccs)) =
      change_token cc @ (if ccs \<noteq> [] then '' '' else []) @ spaced (map change_token ccs)"
    by (cases ccs) simp_all
  moreover have "write_changes buf i (cc # ccs) =
      write_changes (buf @ (if i > 0 then '' '' else []) @ change_token cc) (Suc i) ccs"
    by (simp add: change_token_def)
  ultimately show ?case by (simp add: Cons.IH del: write_changes.simps)
qed simp

lemma Split_no_sep: "sep \<notin> set t \<Longrightarrow> Split sep t = [t]"
  by (induction t) auto

lemma Split_append: "sep \<notin> set t \<Longrightarrow> Split sep (t @ sep # s) = t # Split sep s"
  by (induction t) auto

lemma Split_spaced:
  "\<lbrakk>ts \<noteq> []; \<forall>t \<in> set ts. CHR '' '' \<notin> set t\<rbrakk> \<Longrightarrow> Split (CHR '' '') (spaced ts) = ts"
  by (induction ts rule: spaced.induct) (simp_all add: Split_no_sep Split_append)

definition plain_chars :: "char set" where
  "plain_chars = set ''vlru0123456789''"

lemma spaces_not_plain:
  "\<forall>w \<in> set unicode_spaces. w \<noteq> [] \<and> hd w \<notin> plain_chars \<and> last w \<notin> plain_chars"
  by (simp add: unicode_spaces_def plain_chars_def)

lemma trim_with_id:
  assumes "\<forall>w \<in> set ws. w \<noteq> [] \<and> hd w \<notin> plain_chars" and "s \<noteq> []" and "hd s \<in> plain_chars"
  shows "trim_with ws s = s"
proof -
  have "\<not> (w \<noteq> [] \<and> w = take (length w) s)" if "w \<in> set ws" for w
    using assms that by (metis hd_take length_greater_0_conv)
  then have "find (\<lambda>w. w \<noteq> [] \<and> w = take (length w) s) ws = None"
    by (auto simp: find_None_iff)
  then show ?thesis by (simp add: trim_with.simps)
qed

lemma trim_with_Nil: "trim_with ws [] = []"
proof -
  have "find (\<lambda>w. w \<noteq> [] \<and> w = take (length w) []) ws = None" by (auto simp: find_None_iff)
  then show ?thesis by (simp add: trim_with.simps)
qed

lemma TrimSpace_id:
  assumes "s \<noteq> []" and "hd s \<in> plain_chars" and "last s \<in> plain_chars"
  shows "TrimSpace s = s"
proof -
  have "trim_with unicode_spaces s = s"
    using spaces_not_plain assms by (intro trim_with_id) auto
  moreover have "trim_with (map rev unicode_spaces) (rev s) = rev s"
    using spaces_not_plain assms by (intro trim_with_id) (auto simp: hd_rev)
  ultimately show ?thesis by (simp add: TrimSpace_def)
qed

lemma digit_plain: "digit_chars \<subseteq> plain_chars"
  by (simp add: digit_chars_def plain_chars_def)

lemma change_letter_plain: "known_change cc \<Longrightarrow> set (change_letter (csType cc)) \<subseteq> plain_chars"
  unfolding known_change_def change_letter_def plain_chars_def by (elim insertE) simp_all

lemma change_token_chars:
  assumes "known_change cc"
  shows "set (change_token cc) \<subseteq> plain_chars" and "change_token cc \<noteq> []"
  using decimal_digits [of "unat (csNodeID cc)"] digit_plain change_letter_plain [OF assms]
  by (simp_all add: change_token_def order_trans [OF _ digit_plain])

lemma spaced_ends:
  assumes "ts \<noteq> []" and "\<forall>t \<in> set ts. t \<noteq> [] \<and> set t \<subseteq> plain_chars"
  shows "spaced ts \<noteq> [] \<and> hd (spaced ts) \<in> plain_chars \<and> last (spaced ts) \<in> plain_chars"
  using assms
proof (induction ts rule: spaced.induct)
  case (2 t)
  then show ?case by (simp add: subset_iff)
next
  case (3 t u us)
  then have "t \<noteq> []" "hd t \<in> plain_chars" by (auto simp: subset_iff)
  with 3 show ?case by simp
qed simp

lemma strings_of_known_changes:
  assumes "\<forall>cc \<in> set ccs. known_change cc"
  shows "ConfChangesFromString (ConfChangesToString ccs) = Inr ccs"
proof (cases "ccs = []")
  case True
  have "TrimSpace [] = []" by (simp add: TrimSpace_def trim_with_Nil)
  then show ?thesis
    using True by (simp add: ConfChangesToString_def ConfChangesFromString_def)
next
  case False
  let ?ts = "map change_token ccs"
  have ts: "\<forall>t \<in> set ?ts. t \<noteq> [] \<and> set t \<subseteq> plain_chars"
    using assms change_token_chars by auto
  have s: "ConfChangesToString ccs = spaced ?ts"
    by (simp add: ConfChangesToString_def write_changes_spaced)
  have "TrimSpace (spaced ?ts) = spaced ?ts"
    using spaced_ends [of ?ts] ts False by (intro TrimSpace_id) auto
  moreover have "Split (CHR '' '') (spaced ?ts) = ?ts"
    using ts False by (intro Split_spaced) (auto simp: plain_chars_def)
  moreover have "hd ?ts \<noteq> []" using ts False by (cases ccs) auto
  ultimately show ?thesis
    using parse_changes_map [of ccs change_token "[]"] assms
    by (simp add: s ConfChangesFromString_def parse_change_token)
qed

section \<open>Properties\<close>

text \<open>C15: \<open>ConfChangesFromString\<close> reads back what \<open>ConfChangesToString\<close> prints, for every list of
  changes whose types are the four known ones, whatever the node ids.\<close>

theorem conf_changes_string_roundtrip:
  assumes "\<forall>cc \<in> set ccs. known_change cc"
  shows "ConfChangesFromString (ConfChangesToString ccs) = Inr ccs"
  by (rule strings_of_known_changes [OF assms])

theorem conf_changes_string_roundtrip_witness:
  "ConfChangesFromString (ConfChangesToString
     [\<lparr>csType = ConfChangeAddNode, csNodeID = 18446744073709551615\<rparr>, \<lparr>csType = ConfChangeUpdateNode, csNodeID = 0\<rparr>]) =
   Inr [\<lparr>csType = ConfChangeAddNode, csNodeID = 18446744073709551615\<rparr>, \<lparr>csType = ConfChangeUpdateNode, csNodeID = 0\<rparr>]"
  by (rule conf_changes_string_roundtrip) (simp add: known_change_def)

end
