(* ===== verification/Raftpb_Names.thy ===== *)
theory Raftpb_Names
  imports Raftpb_Types
begin

text \<open>
  \<open>src/raft/raftpb/raft.pb.go\<close>: the tables that name the values of the enumerations, and the methods over
  them.  \<open>proto.EnumName\<close> and \<open>proto.UnmarshalJSONEnum\<close> of gogo/protobuf are the parameters \<open>enum_name\<close>
  and \<open>unmarshal_enum\<close>.
\<close>

section \<open>EntryType\<close>

definition EntryType_name :: "(int32 \<times> string) list" where
  "EntryType_name =
     [(0, ''EntryNormal''), (1, ''EntryConfChange''), (2, ''EntryConfChangeV2'')]"

definition EntryType_value :: "(string \<times> int32) list" where
  "EntryType_value =
     [(''EntryNormal'', 0), (''EntryConfChange'', 1), (''EntryConfChangeV2'', 2)]"

definition EntryType_Enum :: "EntryType \<Rightarrow> EntryType option" where
  "EntryType_Enum x = Some x"

definition EntryType_String :: "((int32 \<times> string) list \<Rightarrow> int32 \<Rightarrow> string) \<Rightarrow> EntryType \<Rightarrow> string" where
  "EntryType_String enum_name x = enum_name EntryType_name x"

definition EntryType_UnmarshalJSON ::
  "((string \<times> int32) list \<Rightarrow> byte list \<Rightarrow> string \<Rightarrow> 'e + int32) \<Rightarrow> byte list \<Rightarrow> EntryType \<Rightarrow> EntryType \<times> 'e option" where
  "EntryType_UnmarshalJSON unmarshal_enum data x =
     (case unmarshal_enum EntryType_value data ''EntryType'' of Inl err \<Rightarrow> (x, Some err) | Inr value \<Rightarrow> (value, None))"

section \<open>MessageType\<close>

definition MessageType_name :: "(int32 \<times> string) list" where
  "MessageType_name =
     [(0, ''MsgHup''), (1, ''MsgBeat''), (2, ''MsgProp''), (3, ''MsgApp''), (4, ''MsgAppResp''),
      (5, ''MsgVote''), (6, ''MsgVoteResp''), (7, ''MsgSnap''), (8, ''MsgHeartbeat''),
      (9, ''MsgHeartbeatResp''), (10, ''MsgUnreachable''), (11, ''MsgSnapStatus''),
      (12, ''MsgCheckQuorum''), (13, ''MsgTransferLeader''), (14, ''MsgTimeoutNow''),
      (15, ''MsgReadIndex''), (16, ''MsgReadIndexResp''), (17, ''MsgPreVote''), (18, ''MsgPreVoteResp''),
      (19, ''MsgStorageAppend''), (20, ''MsgStorageAppendResp''), (21, ''MsgStorageApply''),
      (22, ''MsgStorageApplyResp''), (23, ''MsgForgetLeader'')]"

definition MessageType_value :: "(string \<times> int32) list" where
  "MessageType_value =
     [(''MsgHup'', 0), (''MsgBeat'', 1), (''MsgProp'', 2), (''MsgApp'', 3), (''MsgAppResp'', 4),
      (''MsgVote'', 5), (''MsgVoteResp'', 6), (''MsgSnap'', 7), (''MsgHeartbeat'', 8),
      (''MsgHeartbeatResp'', 9), (''MsgUnreachable'', 10), (''MsgSnapStatus'', 11),
      (''MsgCheckQuorum'', 12), (''MsgTransferLeader'', 13), (''MsgTimeoutNow'', 14),
      (''MsgReadIndex'', 15), (''MsgReadIndexResp'', 16), (''MsgPreVote'', 17), (''MsgPreVoteResp'', 18),
      (''MsgStorageAppend'', 19), (''MsgStorageAppendResp'', 20), (''MsgStorageApply'', 21),
      (''MsgStorageApplyResp'', 22), (''MsgForgetLeader'', 23)]"

definition MessageType_Enum :: "MessageType \<Rightarrow> MessageType option" where
  "MessageType_Enum x = Some x"

definition MessageType_String :: "((int32 \<times> string) list \<Rightarrow> int32 \<Rightarrow> string) \<Rightarrow> MessageType \<Rightarrow> string" where
  "MessageType_String enum_name x = enum_name MessageType_name x"

definition MessageType_UnmarshalJSON ::
  "((string \<times> int32) list \<Rightarrow> byte list \<Rightarrow> string \<Rightarrow> 'e + int32) \<Rightarrow> byte list \<Rightarrow> MessageType \<Rightarrow> MessageType \<times> 'e option" where
  "MessageType_UnmarshalJSON unmarshal_enum data x =
     (case unmarshal_enum MessageType_value data ''MessageType'' of Inl err \<Rightarrow> (x, Some err) | Inr value \<Rightarrow> (value, None))"

section \<open>ConfChangeTransition\<close>

definition ConfChangeTransition_name :: "(int32 \<times> string) list" where
  "ConfChangeTransition_name =
     [(0, ''ConfChangeTransitionAuto''), (1, ''ConfChangeTransitionJointImplicit''),
      (2, ''ConfChangeTransitionJointExplicit'')]"

definition ConfChangeTransition_value :: "(string \<times> int32) list" where
  "ConfChangeTransition_value =
     [(''ConfChangeTransitionAuto'', 0), (''ConfChangeTransitionJointImplicit'', 1),
      (''ConfChangeTransitionJointExplicit'', 2)]"

definition ConfChangeTransition_Enum :: "ConfChangeTransition \<Rightarrow> ConfChangeTransition option" where
  "ConfChangeTransition_Enum x = Some x"

definition ConfChangeTransition_String :: "((int32 \<times> string) list \<Rightarrow> int32 \<Rightarrow> string) \<Rightarrow> ConfChangeTransition \<Rightarrow> string" where
  "ConfChangeTransition_String enum_name x = enum_name ConfChangeTransition_name x"

definition ConfChangeTransition_UnmarshalJSON ::
  "((string \<times> int32) list \<Rightarrow> byte list \<Rightarrow> string \<Rightarrow> 'e + int32) \<Rightarrow> byte list \<Rightarrow> ConfChangeTransition \<Rightarrow> ConfChangeTransition \<times> 'e option" where
  "ConfChangeTransition_UnmarshalJSON unmarshal_enum data x =
     (case unmarshal_enum ConfChangeTransition_value data ''ConfChangeTransition'' of Inl err \<Rightarrow> (x, Some err) | Inr value \<Rightarrow> (value, None))"

section \<open>ConfChangeType\<close>

definition ConfChangeType_name :: "(int32 \<times> string) list" where
  "ConfChangeType_name =
     [(0, ''ConfChangeAddNode''), (1, ''ConfChangeRemoveNode''), (2, ''ConfChangeUpdateNode''),
      (3, ''ConfChangeAddLearnerNode'')]"

definition ConfChangeType_value :: "(string \<times> int32) list" where
  "ConfChangeType_value =
     [(''ConfChangeAddNode'', 0), (''ConfChangeRemoveNode'', 1), (''ConfChangeUpdateNode'', 2),
      (''ConfChangeAddLearnerNode'', 3)]"

definition ConfChangeType_Enum :: "ConfChangeType \<Rightarrow> ConfChangeType option" where
  "ConfChangeType_Enum x = Some x"

definition ConfChangeType_String :: "((int32 \<times> string) list \<Rightarrow> int32 \<Rightarrow> string) \<Rightarrow> ConfChangeType \<Rightarrow> string" where
  "ConfChangeType_String enum_name x = enum_name ConfChangeType_name x"

definition ConfChangeType_UnmarshalJSON ::
  "((string \<times> int32) list \<Rightarrow> byte list \<Rightarrow> string \<Rightarrow> 'e + int32) \<Rightarrow> byte list \<Rightarrow> ConfChangeType \<Rightarrow> ConfChangeType \<times> 'e option" where
  "ConfChangeType_UnmarshalJSON unmarshal_enum data x =
     (case unmarshal_enum ConfChangeType_value data ''ConfChangeType'' of Inl err \<Rightarrow> (x, Some err) | Inr value \<Rightarrow> (value, None))"

section \<open>Facts\<close>

text \<open>A table of names and one of values belong together: each is the other one turned round, and no name
  and no number stands in it twice.\<close>

definition tables_agree :: "(int32 \<times> string) list \<Rightarrow> (string \<times> int32) list \<Rightarrow> bool" where
  "tables_agree names vals \<longleftrightarrow> vals = map prod.swap names \<and> distinct (map fst names) \<and> distinct (map snd names)"

lemma tables_agree_lookup:
  assumes "tables_agree names vals"
  shows "map_of names n = Some s \<longleftrightarrow> map_of vals s = Some n"
proof -
  have "distinct (map fst vals)" "set vals = prod.swap ` set names" using assms by (simp_all add: tables_agree_def comp_def)
  then show ?thesis using assms by (auto simp: tables_agree_def map_of_eq_Some_iff simp del: map_map)
qed

lemma enum_tables_agree:
  "tables_agree EntryType_name EntryType_value"
  "tables_agree MessageType_name MessageType_value"
  "tables_agree ConfChangeTransition_name ConfChangeTransition_value"
  "tables_agree ConfChangeType_name ConfChangeType_value"
  by code_simp+

text \<open>A name is read back as the number it was printed for.\<close>

lemmas enum_lookup = tables_agree_lookup [OF enum_tables_agree(1)] tables_agree_lookup [OF enum_tables_agree(2)]
  tables_agree_lookup [OF enum_tables_agree(3)] tables_agree_lookup [OF enum_tables_agree(4)]

end
