(* ===== verification/Raft_Logger.thy ===== *)
theory Raft_Logger
  imports Go_Prelude
begin

text \<open>
  \<open>src/raft/log/logger.go\<close>: the two ways the program logs.  The transport uses a zap logger, whose level
  is set once for the process; the default logger of the raft core writes lines through Go's package
  \<open>log\<close>.  A file is the list of the lines written to it.  What a call does
  to its caller is a value: it returns, panics, or ends the process.  \<open>fmt.Sprint\<close> and
  \<open>fmt.Sprintf\<close> are the parameters \<open>sprint\<close> and \<open>sprintf\<close>.  The other theories drop the calls of the
  loggers except where they do not return.
\<close>

section \<open>The level of the zap logger\<close>

text \<open>The constants of zap that the source names.  The atomic level is that of zap: making one and setting
  its level are the parameters \<open>new_level\<close> and \<open>set_level\<close>.\<close>

datatype Level = DebugLevel | InfoLevel | WarnLevel | ErrorLevel

definition InitLoggerLevel :: "'a \<Rightarrow> (Level \<Rightarrow> 'a \<Rightarrow> 'a) \<Rightarrow> string \<Rightarrow> 'a" where
  "InitLoggerLevel new_level set_level loggingLevel =
     (let globalLogLevel = new_level in
      if loggingLevel = ''error'' then set_level ErrorLevel globalLogLevel
      else if loggingLevel = ''warn'' then set_level WarnLevel globalLogLevel
      else if loggingLevel = ''debug'' then set_level DebugLevel globalLogLevel
      else if loggingLevel = ''info'' then globalLogLevel
      else set_level InfoLevel globalLogLevel)"

text \<open>What is set on the encoder of zap for development, where the logger writes, and the level it shares
  with all others.\<close>

record 'a zap_logger =
  zl_separator :: string
  zl_timeLayout :: string
  zl_stdout :: bool
  zl_level :: 'a

definition CreateZapLogger :: "'a \<Rightarrow> 'a zap_logger" where
  "CreateZapLogger globalLogLevel =
     \<lparr>zl_separator = '' '', zl_timeLayout = ''2006-01-02 15:04:05.000'', zl_stdout = True,
      zl_level = globalLogLevel\<rparr>"

text \<open>What a call of a logger does to its caller.\<close>

datatype log_outcome = Continues | Panics string | Exits nat

section \<open>The default logger\<close>

text \<open>Flags of \<open>log.Logger\<close>: the date is bit 0 and the time bit 1 of a line.\<close>

definition Ldate :: int32 where
  "Ldate = 1"

definition Ltime :: int32 where
  "Ltime = 2"

definition LstdFlags :: int32 where
  "LstdFlags = Ldate OR Ltime"

record DefaultLogger =
  dl_prefix :: string
  dl_flags :: int32
  dl_debug :: bool
  dl_out :: "string list"
  dl_discards :: bool

text \<open>The clock as the two texts that \<open>log\<close> prints.\<close>

type_synonym stamp = "string \<times> string"

definition line_header :: "stamp \<Rightarrow> DefaultLogger \<Rightarrow> string" where
  "line_header now l =
     dl_prefix l @
     (if dl_flags l AND Ldate \<noteq> 0 then fst now @ '' '' else []) @
     (if dl_flags l AND Ltime \<noteq> 0 then snd now @ '' '' else [])"

text \<open>A line ends with a newline, which is added when it is missing.\<close>

definition Output :: "stamp \<Rightarrow> string \<Rightarrow> DefaultLogger \<Rightarrow> DefaultLogger" where
  "Output now s l =
     (if dl_discards l then l
      else l\<lparr>dl_out := dl_out l @
        [line_header now l @ s @ (if s = [] \<or> last s \<noteq> CHR 0x0A then [CHR 0x0A] else [])]\<rparr>)"

definition log_header :: "string \<Rightarrow> string \<Rightarrow> string" where
  "log_header lvl msg = lvl @ '': '' @ msg"

definition EnableTimestamps :: "DefaultLogger \<Rightarrow> DefaultLogger" where
  "EnableTimestamps l = l\<lparr>dl_flags := dl_flags l OR Ldate OR Ltime\<rparr>"

definition EnableDebug :: "DefaultLogger \<Rightarrow> DefaultLogger" where
  "EnableDebug l = l\<lparr>dl_debug := True\<rparr>"

definition log_Debug :: "('v list \<Rightarrow> string) \<Rightarrow> stamp \<Rightarrow> 'v list \<Rightarrow> DefaultLogger \<Rightarrow> DefaultLogger" where
  "log_Debug sprint now v l = (if dl_debug l then Output now (log_header ''DEBUG'' (sprint v)) l else l)"

definition log_Debugf :: "(string \<Rightarrow> 'v list \<Rightarrow> string) \<Rightarrow> stamp \<Rightarrow> string \<Rightarrow> 'v list \<Rightarrow> DefaultLogger \<Rightarrow> DefaultLogger" where
  "log_Debugf sprintf now format v l =
     (if dl_debug l then Output now (log_header ''DEBUG'' (sprintf format v)) l else l)"

definition log_Info :: "('v list \<Rightarrow> string) \<Rightarrow> stamp \<Rightarrow> 'v list \<Rightarrow> DefaultLogger \<Rightarrow> DefaultLogger" where
  "log_Info sprint now v l = Output now (log_header ''INFO'' (sprint v)) l"

definition log_Infof :: "(string \<Rightarrow> 'v list \<Rightarrow> string) \<Rightarrow> stamp \<Rightarrow> string \<Rightarrow> 'v list \<Rightarrow> DefaultLogger \<Rightarrow> DefaultLogger" where
  "log_Infof sprintf now format v l = Output now (log_header ''INFO'' (sprintf format v)) l"

definition log_Error :: "('v list \<Rightarrow> string) \<Rightarrow> stamp \<Rightarrow> 'v list \<Rightarrow> DefaultLogger \<Rightarrow> DefaultLogger" where
  "log_Error sprint now v l = Output now (log_header ''ERROR'' (sprint v)) l"

definition log_Errorf :: "(string \<Rightarrow> 'v list \<Rightarrow> string) \<Rightarrow> stamp \<Rightarrow> string \<Rightarrow> 'v list \<Rightarrow> DefaultLogger \<Rightarrow> DefaultLogger" where
  "log_Errorf sprintf now format v l = Output now (log_header ''ERROR'' (sprintf format v)) l"

definition log_Warning :: "('v list \<Rightarrow> string) \<Rightarrow> stamp \<Rightarrow> 'v list \<Rightarrow> DefaultLogger \<Rightarrow> DefaultLogger" where
  "log_Warning sprint now v l = Output now (log_header ''WARN'' (sprint v)) l"

definition log_Warningf :: "(string \<Rightarrow> 'v list \<Rightarrow> string) \<Rightarrow> stamp \<Rightarrow> string \<Rightarrow> 'v list \<Rightarrow> DefaultLogger \<Rightarrow> DefaultLogger" where
  "log_Warningf sprintf now format v l = Output now (log_header ''WARN'' (sprintf format v)) l"

definition log_Fatal :: "('v list \<Rightarrow> string) \<Rightarrow> stamp \<Rightarrow> 'v list \<Rightarrow> DefaultLogger \<Rightarrow> DefaultLogger \<times> log_outcome" where
  "log_Fatal sprint now v l = (Output now (log_header ''FATAL'' (sprint v)) l, Exits 1)"

definition log_Fatalf ::
  "(string \<Rightarrow> 'v list \<Rightarrow> string) \<Rightarrow> stamp \<Rightarrow> string \<Rightarrow> 'v list \<Rightarrow> DefaultLogger \<Rightarrow> DefaultLogger \<times> log_outcome" where
  "log_Fatalf sprintf now format v l = (Output now (log_header ''FATAL'' (sprintf format v)) l, Exits 1)"

text \<open>The panics are those of \<open>log.Logger\<close>: the text without a level is written and then raised.\<close>

definition log_Panic :: "('v list \<Rightarrow> string) \<Rightarrow> stamp \<Rightarrow> 'v list \<Rightarrow> DefaultLogger \<Rightarrow> DefaultLogger \<times> log_outcome" where
  "log_Panic sprint now v l = (Output now (sprint v) l, Panics (sprint v))"

definition log_Panicf ::
  "(string \<Rightarrow> 'v list \<Rightarrow> string) \<Rightarrow> stamp \<Rightarrow> string \<Rightarrow> 'v list \<Rightarrow> DefaultLogger \<Rightarrow> DefaultLogger \<times> log_outcome" where
  "log_Panicf sprintf now format v l = (Output now (sprintf format v) l, Panics (sprintf format v))"

section \<open>The logger in use\<close>

definition defaultLogger :: DefaultLogger where
  "defaultLogger = \<lparr>dl_prefix = ''raft'', dl_flags = LstdFlags, dl_debug = False, dl_out = [], dl_discards = False\<rparr>"

definition discardLogger :: DefaultLogger where
  "discardLogger = \<lparr>dl_prefix = [], dl_flags = 0, dl_debug = False, dl_out = [], dl_discards = True\<rparr>"

text \<open>The loggers are shared by pointer: the variable \<open>raftLogger\<close> names the one in use.  Its mutex makes
  each of the three calls one step.\<close>

datatype logger_ref = DefaultRef | DiscardRef | OtherRef nat

record log_globals =
  lg_raftLogger :: logger_ref
  lg_default :: DefaultLogger
  lg_discard :: DefaultLogger

definition log_start :: log_globals where
  "log_start = \<lparr>lg_raftLogger = DefaultRef, lg_default = defaultLogger, lg_discard = discardLogger\<rparr>"

definition SetLogger :: "logger_ref \<Rightarrow> log_globals \<Rightarrow> log_globals" where
  "SetLogger l g = g\<lparr>lg_raftLogger := l\<rparr>"

definition ResetDefaultLogger :: "log_globals \<Rightarrow> log_globals" where
  "ResetDefaultLogger g = SetLogger DefaultRef g"

definition GetLogger :: "log_globals \<Rightarrow> logger_ref" where
  "GetLogger g = lg_raftLogger g"

section \<open>Facts\<close>

text \<open>The level that a setting gives: an unknown one gives info.  \<open>reads\<close> is the level of an atomic level,
  and a new one is at info.\<close>

lemma InitLoggerLevel_level:
  assumes "reads new_level = InfoLevel" and "\<And>l a. reads (set_level l a) = l"
  shows "reads (InitLoggerLevel new_level set_level s) =
    (if s = ''error'' then ErrorLevel else if s = ''warn'' then WarnLevel
     else if s = ''debug'' then DebugLevel else InfoLevel)"
  by (simp add: InitLoggerLevel_def assms)

lemma Output_one_line: "\<not> dl_discards l \<Longrightarrow> \<exists>line. dl_out (Output now s l) = dl_out l @ [line @ [CHR 0x0A]]"
proof (cases "s = [] \<or> last s \<noteq> CHR 0x0A")
  case False
  then have "s = butlast s @ [CHR 0x0A]" by (metis append_butlast_last_id)
  moreover assume "\<not> dl_discards l"
  ultimately show ?thesis using False by (auto simp: Output_def intro: exI [of _ "line_header now l @ butlast s"])
qed (simp add: Output_def)

end
