(* ===== verification/Core_Util.thy ===== *)
theory Core_Util
  imports Raftpb_Codec
begin

text \<open>
  \<open>src/raft/core/util.go\<close>: the classification of message types and the sizes that bound how many
  entries are sent or applied at once.
\<close>

section \<open>Message classes\<close>

text \<open>The array literals: an entry is true for the listed types and false for the others below.\<close>

definition isLocalMsg :: "bool list" where
  "isLocalMsg = map (\<lambda>i. of_nat i \<in> {MsgHup, MsgBeat, MsgUnreachable, MsgSnapStatus, MsgCheckQuorum,
     MsgStorageAppend, MsgStorageAppendResp, MsgStorageApply, MsgStorageApplyResp})
     [0..<unat MsgStorageApplyResp + 1]"

definition isResponseMsg :: "bool list" where
  "isResponseMsg = map (\<lambda>i. of_nat i \<in> {MsgAppResp, MsgVoteResp, MsgHeartbeatResp, MsgUnreachable,
     MsgReadIndexResp, MsgPreVoteResp, MsgStorageAppendResp, MsgStorageApplyResp})
     [0..<unat MsgStorageApplyResp + 1]"

text \<open>A negative type passes the bound check and panics at the array access.\<close>

definition isMsgInArray :: "int32 \<Rightarrow> bool list \<Rightarrow> bool go" where
  "isMsgInArray msgt arr =
     (let i = sint msgt in
      if i < int (length arr) then (if i < 0 then Inl IndexOutOfRange else go_index arr (nat i))
      else Inr False)"

definition IsLocalMsg :: "int32 \<Rightarrow> bool go" where
  "IsLocalMsg msgt = isMsgInArray msgt isLocalMsg"

definition IsResponseMsg :: "int32 \<Rightarrow> bool go" where
  "IsResponseMsg msgt = isMsgInArray msgt isResponseMsg"

definition LocalAppendThread :: uint64 where
  "LocalAppendThread = - 1"

definition LocalApplyThread :: uint64 where
  "LocalApplyThread = - 2"

definition IsLocalMsgTarget :: "uint64 \<Rightarrow> bool" where
  "IsLocalMsgTarget i = (i = LocalAppendThread \<or> i = LocalApplyThread)"

definition voteRespMsgType :: "int32 \<Rightarrow> int32 go" where
  "voteRespMsgType msgt =
     (if msgt = MsgVote then Inr MsgVoteResp
      else if msgt = MsgPreVote then Inr MsgPreVoteResp
      else Inl (ExplicitPanic ''not a vote message''))"

lemma isMsgInArray_nonneg: "0 \<le> sint msgt \<Longrightarrow> \<exists>b. isMsgInArray msgt arr = Inr b"
  by (auto simp: isMsgInArray_def Let_def)

lemma isMsgInArray_negative: "sint msgt < 0 \<Longrightarrow> isMsgInArray msgt arr = Inl IndexOutOfRange"
  by (simp add: isMsgInArray_def Let_def)

section \<open>Sizes\<close>

definition entsSize :: "Entry list \<Rightarrow> uint64" where
  "entsSize ents = foldl (\<lambda>sz ent. sz + of_nat (Entry_Size ent)) 0 ents"

text \<open>The loop of \<open>limitSize\<close>; \<open>sz\<close> is the sum of the sizes of the first \<open>limit\<close> entries, kept at
  64 bits.\<close>

function limit_loop :: "Entry list \<Rightarrow> uint64 \<Rightarrow> nat \<Rightarrow> uint64 \<Rightarrow> Entry list" where
  "limit_loop ents maxSize limit sz =
     (if limit < length ents then
        (let sz = sz + of_nat (Entry_Size (ents ! limit)) in
         if maxSize < sz then take limit ents else limit_loop ents maxSize (limit + 1) sz)
      else ents)"
  by pat_completeness auto
termination by (relation "measure (\<lambda>(ents, m, limit, s). length ents - limit)") auto

declare limit_loop.simps [simp del]

definition limitSize :: "Entry list \<Rightarrow> uint64 \<Rightarrow> Entry list" where
  "limitSize ents maxSize =
     (if length ents = 0 then ents else limit_loop ents maxSize 1 (of_nat (Entry_Size (ents ! 0))))"

definition payloadSize :: "Entry \<Rightarrow> uint64" where
  "payloadSize e = of_nat (case eData e of None \<Rightarrow> 0 | Some b \<Rightarrow> length b)"

definition payloadsSize :: "Entry list \<Rightarrow> uint64" where
  "payloadsSize ents = foldl (\<lambda>s e. s + payloadSize e) 0 ents"

text \<open>\<open>capacity\<close> stands for \<open>cap(dst)\<close>; both ways of allocating give the same elements.\<close>

definition extend :: "nat \<Rightarrow> Entry list \<Rightarrow> Entry list \<Rightarrow> Entry list" where
  "extend capacity dst vals =
     (let need = length dst + length vals in
      if need \<le> capacity then dst @ vals
      else (let buf = replicate need zeroEntry; buf = dst @ drop (length dst) buf
            in take (length dst) buf @ vals))"

lemma extend_append [simp]: "extend c dst vals = dst @ vals"
  by (simp add: extend_def Let_def)

definition ents_size :: "Entry list \<Rightarrow> nat" where
  "ents_size ents = sum_list (map Entry_Size ents)"

lemma ents_size_append [simp]: "ents_size (xs @ ys) = ents_size xs + ents_size ys"
  by (simp add: ents_size_def)

lemma ents_size_take_le: "ents_size (take k xs) \<le> ents_size xs"
  by (metis append_take_drop_id ents_size_append le_add1)

lemma foldl_size: "foldl (\<lambda>sz ent. sz + of_nat (Entry_Size ent)) s ents = s + of_nat (ents_size ents)"
  for s :: uint64
  by (induction ents arbitrary: s) (simp_all add: ents_size_def algebra_simps)

lemma entsSize_nat: "entsSize ents = of_nat (ents_size ents)"
  by (simp add: entsSize_def foldl_size)

text \<open>The loop stops at the first prefix whose successor is over the limit.\<close>

definition size_prefix :: "Entry list \<Rightarrow> nat \<Rightarrow> nat \<Rightarrow> bool" where
  "size_prefix ents m k \<longleftrightarrow> 1 \<le> k \<and> k \<le> length ents \<and>
     (k = 1 \<or> ents_size (take k ents) \<le> m) \<and>
     (k < length ents \<longrightarrow> m < ents_size (take (Suc k) ents))"

lemma limit_loop_prefix:
  assumes "ents_size ents < 2 ^ 64" and "1 \<le> limit" and "limit \<le> length ents"
    and "sz = of_nat (ents_size (take limit ents))"
    and "limit = 1 \<or> ents_size (take limit ents) \<le> unat m"
  shows "\<exists>k. limit_loop ents m limit sz = take k ents \<and> size_prefix ents (unat m) k"
  using assms
proof (induction ents m limit sz rule: limit_loop.induct)
  case (1 ents m limit sz)
  show ?case
  proof (cases "limit < length ents")
    case True
    let ?s = "sz + of_nat (Entry_Size (ents ! limit))"
    have "ents_size (take (Suc limit) ents) = ents_size (take limit ents) + Entry_Size (ents ! limit)"
      using True by (simp add: take_Suc_conv_app_nth ents_size_def)
    then have s: "?s = of_nat (ents_size (take (Suc limit) ents))" using "1.prems"(4) by simp
    have "ents_size (take (Suc limit) ents) < 2 ^ 64"
      using "1.prems"(1) ents_size_take_le [of "Suc limit" ents] by linarith
    then have u: "unat ?s = ents_size (take (Suc limit) ents)" by (simp only: s unat_of_nat_small)
    show ?thesis
    proof (cases "m < ?s")
      case over: True
      then have "size_prefix ents (unat m) limit"
        using "1.prems" u True unfolding size_prefix_def word_less_nat_alt by auto
      then show ?thesis using over True by (subst limit_loop.simps) (auto simp: Let_def)
    next
      case False
      then have "ents_size (take (Suc limit) ents) \<le> unat m" using u by (simp add: word_le_nat_alt not_less)
      then have "\<exists>k. limit_loop ents m (limit + 1) ?s = take k ents \<and> size_prefix ents (unat m) k"
        using "1.IH" [OF True refl] False "1.prems" s True by simp
      then show ?thesis using False True by (subst limit_loop.simps) (simp add: Let_def)
    qed
  next
    case False
    then have "size_prefix ents (unat m) limit" using "1.prems" by (simp add: size_prefix_def)
    then show ?thesis using False by (subst limit_loop.simps) (metis take_all not_less)
  qed
qed

lemma limitSize_prefix:
  assumes "ents_size ents < 2 ^ 64" and "ents \<noteq> []"
  shows "\<exists>k. limitSize ents m = take k ents \<and> size_prefix ents (unat m) k"
proof -
  have "ents_size (take 1 ents) = Entry_Size (ents ! 0)"
    using assms(2) by (cases ents) (simp_all add: ents_size_def)
  then show ?thesis
    using limit_loop_prefix [of ents 1 "of_nat (Entry_Size (ents ! 0))" m] assms
    by (simp add: limitSize_def Suc_le_eq)
qed

lemma sint_nonneg:
  fixes x :: int32
  assumes "0 \<le> sint x"
  shows "sint x = int (unat x)"
proof -
  have b: "\<not> bit (uint x) 31" using assms by (simp add: sint_uint signed_take_bit_nonnegative_iff)
  have "take_bit 32 (uint x) = uint x" 
    by (rule take_bit_int_eq_self) (use uint_bounded [of x] in simp_all)
  then have "take_bit 31 (uint x) = uint x" using take_bit_Suc_from_most [of 31 "uint x"] b by simp
  then show ?thesis using b by (simp add: sint_uint signed_take_bit_eq_if_positive)
qed

lemma isMsgInArray_nonneg_eq:
  "0 \<le> sint ty \<Longrightarrow> isMsgInArray ty arr = Inr (unat ty < length arr \<and> arr ! unat ty)"
  unfolding isMsgInArray_def Let_def using sint_nonneg [of ty] by (simp del: unsigned_of_nat of_nat_unat)

section \<open>Properties\<close>

text \<open>C22: \<open>limitSize\<close> cuts a list of entries to its longest prefix whose encoded size is within the
  limit, but never below one entry: a prefix of at least one entry is kept, it is within the
  limit unless it is that one entry, and one entry more would exceed the limit.\<close>

theorem limitSize_longest_prefix:
  assumes "ents_size ents < 2 ^ 64" and "ents \<noteq> []"
  shows "\<exists>k. limitSize ents m = take k ents \<and> 1 \<le> k \<and> k \<le> length ents \<and>
    (k = 1 \<or> ents_size (take k ents) \<le> unat m) \<and>
    (k < length ents \<longrightarrow> unat m < ents_size (take (Suc k) ents))"
  using limitSize_prefix [OF assms, of m] unfolding size_prefix_def by blast

theorem limitSize_longest_prefix_witness:
  "\<exists>k. limitSize [zeroEntry, zeroEntry] 3 = take k [zeroEntry, zeroEntry] \<and> 1 \<le> k \<and>
    k \<le> length [zeroEntry, zeroEntry] \<and>
    (k = 1 \<or> ents_size (take k [zeroEntry, zeroEntry]) \<le> unat (3 :: uint64)) \<and>
    (k < length [zeroEntry, zeroEntry] \<longrightarrow> unat (3 :: uint64) < ents_size (take (Suc k) [zeroEntry, zeroEntry]))"
proof (rule limitSize_longest_prefix)
  have "ents_size [zeroEntry, zeroEntry] = 12" by code_simp
  then show "ents_size [zeroEntry, zeroEntry] < 2 ^ 64" by simp
qed simp

text \<open>A message type received from the network is classified without a panic exactly when it is
  not negative; the types above the last known one are not local.  A negative type, which the
  wire format can carry, is an index panic.\<close>

theorem local_message_check:
  "IsLocalMsg ty =
     (if sint ty < 0 then Inl IndexOutOfRange
      else Inr (ty \<in> {MsgHup, MsgBeat, MsgUnreachable, MsgSnapStatus, MsgCheckQuorum, MsgStorageAppend,
        MsgStorageAppendResp, MsgStorageApply, MsgStorageApplyResp}))"
proof (cases "sint ty < 0")
  case True
  then show ?thesis by (simp add: IsLocalMsg_def isMsgInArray_negative)
next
  case False
  then have eq: "IsLocalMsg ty = Inr (unat ty < 23 \<and> isLocalMsg ! unat ty)"
    by (simp add: IsLocalMsg_def isMsgInArray_nonneg_eq isLocalMsg_def del: upt_Suc)
  show ?thesis
  proof (cases "unat ty < 23")
    case True
    then have "isLocalMsg ! unat ty \<longleftrightarrow> ty \<in> {MsgHup, MsgBeat, MsgUnreachable, MsgSnapStatus, MsgCheckQuorum,
        MsgStorageAppend, MsgStorageAppendResp, MsgStorageApply, MsgStorageApplyResp}"
      by (simp add: isLocalMsg_def del: upt_Suc)
    then show ?thesis using True False eq by simp
  next
    case big: False
    then have "ty \<noteq> of_nat k" if "k < 23" for k
      using that by (auto simp: unat_of_nat)
    note ne = this [of 0] this [of 1] this [of 10] this [of 11] this [of 12] this [of 19] this [of 20]
      this [of 21] this [of 22]
    have "ty \<notin> {MsgHup, MsgBeat, MsgUnreachable, MsgSnapStatus, MsgCheckQuorum, MsgStorageAppend,
        MsgStorageAppendResp, MsgStorageApply, MsgStorageApplyResp}"
      using ne by simp
    then show ?thesis using big False eq by simp
  qed
qed

end
