(* ===== verification/Core_Storage.thy ===== *)
theory Core_Storage
  imports Core_Util
begin

text \<open>
  \<open>src/raft/core/storage.go\<close>: the errors of the \<open>Storage\<close> interface and its implementation
  \<open>MemoryStorage\<close>.  A method returns its results together with the storage it leaves behind
  (the call counters change even in the readers); the mutex makes each method one atomic step.

  The locale \<open>term_log\<close> is the contract of a log that can be asked for the term of an index: it is
  known exactly from the entry before the first index up to the last index.  \<open>MemoryStorage\<close>
  provides it here, and the log of a raft node provides it in \<open>Core_Log\<close>.
\<close>

datatype storage_err = ErrCompacted | ErrSnapOutOfDate | ErrUnavailable | ErrSnapshotTemporarilyUnavailable

record inMemStorageCallStats =
  cs_initialState :: int
  cs_firstIndex :: int
  cs_lastIndex :: int
  cs_entries :: int
  cs_term :: int
  cs_snapshot :: int

record MemoryStorage =
  ms_hardState :: HardState
  ms_snapshot :: Snapshot
  ms_ents :: "Entry list"
  ms_callStats :: inMemStorageCallStats

definition zeroCallStats :: inMemStorageCallStats where
  "zeroCallStats = \<lparr>cs_initialState = 0, cs_firstIndex = 0, cs_lastIndex = 0, cs_entries = 0,
     cs_term = 0, cs_snapshot = 0\<rparr>"

definition NewMemoryStorage :: MemoryStorage where
  "NewMemoryStorage = \<lparr>ms_hardState = zeroHardState, ms_snapshot = zeroSnapshot,
     ms_ents = [zeroEntry], ms_callStats = zeroCallStats\<rparr>"

definition Storage_InitialState :: "MemoryStorage \<Rightarrow> (HardState \<times> ConfState) \<times> MemoryStorage" where
  "Storage_InitialState m =
     ((ms_hardState m, smConfState (sMetadata (ms_snapshot m))),
      m\<lparr>ms_callStats := (ms_callStats m)\<lparr>cs_initialState := int64 (cs_initialState (ms_callStats m) + 1)\<rparr>\<rparr>)"

definition Storage_Entries :: "uint64 \<Rightarrow> uint64 \<Rightarrow> uint64 \<Rightarrow> MemoryStorage \<Rightarrow>
    ((storage_err + Entry list) \<times> MemoryStorage) go" where
  "Storage_Entries lo hi maxSize m = Inl (ExplicitPanic ''implement me'')"

definition Storage_Term :: "uint64 \<Rightarrow> MemoryStorage \<Rightarrow> ((storage_err + uint64) \<times> MemoryStorage) go" where
  "Storage_Term i m =
     (let m = m\<lparr>ms_callStats := (ms_callStats m)\<lparr>cs_term := int64 (cs_term (ms_callStats m) + 1)\<rparr>\<rparr> in
      go_bind (go_index (ms_ents m) 0) (\<lambda>e0.
        let offset = eIndex e0 in
        if i < offset then Inr (Inl ErrCompacted, m)
        else if sint (i - offset) \<ge> int (length (ms_ents m)) then Inr (Inl ErrUnavailable, m)
        else go_bind (go_index (ms_ents m) (unat (i - offset))) (\<lambda>e. Inr (Inr (eTerm e), m))))"

definition Storage_lastIndex :: "MemoryStorage \<Rightarrow> uint64 go" where
  "Storage_lastIndex m =
     go_bind (go_index (ms_ents m) 0) (\<lambda>e0. Inr (eIndex e0 + of_nat (length (ms_ents m)) - 1))"

definition Storage_LastIndex :: "MemoryStorage \<Rightarrow> (uint64 \<times> MemoryStorage) go" where
  "Storage_LastIndex m =
     (let m = m\<lparr>ms_callStats := (ms_callStats m)\<lparr>cs_lastIndex := int64 (cs_lastIndex (ms_callStats m) + 1)\<rparr>\<rparr>
      in go_bind (Storage_lastIndex m) (\<lambda>i. Inr (i, m)))"

definition Storage_firstIndex :: "MemoryStorage \<Rightarrow> uint64 go" where
  "Storage_firstIndex m = go_bind (go_index (ms_ents m) 0) (\<lambda>e0. Inr (eIndex e0 + 1))"

definition Storage_FirstIndex :: "MemoryStorage \<Rightarrow> (uint64 \<times> MemoryStorage) go" where
  "Storage_FirstIndex m =
     (let m = m\<lparr>ms_callStats := (ms_callStats m)\<lparr>cs_firstIndex := int64 (cs_firstIndex (ms_callStats m) + 1)\<rparr>\<rparr>
      in go_bind (Storage_firstIndex m) (\<lambda>i. Inr (i, m)))"

definition Storage_Snapshot :: "MemoryStorage \<Rightarrow> Snapshot \<times> MemoryStorage" where
  "Storage_Snapshot m =
     (ms_snapshot m,
      m\<lparr>ms_callStats := (ms_callStats m)\<lparr>cs_snapshot := int64 (cs_snapshot (ms_callStats m) + 1)\<rparr>\<rparr>)"

definition Storage_Append :: "Entry list \<Rightarrow> MemoryStorage \<Rightarrow> MemoryStorage go" where
  "Storage_Append entries ms =
     (if length entries = 0 then Inr ms
      else
        go_bind (Storage_firstIndex ms) (\<lambda>first.
          let last = eIndex (entries ! 0) + of_nat (length entries) - 1 in
          if last < first then Inr ms
          else
            go_bind
              (if first > eIndex (entries ! 0)
               then go_slice entries (unat (first - eIndex (entries ! 0))) (length entries)
               else Inr entries) (\<lambda>entries.
            go_bind (go_index entries 0) (\<lambda>n0.
            go_bind (go_index (ms_ents ms) 0) (\<lambda>e0.
              let offset = eIndex n0 - eIndex e0 in
              if of_nat (length (ms_ents ms)) > offset
              then Inr (ms\<lparr>ms_ents := take (unat offset) (ms_ents ms) @ entries\<rparr>)
              else if of_nat (length (ms_ents ms)) = offset
              then Inr (ms\<lparr>ms_ents := ms_ents ms @ entries\<rparr>)
              else Inl (ExplicitPanic ''missing log entry''))))))"

section \<open>Contiguous runs of entries\<close>

text \<open>Entry \<open>k\<close> of the run has index \<open>b + k\<close>; the indices stay below \<open>2 ^ 63\<close>.\<close>

definition contiguous :: "nat \<Rightarrow> Entry list \<Rightarrow> bool" where
  "contiguous b es \<longleftrightarrow> (\<forall>k < length es. unat (eIndex (es ! k)) = b + k) \<and> b + length es < 2 ^ 63"

lemma contiguous_Nil [simp]: "contiguous b [] \<longleftrightarrow> b < 2 ^ 63"
  by (simp add: contiguous_def)

lemma contiguous_append:
  "contiguous b (xs @ ys) \<longleftrightarrow> contiguous b xs \<and> contiguous (b + length xs) ys"
proof
  assume a: "contiguous b (xs @ ys)"
  have "unat (eIndex (xs ! k)) = b + k" if "k < length xs" for k
    using a that unfolding contiguous_def by (metis length_append nth_append trans_less_add1)
  moreover have "unat (eIndex (ys ! k)) = b + length xs + k" if "k < length ys" for k
    using a that unfolding contiguous_def
    by (metis add.assoc add_less_cancel_left length_append nth_append_length_plus)
  ultimately show "contiguous b xs \<and> contiguous (b + length xs) ys"
    using a by (simp add: contiguous_def)
next
  assume "contiguous b xs \<and> contiguous (b + length xs) ys"
  then show "contiguous b (xs @ ys)"
    unfolding contiguous_def by (auto simp: nth_append)
qed

lemma contiguous_take: "contiguous b xs \<Longrightarrow> contiguous b (take n xs)"
  by (metis append_take_drop_id contiguous_append)

lemma contiguous_drop: "\<lbrakk>contiguous b xs; n \<le> length xs\<rbrakk> \<Longrightarrow> contiguous (b + n) (drop n xs)"
  by (metis append_take_drop_id contiguous_append length_take min.absorb2)

lemma contiguous_nth: "\<lbrakk>contiguous b es; k < length es\<rbrakk> \<Longrightarrow> unat (eIndex (es ! k)) = b + k"
  by (simp add: contiguous_def)

lemma contiguous_Cons: "contiguous b (e # es) \<longleftrightarrow> unat (eIndex e) = b \<and> contiguous (Suc b) es"
  using contiguous_append [of b "[e]" es] by (auto simp: contiguous_def)

lemma contiguous_bound: "contiguous b es \<Longrightarrow> b + length es < 2 ^ 63"
  by (simp add: contiguous_def)

lemma contiguous_index: "\<lbrakk>contiguous b es; k < length es\<rbrakk> \<Longrightarrow> eIndex (es ! k) = of_nat (b + k)"
  by (rule word_eq_of_nat) (rule contiguous_nth)

section \<open>The contract of a log\<close>

locale term_log =
  fixes ok :: "'l \<Rightarrow> bool"
    and base :: "'l \<Rightarrow> nat"
    and items :: "'l \<Rightarrow> Entry list"
    and firstIndex :: "'l \<Rightarrow> uint64 go"
    and lastIndex :: "'l \<Rightarrow> uint64 go"
    and termOf :: "uint64 \<Rightarrow> 'l \<Rightarrow> (storage_err + uint64) go"
  assumes items_ok: "ok l \<Longrightarrow> items l \<noteq> [] \<and> contiguous (base l) (items l)"
    and first_ok: "ok l \<Longrightarrow> firstIndex l = Inr (of_nat (base l + 1))"
    and last_ok: "ok l \<Longrightarrow> lastIndex l = Inr (of_nat (base l + length (items l) - 1))"
    and term_compacted: "\<lbrakk>ok l; unat i < base l\<rbrakk> \<Longrightarrow> termOf i l = Inr (Inl ErrCompacted)"
    and term_present: "\<lbrakk>ok l; base l \<le> unat i; unat i < base l + length (items l)\<rbrakk> \<Longrightarrow>
      termOf i l = Inr (Inr (eTerm (items l ! (unat i - base l))))"
    and term_absent: "\<lbrakk>ok l; base l + length (items l) \<le> unat i; unat i < 2 ^ 63\<rbrakk> \<Longrightarrow>
      termOf i l = Inr (Inl ErrUnavailable)"
begin

lemma term_total: "\<lbrakk>ok l; unat i < 2 ^ 63\<rbrakk> \<Longrightarrow> \<exists>r. termOf i l = Inr r"
  using term_compacted term_present term_absent by (meson not_less)

text \<open>A known term is that of the entry which carries the index.\<close>

lemma term_known:
  assumes "ok l" and "unat i < 2 ^ 63" and "termOf i l = Inr (Inr t)"
  shows "base l \<le> unat i \<and> unat i < base l + length (items l) \<and> eTerm (items l ! (unat i - base l)) = t"
  using assms term_compacted [of l i] term_present [of l i] term_absent [of l i] by fastforce

lemma last_bounds:
  assumes "ok l"
  shows "\<exists>i. lastIndex l = Inr i \<and> unat i = base l + length (items l) - 1 \<and> unat i < 2 ^ 63"
proof -
  have "base l + length (items l) < 2 ^ 63" using items_ok [OF assms] contiguous_bound by blast
  then have "unat (of_nat (base l + length (items l) - 1) :: uint64) = base l + length (items l) - 1"
    by (intro unat_of_nat_small) simp
  then show ?thesis using last_ok [OF assms] \<open>base l + length (items l) < 2 ^ 63\<close> by auto
qed

lemma first_bounds:
  assumes "ok l"
  shows "\<exists>i. firstIndex l = Inr i \<and> unat i = base l + 1 \<and> unat i < 2 ^ 63"
proof -
  have b: "base l + length (items l) < 2 ^ 63" and "0 < length (items l)"
    using items_ok [OF assms] contiguous_bound by auto
  then have "unat (of_nat (base l + 1) :: uint64) = base l + 1" by (intro unat_of_nat_small) simp
  moreover have "base l + 1 < 2 ^ 63" using b \<open>0 < length (items l)\<close> by linarith
  ultimately show ?thesis using first_ok [OF assms] by (metis (no_types))
qed

lemma last_term:
  assumes "ok l" and "lastIndex l = Inr i"
  shows "termOf i l = Inr (Inr (eTerm (last (items l))))"
proof -
  have ne: "items l \<noteq> []" using items_ok [OF assms(1)] by simp
  then have "0 < length (items l)" by simp
  moreover have "unat i = base l + length (items l) - 1"
    using last_bounds [OF assms(1)] assms(2) by auto
  ultimately have "base l \<le> unat i" "unat i < base l + length (items l)"
      "unat i - base l = length (items l) - 1"
    by linarith+
  then show ?thesis using term_present [OF assms(1), of i] ne by (simp add: last_conv_nth)
qed

text \<open>Only the items decide what a log answers.\<close>

lemma term_agree:
  assumes "ok l" and "ok l'" and "items l = items l'" and "base l = base l'" and "unat i < 2 ^ 63"
  shows "termOf i l = termOf i l'"
  using assms term_compacted [of l i] term_compacted [of l' i] term_present [of l i]
    term_present [of l' i] term_absent [of l i] term_absent [of l' i] by (metis not_less)

end

section \<open>MemoryStorage keeps a contiguous run\<close>

definition storage_base :: "MemoryStorage \<Rightarrow> nat" where
  "storage_base m = unat (eIndex (ms_ents m ! 0))"

definition storage_ok :: "MemoryStorage \<Rightarrow> bool" where
  "storage_ok m \<longleftrightarrow> ms_ents m \<noteq> [] \<and> contiguous (storage_base m) (ms_ents m)"

lemma NewMemoryStorage_ok: "storage_ok NewMemoryStorage"
  by (simp add: storage_ok_def storage_base_def NewMemoryStorage_def contiguous_def zeroEntry_def)

lemma storage_last:
  assumes "storage_ok m"
  shows "Storage_lastIndex m = Inr (of_nat (storage_base m + length (ms_ents m) - 1))"
proof -
  have "ms_ents m \<noteq> []" using assms by (simp add: storage_ok_def)
  moreover have "eIndex (ms_ents m ! 0) = of_nat (storage_base m)" by (simp add: storage_base_def)
  moreover have "(of_nat (storage_base m) + of_nat (length (ms_ents m)) - 1 :: uint64) =
      of_nat (storage_base m + length (ms_ents m) - 1)"
    using \<open>ms_ents m \<noteq> []\<close> by (simp add: Suc_le_eq)
  ultimately show ?thesis by (simp add: Storage_lastIndex_def)
qed

lemma storage_first: "storage_ok m \<Longrightarrow> Storage_firstIndex m = Inr (of_nat (storage_base m + 1))"
  by (simp add: Storage_firstIndex_def storage_ok_def storage_base_def add.commute)

interpretation mem: term_log storage_ok storage_base ms_ents Storage_firstIndex Storage_lastIndex
  "\<lambda>i m. go_bind (Storage_Term i m) (\<lambda>r. Inr (fst r))"
proof
  fix m :: MemoryStorage and i :: uint64
  assume ok: "storage_ok m"
  then show "ms_ents m \<noteq> [] \<and> contiguous (storage_base m) (ms_ents m)" by (simp add: storage_ok_def)
  show "Storage_firstIndex m = Inr (of_nat (storage_base m + 1))" using ok by (rule storage_first)
  show "Storage_lastIndex m = Inr (of_nat (storage_base m + length (ms_ents m) - 1))"
    using ok by (rule storage_last)
  have ne: "ms_ents m \<noteq> []" and b: "storage_base m + length (ms_ents m) < 2 ^ 63"
    using ok contiguous_bound by (auto simp: storage_ok_def)
  let ?t = "go_bind (Storage_Term i m) (\<lambda>r. Inr (fst r))"
  have less: "i < eIndex (ms_ents m ! 0) \<longleftrightarrow> unat i < storage_base m"
    by (simp add: storage_base_def word_less_nat_alt)
  show "?t = Inr (Inl ErrCompacted)" if "unat i < storage_base m"
    using that ne by (simp add: Storage_Term_def Let_def less)
  have diff: "unat (i - eIndex (ms_ents m ! 0)) = unat i - storage_base m" if "storage_base m \<le> unat i"
    using that by (simp add: storage_base_def unat_sub_nowrap word_le_nat_alt)
  show "?t = Inr (Inr (eTerm (ms_ents m ! (unat i - storage_base m))))"
    if "storage_base m \<le> unat i" "unat i < storage_base m + length (ms_ents m)"
  proof -
    have "unat (i - eIndex (ms_ents m ! 0)) < 2 ^ 63" using that b by (simp add: diff)
    then have "sint (i - eIndex (ms_ents m ! 0)) = int (unat i - storage_base m)"
      by (simp only: sint_small diff [OF that(1)])
    moreover have "\<not> int (length (ms_ents m)) \<le> int (unat i - storage_base m)"
      unfolding of_nat_le_iff using that by linarith
    ultimately have "\<not> int (length (ms_ents m)) \<le> sint (i - eIndex (ms_ents m ! 0))" by metis
    then show ?thesis
      using that ne by (auto simp: Storage_Term_def Let_def less not_less diff)
  qed
  show "?t = Inr (Inl ErrUnavailable)" if "storage_base m + length (ms_ents m) \<le> unat i" "unat i < 2 ^ 63"
  proof -
    have "unat (i - eIndex (ms_ents m ! 0)) < 2 ^ 63" using that by (simp add: diff)
    then have "sint (i - eIndex (ms_ents m ! 0)) = int (unat i - storage_base m)"
      using that by (simp only: sint_small diff)
    moreover have "int (length (ms_ents m)) \<le> int (unat i - storage_base m)"
      unfolding of_nat_le_iff using that by linarith
    ultimately have "int (length (ms_ents m)) \<le> sint (i - eIndex (ms_ents m ! 0))" by metis
    then show ?thesis
      using that ne by (auto simp: Storage_Term_def Let_def less not_less diff)
  qed
qed

text \<open>
  \<open>Append\<close> of a contiguous run that starts no later than one past the last index: the stored
  entries below the run are kept, those it overlaps are replaced, the compacted part is dropped.
\<close>

lemma Storage_Append_spec:
  assumes ok: "storage_ok m" and run: "contiguous b es" "es \<noteq> []"
    and start: "b \<le> storage_base m + length (ms_ents m)"
    and beyond: "storage_base m < b + length es - 1"
  shows "Storage_Append es m = Inr (m\<lparr>ms_ents :=
     take (max b (storage_base m + 1) - storage_base m) (ms_ents m) @ drop (storage_base m + 1 - b) es\<rparr>)"
proof -
  let ?c = "storage_base m"
  let ?k = "?c + 1 - b"
  let ?es = "drop ?k es"
  have ne: "ms_ents m \<noteq> []" and bound: "?c + length (ms_ents m) < 2 ^ 63"
    using ok contiguous_bound by (auto simp: storage_ok_def)
  have e0: "unat (eIndex (es ! 0)) = b" using run contiguous_nth [of b es 0] by simp
  have f: "unat (of_nat (?c + 1) :: uint64) = ?c + 1" using bound ne by (intro unat_of_nat_small) simp
  have "eIndex (es ! 0) + of_nat (length es) - 1 = of_nat (b + length es - 1)"
    using word_eq_of_nat [OF e0] run(2) by (simp add: Suc_le_eq)
  moreover have "unat (of_nat (b + length es - 1) :: uint64) = b + length es - 1"
    using contiguous_bound [OF run(1)] by (intro unat_of_nat_small) simp
  ultimately have last: "unat (eIndex (es ! 0) + of_nat (length es) - 1) = b + length es - 1" by simp
  have k: "?k < length es" using beyond run(2) by (cases es) auto
  have slice: "(if of_nat (?c + 1) > eIndex (es ! 0)
      then go_slice es (unat (of_nat (?c + 1) - eIndex (es ! 0))) (length es) else Inr es) = Inr ?es"
    using k f e0 by (auto simp: word_less_nat_alt unat_sub_nowrap word_le_nat_alt)
  have n0: "unat (eIndex (?es ! 0)) = max b (?c + 1)"
    using contiguous_nth [OF run(1) k] k by (auto simp: max_def)
  have off: "unat (eIndex (?es ! 0) - eIndex (ms_ents m ! 0)) = max b (?c + 1) - ?c"
    using n0 by (simp add: unat_sub_nowrap word_le_nat_alt storage_base_def)
  have len: "unat (of_nat (length (ms_ents m)) :: uint64) = length (ms_ents m)"
    using bound by (intro unat_of_nat_small) simp
  have le: "max b (?c + 1) - ?c \<le> length (ms_ents m)" using start ne by (cases "ms_ents m") auto
  have notlast: "\<not> eIndex (es ! 0) + of_nat (length es) - 1 < of_nat (?c + 1)"
    using last f beyond by (simp add: word_less_nat_alt)
  have ne': "?es \<noteq> []" using k by simp
  have "Storage_Append es m =
      (if of_nat (length (ms_ents m)) > eIndex (?es ! 0) - eIndex (ms_ents m ! 0)
       then Inr (m\<lparr>ms_ents := take (max b (?c + 1) - ?c) (ms_ents m) @ ?es\<rparr>)
       else if of_nat (length (ms_ents m)) = eIndex (?es ! 0) - eIndex (ms_ents m ! 0)
       then Inr (m\<lparr>ms_ents := ms_ents m @ ?es\<rparr>)
       else Inl (ExplicitPanic ''missing log entry''))"
    unfolding Storage_Append_def storage_first [OF ok] go_bind_simps Let_def slice if_not_P [OF notlast]
    using run(2) ne ne' off by (simp del: One_nat_def)
  then show ?thesis
    using le off len by (auto simp: word_less_nat_alt word_unat_eq_iff)
qed

lemma Storage_Append_ok:
  assumes "storage_ok m" and "contiguous b es" "es \<noteq> []"
    and "b \<le> storage_base m + length (ms_ents m)" and "storage_base m < b + length es - 1"
    and "Storage_Append es m = Inr m'"
  shows "storage_ok m' \<and> storage_base m' = storage_base m"
proof -
  let ?c = "storage_base m" and ?n = "max b (storage_base m + 1)"
  let ?xs = "take (?n - ?c) (ms_ents m)" and ?ys = "drop (?c + 1 - b) es"
  have m': "ms_ents m' = ?xs @ ?ys"
    using Storage_Append_spec [OF assms(1-5)] assms(6) by auto
  have ne: "ms_ents m \<noteq> []" "contiguous ?c (ms_ents m)" using assms(1) by (simp_all add: storage_ok_def)
  have len: "length ?xs = ?n - ?c" using assms(4) ne(1) by (cases "ms_ents m") auto
  then have hd: "?xs \<noteq> []" by auto
  then have base: "storage_base m' = ?c" by (simp add: storage_base_def [of m'] storage_base_def [of m] m' nth_append less_max_iff_disj)
  have "contiguous (b + (?c + 1 - b)) ?ys"
    using assms(2,3,5) by (intro contiguous_drop) (cases es, auto)
  moreover have "?c + length ?xs = b + (?c + 1 - b)" unfolding len by linarith
  ultimately have "contiguous ?c (?xs @ ?ys)"
    unfolding contiguous_append using contiguous_take [OF ne(2)] by (simp only: simp_thms)
  then show ?thesis using hd by (simp add: storage_ok_def m' base)
qed

section \<open>Properties\<close>

text \<open>C21: \<open>MemoryStorage.Append\<close> of a run of entries that leaves no gap and does not lie wholly in the
  compacted part succeeds: what is stored below the run stays, what the run overlaps is replaced,
  its compacted part is dropped, and the storage is a gapless run from the same first entry again.\<close>

theorem storage_append_contract:
  assumes "storage_ok m" and "contiguous b es" and "es \<noteq> []"
    and "b \<le> storage_base m + length (ms_ents m)" and "storage_base m < b + length es - 1"
  shows "\<exists>m'. Storage_Append es m = Inr m' \<and> storage_ok m' \<and> storage_base m' = storage_base m \<and>
    ms_ents m' = take (max b (storage_base m + 1) - storage_base m) (ms_ents m) @
      drop (storage_base m + 1 - b) es \<and>
    ms_hardState m' = ms_hardState m \<and> ms_snapshot m' = ms_snapshot m"
  using Storage_Append_spec [OF assms] Storage_Append_ok [OF assms Storage_Append_spec [OF assms]] by simp

theorem storage_append_contract_witness:
  "\<exists>m'. Storage_Append [zeroEntry\<lparr>eIndex := 1, eTerm := 4\<rparr>] NewMemoryStorage = Inr m' \<and> storage_ok m' \<and>
     ms_ents m' = [zeroEntry, zeroEntry\<lparr>eIndex := 1, eTerm := 4\<rparr>]"
  using storage_append_contract [OF NewMemoryStorage_ok, of 1 "[zeroEntry\<lparr>eIndex := 1, eTerm := 4\<rparr>]"]
  by (auto simp: storage_base_def NewMemoryStorage_def contiguous_def zeroEntry_def)

text \<open>A run that would leave a gap after the last stored entry is refused with a panic; nothing is
  stored.\<close>

theorem storage_append_gap:
  assumes "storage_ok m" and "contiguous b es" and "es \<noteq> []"
    and "storage_base m + length (ms_ents m) < b"
  shows "Storage_Append es m = Inl (ExplicitPanic ''missing log entry'')"
proof -
  let ?c = "storage_base m" and ?n = "length (ms_ents m)"
  have ne: "ms_ents m \<noteq> []" using assms(1) by (simp add: storage_ok_def)
  have e0: "unat (eIndex (es ! 0)) = b" using assms(2,3) contiguous_nth [of b es 0] by simp
  have bnd: "b + length es < 2 ^ 63" using contiguous_bound [OF assms(2)] .
  have first: "unat (of_nat (?c + 1) :: uint64) = ?c + 1" using assms(4) bnd by (intro unat_of_nat_small) simp
  have "eIndex (es ! 0) + of_nat (length es) - 1 = of_nat (b + length es - 1)"
    using word_eq_of_nat [OF e0] assms(3) by (simp add: Suc_le_eq)
  moreover have "unat (of_nat (b + length es - 1) :: uint64) = b + length es - 1"
    using bnd by (intro unat_of_nat_small) simp
  ultimately have last: "unat (eIndex (es ! 0) + of_nat (length es) - 1) = b + length es - 1" by simp
  have "unat (of_nat (?c + 1) :: uint64) \<le> unat (eIndex (es ! 0) + of_nat (length es) - 1)"
    unfolding first last using assms(3,4) by (cases es) auto
  then have notlast: "\<not> eIndex (es ! 0) + of_nat (length es) - 1 < of_nat (?c + 1)"
    by (simp only: word_less_nat_alt not_less)
  have "unat (of_nat (?c + 1) :: uint64) \<le> unat (eIndex (es ! 0))" unfolding first e0 using assms(4) ne
    by (cases "ms_ents m") auto
  then have nocut: "\<not> eIndex (es ! 0) < of_nat (?c + 1)" by (simp only: word_less_nat_alt not_less)
  have off: "unat (eIndex (es ! 0) - eIndex (ms_ents m ! 0)) = b - ?c"
    using e0 assms(4) by (simp add: unat_sub_nowrap word_le_nat_alt storage_base_def)
  have "unat (of_nat ?n :: uint64) = ?n" using assms(4) bnd by (intro unat_of_nat_small) simp
  then have "of_nat ?n < eIndex (es ! 0) - eIndex (ms_ents m ! 0)"
    unfolding word_less_nat_alt off using assms(4) by linarith
  then show ?thesis
    unfolding Storage_Append_def storage_first [OF assms(1)] go_bind_simps Let_def if_not_P [OF notlast]
      if_not_P [OF nocut]
    using ne assms(3) less_imp_neq order_less_not_sym by (auto simp del: of_nat_add of_nat_Suc)
qed

theorem storage_append_gap_witness:
  "Storage_Append [zeroEntry\<lparr>eIndex := 2\<rparr>] NewMemoryStorage = Inl (ExplicitPanic ''missing log entry'')"
  by (rule storage_append_gap [OF NewMemoryStorage_ok, of 2])
    (simp_all add: storage_base_def NewMemoryStorage_def contiguous_def zeroEntry_def)

end
