(* ===== verification/Core_Log.thy ===== *)
theory Core_Log
  imports Core_Storage
begin

text \<open>
  \<open>src/raft/core/log_unstable.go\<close> and \<open>src/raft/core/log.go\<close>: the log of a raft node, a stable part in
  storage followed by the unstable entries.

  \<open>Storage\<close> is an interface of which the repository has one implementation, \<open>MemoryStorage\<close>; the
  field holds its value.  Its readers also count their calls; the counters are read by nothing,
  so the readers of the log drop the storage they return.  Logging is not modelled, but the
  calls made to compute what is logged are, because they can panic.

  The theory's second half relates the log to one contiguous list of entries, \<open>log_items\<close>: the
  log answers \<open>term\<close> as that list does (it satisfies the contract \<open>term_log\<close>), \<open>append\<close>
  replaces a suffix of the list, and \<open>maybeAppend\<close> is Raft's follower rule on it.
\<close>

section \<open>The unstable part\<close>

record unstable =
  u_snapshot :: "Snapshot option"
  u_entries :: "Entry list"
  u_offset :: uint64
  u_snapshotInProgress :: bool
  u_offsetInProgress :: uint64

definition maybeFirstIndex :: "unstable \<Rightarrow> uint64 option" where
  "maybeFirstIndex u = (case u_snapshot u of Some s \<Rightarrow> Some (smIndex (sMetadata s) + 1) | None \<Rightarrow> None)"

definition maybeLastIndex :: "unstable \<Rightarrow> uint64 option" where
  "maybeLastIndex u =
     (let l = length (u_entries u) in
      if l \<noteq> 0 then Some (u_offset u + of_nat l - 1)
      else (case u_snapshot u of Some s \<Rightarrow> Some (smIndex (sMetadata s)) | None \<Rightarrow> None))"

definition maybeTerm :: "uint64 \<Rightarrow> unstable \<Rightarrow> uint64 option go" where
  "maybeTerm i u =
     (if i < u_offset u then
        (case u_snapshot u of
           Some s \<Rightarrow> Inr (if smIndex (sMetadata s) = i then Some (smTerm (sMetadata s)) else None)
         | None \<Rightarrow> Inr None)
      else
        (case maybeLastIndex u of
           None \<Rightarrow> Inr None
         | Some lasti \<Rightarrow>
             if i > lasti then Inr None
             else go_bind (go_index (u_entries u) (unat (i - u_offset u))) (\<lambda>e. Inr (Some (eTerm e)))))"

definition nextEntries :: "unstable \<Rightarrow> Entry list go" where
  "nextEntries u =
     (let inProgress = sint (u_offsetInProgress u - u_offset u) in
      if int (length (u_entries u)) = inProgress then Inr []
      else if inProgress < 0 then Inl SliceBounds
      else go_slice (u_entries u) (nat inProgress) (length (u_entries u)))"

definition unstable_mustCheckOutOfBounds :: "uint64 \<Rightarrow> uint64 \<Rightarrow> unstable \<Rightarrow> unit go" where
  "unstable_mustCheckOutOfBounds lo hi u =
     (if lo > hi then Inl (ExplicitPanic ''invalid unstable.slice'')
      else (let upper = u_offset u + of_nat (length (u_entries u)) in
        if lo < u_offset u \<or> hi > upper then Inl (ExplicitPanic ''unstable.slice out of bound'')
        else Inr ()))"

definition unstable_slice :: "uint64 \<Rightarrow> uint64 \<Rightarrow> unstable \<Rightarrow> Entry list go" where
  "unstable_slice lo hi u =
     go_bind (unstable_mustCheckOutOfBounds lo hi u) (\<lambda>_.
       go_slice (u_entries u) (unat (lo - u_offset u)) (unat (hi - u_offset u)))"

definition truncateAndAppend :: "Entry list \<Rightarrow> unstable \<Rightarrow> unstable go" where
  "truncateAndAppend ents u =
     go_bind (go_index ents 0) (\<lambda>e0.
       let fromIndex = eIndex e0 in
       if fromIndex = u_offset u + of_nat (length (u_entries u))
       then Inr (u\<lparr>u_entries := u_entries u @ ents\<rparr>)
       else if fromIndex \<le> u_offset u
       then Inr (u\<lparr>u_entries := ents, u_offset := fromIndex, u_offsetInProgress := fromIndex\<rparr>)
       else go_bind (unstable_slice (u_offset u) fromIndex u) (\<lambda>keep.
         Inr (u\<lparr>u_entries := keep @ ents,
                u_offsetInProgress := min (u_offsetInProgress u) fromIndex\<rparr>)))"

section \<open>The log\<close>

record raftLog =
  l_storage :: MemoryStorage
  l_unstable :: unstable
  l_committed :: uint64
  l_applying :: uint64
  l_applied :: uint64
  l_maxApplyingEntsSize :: uint64
  l_applyingEntsSize :: uint64
  l_applyingEntsPaused :: bool

definition newLogWithSize :: "MemoryStorage option \<Rightarrow> uint64 \<Rightarrow> raftLog go" where
  "newLogWithSize st maxApplyingEntsSize =
     (case st of
        None \<Rightarrow> Inl (ExplicitPanic ''storage must not be nil'')
      | Some st \<Rightarrow>
          go_bind (Storage_FirstIndex st) (\<lambda>(firstIndex, st).
          go_bind (Storage_LastIndex st) (\<lambda>(lastIndex, st).
            Inr \<lparr>l_storage = st,
                 l_unstable = \<lparr>u_snapshot = None, u_entries = [], u_offset = lastIndex + 1,
                   u_snapshotInProgress = False, u_offsetInProgress = lastIndex + 1\<rparr>,
                 l_committed = firstIndex - 1, l_applying = firstIndex - 1,
                 l_applied = firstIndex - 1, l_maxApplyingEntsSize = maxApplyingEntsSize,
                 l_applyingEntsSize = 0, l_applyingEntsPaused = False\<rparr>)))"

definition log_firstIndex :: "raftLog \<Rightarrow> uint64 go" where
  "log_firstIndex l =
     (case maybeFirstIndex (l_unstable l) of
        Some i \<Rightarrow> Inr i
      | None \<Rightarrow> go_bind (Storage_FirstIndex (l_storage l)) (\<lambda>(i, _). Inr i))"

definition log_lastIndex :: "raftLog \<Rightarrow> uint64 go" where
  "log_lastIndex l =
     (case maybeLastIndex (l_unstable l) of
        Some i \<Rightarrow> Inr i
      | None \<Rightarrow> go_bind (Storage_LastIndex (l_storage l)) (\<lambda>(i, _). Inr i))"

definition log_term :: "uint64 \<Rightarrow> raftLog \<Rightarrow> (storage_err + uint64) go" where
  "log_term i l =
     go_bind (maybeTerm i (l_unstable l)) (\<lambda>r. case r of
         Some t \<Rightarrow> Inr (Inr t)
       | None \<Rightarrow>
           go_bind (log_firstIndex l) (\<lambda>first.
             if i + 1 < first then Inr (Inl ErrCompacted)
             else go_bind (log_lastIndex l) (\<lambda>last.
               if i > last then Inr (Inl ErrUnavailable)
               else go_bind (Storage_Term i (l_storage l)) (\<lambda>(t, _). case t of
                   Inr t \<Rightarrow> Inr (Inr t)
                 | Inl e \<Rightarrow> if e = ErrCompacted \<or> e = ErrUnavailable then Inr (Inl e)
                     else Inl (ExplicitPanic ''storage error'')))))"

definition zeroTermOnOutOfBounds :: "storage_err + uint64 \<Rightarrow> uint64 go" where
  "zeroTermOnOutOfBounds r =
     (case r of
        Inr t \<Rightarrow> Inr t
      | Inl e \<Rightarrow> if e = ErrCompacted \<or> e = ErrUnavailable then Inr 0
          else Inl (ExplicitPanic ''unexpected error''))"

definition matchTerm :: "uint64 \<Rightarrow> uint64 \<Rightarrow> raftLog \<Rightarrow> bool go" where
  "matchTerm i term l =
     go_bind (log_term i l) (\<lambda>r. Inr (case r of Inl _ \<Rightarrow> False | Inr t \<Rightarrow> t = term))"

definition lastTerm :: "raftLog \<Rightarrow> uint64 go" where
  "lastTerm l =
     go_bind (log_lastIndex l) (\<lambda>i.
     go_bind (log_term i l) (\<lambda>r. case r of
         Inl e \<Rightarrow> Inl (ExplicitPanic ''unexpected error when getting the last term'')
       | Inr t \<Rightarrow> Inr t))"

definition isUpToDate :: "uint64 \<Rightarrow> uint64 \<Rightarrow> raftLog \<Rightarrow> bool go" where
  "isUpToDate lasti term l =
     go_bind (lastTerm l) (\<lambda>t.
       if term > t then Inr True
       else go_bind (lastTerm l) (\<lambda>t.
         if term = t then go_bind (log_lastIndex l) (\<lambda>last. Inr (lasti \<ge> last)) else Inr False))"

definition commitTo :: "uint64 \<Rightarrow> raftLog \<Rightarrow> raftLog go" where
  "commitTo tocommit l =
     (if l_committed l < tocommit then
        go_bind (log_lastIndex l) (\<lambda>last.
          if last < tocommit then Inl (ExplicitPanic ''tocommit is out of range'')
          else Inr (l\<lparr>l_committed := tocommit\<rparr>))
      else Inr l)"

definition maybeCommit :: "uint64 \<Rightarrow> uint64 \<Rightarrow> raftLog \<Rightarrow> (raftLog \<times> bool) go" where
  "maybeCommit maxIndex term l =
     (if maxIndex > l_committed l \<and> term \<noteq> 0 then
        go_bind (log_term maxIndex l) (\<lambda>r.
        go_bind (zeroTermOnOutOfBounds r) (\<lambda>t.
          if t = term then go_bind (commitTo maxIndex l) (\<lambda>l. Inr (l, True)) else Inr (l, False)))
      else Inr (l, False))"

text \<open>A conflict below the last index is logged with the existing term.\<close>

fun findConflict :: "Entry list \<Rightarrow> raftLog \<Rightarrow> uint64 go" where
  "findConflict [] l = Inr 0"
| "findConflict (ne # ents) l =
     go_bind (matchTerm (eIndex ne) (eTerm ne) l) (\<lambda>m.
       if m then findConflict ents l
       else go_bind (log_lastIndex l) (\<lambda>last.
         if eIndex ne \<le> last then
           go_bind (log_term (eIndex ne) l) (\<lambda>r.
           go_bind (zeroTermOnOutOfBounds r) (\<lambda>_. Inr (eIndex ne)))
         else Inr (eIndex ne)))"

function findConflictByTerm :: "uint64 \<Rightarrow> uint64 \<Rightarrow> raftLog \<Rightarrow> (uint64 \<times> uint64) go" where
  "findConflictByTerm index term l =
     (if index > 0 then
        go_bind (log_term index l) (\<lambda>r. case r of
            Inl _ \<Rightarrow> Inr (index, 0)
          | Inr ourTerm \<Rightarrow>
              if ourTerm \<le> term then Inr (index, ourTerm)
              else findConflictByTerm (index - 1) term l)
      else Inr (0, 0))"
  by pat_completeness auto
termination
  by (relation "measure (\<lambda>(index, _). unat index)") (auto simp: unat_gt_0 measure_unat)

declare findConflictByTerm.simps [simp del]

definition log_append :: "Entry list \<Rightarrow> raftLog \<Rightarrow> (raftLog \<times> uint64) go" where
  "log_append ents l =
     (if length ents = 0 then go_bind (log_lastIndex l) (\<lambda>i. Inr (l, i))
      else if eIndex (ents ! 0) - 1 < l_committed l then Inl (ExplicitPanic ''after is out of range'')
      else go_bind (truncateAndAppend ents (l_unstable l)) (\<lambda>u.
        let l = l\<lparr>l_unstable := u\<rparr> in go_bind (log_lastIndex l) (\<lambda>i. Inr (l, i))))"

text \<open>The result is \<open>None\<close> when \<open>maybeAppend\<close> answers \<open>(0, false)\<close>.\<close>

definition maybeAppend :: "uint64 \<Rightarrow> uint64 \<Rightarrow> uint64 \<Rightarrow> Entry list \<Rightarrow> raftLog \<Rightarrow>
    (raftLog \<times> uint64 option) go" where
  "maybeAppend index logTerm committed ents l =
     go_bind (matchTerm index logTerm l) (\<lambda>m.
       if \<not> m then Inr (l, None)
       else
         (let lastnewi = index + of_nat (length ents) in
          go_bind (findConflict ents l) (\<lambda>ci.
          go_bind
            (if ci = 0 then Inr l
             else if ci \<le> l_committed l then Inl (ExplicitPanic ''entry conflict with committed entry'')
             else
               (let offset = index + 1 in
                if ci - offset > of_nat (length ents) then Inl (ExplicitPanic ''index is out of range'')
                else go_bind (go_slice ents (unat (ci - offset)) (length ents)) (\<lambda>ents.
                  go_bind (log_append ents l) (\<lambda>(l, _). Inr l))))
            (\<lambda>l. go_bind (commitTo (min committed lastnewi) l) (\<lambda>l. Inr (l, Some lastnewi))))))"

definition log_mustCheckOutOfBounds :: "uint64 \<Rightarrow> uint64 \<Rightarrow> raftLog \<Rightarrow> storage_err option go" where
  "log_mustCheckOutOfBounds lo hi l =
     (if lo > hi then Inl (ExplicitPanic ''slice with invalid lower-upper bound'')
      else go_bind (log_firstIndex l) (\<lambda>fi.
        if lo < fi then Inr (Some ErrCompacted)
        else go_bind (log_lastIndex l) (\<lambda>last.
          let len = last + 1 - fi in
          if hi > fi + len then Inl (ExplicitPanic ''slice out of bound'') else Inr None)))"

definition log_slice :: "uint64 \<Rightarrow> uint64 \<Rightarrow> uint64 \<Rightarrow> raftLog \<Rightarrow> (storage_err + Entry list) go" where
  "log_slice lo hi maxSize l =
     go_bind (log_mustCheckOutOfBounds lo hi l) (\<lambda>err. case err of
         Some e \<Rightarrow> Inr (Inl e)
       | None \<Rightarrow>
           if lo = hi then Inr (Inr [])
           else if lo \<ge> u_offset (l_unstable l) then
             go_bind (unstable_slice lo hi (l_unstable l)) (\<lambda>ents. Inr (Inr (limitSize ents maxSize)))
           else
             (let cut = min hi (u_offset (l_unstable l)) in
              go_bind (Storage_Entries lo cut maxSize (l_storage l)) (\<lambda>(r, _). case r of
                  Inl e \<Rightarrow>
                    if e = ErrCompacted then Inr (Inl e)
                    else if e = ErrUnavailable then Inl (ExplicitPanic ''entries is unavailable from storage'')
                    else Inl (ExplicitPanic ''storage error'')
                | Inr ents \<Rightarrow>
                    if hi \<le> u_offset (l_unstable l) then Inr (Inr ents)
                    else if of_nat (length ents) < cut - lo then Inr (Inr ents)
                    else
                      (let sz = entsSize ents in
                       if sz \<ge> maxSize then Inr (Inr ents)
                       else go_bind (unstable_slice (u_offset (l_unstable l)) hi (l_unstable l)) (\<lambda>us.
                         let us = limitSize us (maxSize - sz) in
                         if length us = 1 \<and> sz + entsSize us > maxSize then Inr (Inr ents)
                         else Inr (Inr (Core_Util.extend (length ents) ents us)))))))"

definition log_entries :: "uint64 \<Rightarrow> uint64 \<Rightarrow> raftLog \<Rightarrow> (storage_err + Entry list) go" where
  "log_entries i maxSize l =
     go_bind (log_lastIndex l) (\<lambda>last.
       if i > last then Inr (Inr [])
       else log_slice i (last + 1) maxSize l)"

definition noLimit :: uint64 where
  "noLimit = - 1"

definition allEntries :: "raftLog \<Rightarrow> Entry list go" where
  "allEntries l =
     go_bind (log_firstIndex l) (\<lambda>i.
     go_bind (log_entries i noLimit l) (\<lambda>r. case r of
         Inr es \<Rightarrow> Inr es
       | Inl e \<Rightarrow> Inl (ExplicitPanic ''storage error'')))"

definition nextUnstableEnts :: "raftLog \<Rightarrow> Entry list go" where
  "nextUnstableEnts l = nextEntries (l_unstable l)"

definition hasNextUnstableEnts :: "raftLog \<Rightarrow> bool go" where
  "hasNextUnstableEnts l = go_bind (nextUnstableEnts l) (\<lambda>es. Inr (length es > 0))"

definition hasNextOrInProgressUnstableEnts :: "raftLog \<Rightarrow> bool" where
  "hasNextOrInProgressUnstableEnts l = (length (u_entries (l_unstable l)) > 0)"

definition maxAppliableIndex :: "bool \<Rightarrow> raftLog \<Rightarrow> uint64" where
  "maxAppliableIndex allowUnstable l =
     (let hi = l_committed l in
      if \<not> allowUnstable then min hi (u_offset (l_unstable l) - 1) else hi)"

definition nextCommittedEnts :: "bool \<Rightarrow> raftLog \<Rightarrow> Entry list go" where
  "nextCommittedEnts allowUnstable l =
     (if l_applyingEntsPaused l then Inr []
      else
        (let lo = l_applying l + 1; hi = maxAppliableIndex allowUnstable l + 1 in
         if lo \<ge> hi then Inr []
         else
           (let maxSize = l_maxApplyingEntsSize l - l_applyingEntsSize l in
            if maxSize \<le> 0 then Inl (ExplicitPanic ''applying entry size not positive'')
            else go_bind (log_slice lo hi maxSize l) (\<lambda>r. case r of
                Inl e \<Rightarrow> Inl (ExplicitPanic ''unexpected error when getting unapplied entries'')
              | Inr ents \<Rightarrow> Inr ents))))"

definition log_String :: "raftLog \<Rightarrow> string" where
  "log_String l =
     ''committed='' @ decimal (unat (l_committed l)) @ '', applied='' @ decimal (unat (l_applied l)) @
     '', applying='' @ decimal (unat (l_applying l)) @
     '', unstable.offset='' @ decimal (unat (u_offset (l_unstable l))) @
     '', unstable.offsetInProgress='' @ decimal (unat (u_offsetInProgress (l_unstable l))) @
     '', len(unstable.Entries)='' @ decimal (length (u_entries (l_unstable l)))"

section \<open>The log as one list of entries\<close>

definition log_base :: "raftLog \<Rightarrow> nat" where
  "log_base l = storage_base (l_storage l)"

definition log_items :: "raftLog \<Rightarrow> Entry list" where
  "log_items l =
     take (unat (u_offset (l_unstable l)) - log_base l) (ms_ents (l_storage l)) @ u_entries (l_unstable l)"

text \<open>The shape of a log without a pending snapshot: the unstable entries continue the stored ones
  at \<open>offset\<close>, and when there are none, nothing stored is hidden.\<close>

definition log_shape :: "raftLog \<Rightarrow> bool" where
  "log_shape l \<longleftrightarrow>
     (let u = l_unstable l; o' = unat (u_offset u); top = log_base l + length (ms_ents (l_storage l)) in
      storage_ok (l_storage l) \<and> u_snapshot u = None \<and> log_base l < o' \<and> o' \<le> top \<and>
      (u_entries u = [] \<longrightarrow> o' = top) \<and> contiguous o' (u_entries u) \<and>
      u_offset u \<le> u_offsetInProgress u \<and> unat (u_offsetInProgress u) \<le> o' + length (u_entries u))"

text \<open>The marks: what is applied was committed, and what is committed is in the log.\<close>

definition log_ok :: "raftLog \<Rightarrow> bool" where
  "log_ok l \<longleftrightarrow> log_shape l \<and> log_base l \<le> unat (l_applied l) \<and> l_applied l \<le> l_applying l \<and>
     l_applying l \<le> l_committed l \<and> unat (l_committed l) < log_base l + length (log_items l)"

lemma log_okD: "log_ok l \<Longrightarrow> log_shape l"
  by (simp add: log_ok_def)

lemma log_shapeD:
  assumes "log_shape l"
  shows "storage_ok (l_storage l)" "u_snapshot (l_unstable l) = None"
    "log_base l < unat (u_offset (l_unstable l))"
    "unat (u_offset (l_unstable l)) \<le> log_base l + length (ms_ents (l_storage l))"
    "u_entries (l_unstable l) = [] \<Longrightarrow>
       unat (u_offset (l_unstable l)) = log_base l + length (ms_ents (l_storage l))"
    "contiguous (unat (u_offset (l_unstable l))) (u_entries (l_unstable l))"
    "u_offset (l_unstable l) \<le> u_offsetInProgress (l_unstable l)"
    "unat (u_offsetInProgress (l_unstable l)) \<le>
       unat (u_offset (l_unstable l)) + length (u_entries (l_unstable l))"
    "contiguous (log_base l) (ms_ents (l_storage l))"
  using assms by (simp_all add: log_shape_def Let_def storage_ok_def log_base_def)

lemma length_log_items:
  "log_shape l \<Longrightarrow> log_base l + length (log_items l) =
     unat (u_offset (l_unstable l)) + length (u_entries (l_unstable l))"
  using log_shapeD(3,4) [of l] by (simp add: log_items_def)

lemma log_items_run:
  assumes "log_shape l"
  shows "log_items l \<noteq> [] \<and> contiguous (log_base l) (log_items l)"
proof -
  let ?n = "unat (u_offset (l_unstable l)) - log_base l"
  have len: "length (take ?n (ms_ents (l_storage l))) = ?n"
    using log_shapeD(4) [OF assms] by simp
  have "contiguous (log_base l + ?n) (u_entries (l_unstable l))"
    using log_shapeD(3,6) [OF assms] by simp
  then have "contiguous (log_base l) (log_items l)"
    unfolding log_items_def contiguous_append len
    using contiguous_take [OF log_shapeD(9) [OF assms]] by blast
  moreover have "log_items l \<noteq> []"
    using log_shapeD(3,4) [OF assms] by (auto simp: log_items_def)
  ultimately show ?thesis by blast
qed

lemma maybeFirstIndex_None: "log_shape l \<Longrightarrow> maybeFirstIndex (l_unstable l) = None"
  by (simp add: maybeFirstIndex_def log_shapeD)

lemma maybeLastIndex_shape:
  assumes "log_shape l"
  shows "maybeLastIndex (l_unstable l) =
    (if u_entries (l_unstable l) = [] then None else Some (of_nat (log_base l + length (log_items l) - 1)))"
proof (cases "u_entries (l_unstable l) = []")
  case True
  then show ?thesis by (simp add: maybeLastIndex_def log_shapeD [OF assms])
next
  case False
  let ?u = "l_unstable l"
  have "(of_nat (unat (u_offset ?u) + length (u_entries ?u) - 1) :: uint64) =
      u_offset ?u + of_nat (length (u_entries ?u)) - 1"
    using False by (subst of_nat_diff) (auto simp: Suc_le_eq)
  then show ?thesis
    unfolding length_log_items [OF assms] using False by (simp add: maybeLastIndex_def Let_def del: of_nat_diff)
qed

lemma log_first: "log_shape l \<Longrightarrow> log_firstIndex l = Inr (of_nat (log_base l + 1))"
  by (simp add: log_firstIndex_def maybeFirstIndex_None Storage_FirstIndex_def Let_def
      storage_first storage_ok_def storage_base_def Storage_firstIndex_def log_base_def
      log_shape_def)

lemma log_last:
  assumes "log_shape l"
  shows "log_lastIndex l = Inr (of_nat (log_base l + length (log_items l) - 1))"
proof (cases "u_entries (l_unstable l) = []")
  case True
  have s: "storage_ok (l_storage l)" using assms by (rule log_shapeD)
  have "length (log_items l) = length (ms_ents (l_storage l))"
    using True log_shapeD(5) [OF assms True] by (simp add: log_items_def)
  then show ?thesis
    using True storage_last [OF s] unfolding log_lastIndex_def maybeLastIndex_shape [OF assms]
    by (simp add: Storage_LastIndex_def Storage_lastIndex_def Let_def log_base_def)
next
  case False
  then show ?thesis by (simp add: log_lastIndex_def maybeLastIndex_shape [OF assms])
qed

lemma maybeTerm_shape:
  assumes "log_shape l"
  shows "maybeTerm i (l_unstable l) = Inr
    (if u_offset (l_unstable l) \<le> i \<and> unat i < log_base l + length (log_items l)
     then Some (eTerm (log_items l ! (unat i - log_base l))) else None)"
proof -
  let ?u = "l_unstable l" and ?n = "log_base l + length (log_items l)"
  have n: "?n = unat (u_offset ?u) + length (u_entries ?u)" by (rule length_log_items [OF assms])
  have b: "?n < 2 ^ 63" using log_items_run [OF assms] contiguous_bound by blast
  show ?thesis
  proof (cases "i < u_offset ?u")
    case True
    then have "\<not> u_offset ?u \<le> i" by simp
    with True show ?thesis by (simp add: maybeTerm_def log_shapeD [OF assms])
  next
    case False
    then have o: "unat (u_offset ?u) \<le> unat i" by (simp add: word_le_nat_alt not_less)
    show ?thesis
    proof (cases "u_entries ?u = []")
      case True
      then show ?thesis
        using False o n by (simp add: maybeTerm_def maybeLastIndex_shape [OF assms])
    next
      case ne: False
      have "unat (of_nat (?n - 1) :: uint64) = ?n - 1" using b by (intro unat_of_nat_small) simp
      moreover have "0 < ?n" using ne n by simp
      ultimately have gt: "of_nat (?n - 1) < i \<longleftrightarrow> ?n \<le> unat i"
        unfolding word_less_nat_alt by linarith
      have "log_items l ! (unat i - log_base l) = u_entries ?u ! unat (i - u_offset ?u)"
        if "unat i < ?n"
        using o log_shapeD(3,4) [OF assms]
        by (simp add: log_items_def nth_append unat_sub_nowrap word_le_nat_alt)
      moreover have "unat (i - u_offset ?u) < length (u_entries ?u)" if "unat i < ?n"
        using o that n by (simp add: unat_sub_nowrap word_le_nat_alt)
      ultimately show ?thesis
        using False ne gt by (auto simp: maybeTerm_def maybeLastIndex_shape [OF assms])
    qed
  qed
qed

text \<open>The node's log satisfies the contract of a log.\<close>

interpretation rlog: term_log log_shape log_base log_items log_firstIndex log_lastIndex log_term
proof
  fix l :: raftLog and i :: uint64
  assume ok: "log_shape l"
  show "log_items l \<noteq> [] \<and> contiguous (log_base l) (log_items l)" using ok by (rule log_items_run)
  show "log_firstIndex l = Inr (of_nat (log_base l + 1))" using ok by (rule log_first)
  show "log_lastIndex l = Inr (of_nat (log_base l + length (log_items l) - 1))" using ok by (rule log_last)
  let ?o = "u_offset (l_unstable l)" and ?n = "log_base l + length (log_items l)"
  have b: "?n < 2 ^ 63" using log_items_run [OF ok] contiguous_bound by blast
  have n0: "log_base l < ?n" using log_items_run [OF ok] by simp
  have uf: "unat (of_nat (log_base l + 1) :: uint64) = log_base l + 1"
    using b n0 by (intro unat_of_nat_small) simp
  have ul: "unat (of_nat (?n - 1) :: uint64) = ?n - 1" using b by (intro unat_of_nat_small) simp
  have suc: "i + 1 < of_nat (log_base l + 1) \<longleftrightarrow> unat i < log_base l" if "unat i < 2 ^ 63"
  proof -
    have "unat (i + 1) = unat i + 1" using that by (subst unat_add_nowrap) simp_all
    then show ?thesis unfolding word_less_nat_alt uf by simp
  qed
  have gt: "of_nat (?n - 1) < i \<longleftrightarrow> ?n \<le> unat i" unfolding word_less_nat_alt ul using n0 by linarith
  have st: "storage_ok (l_storage l)" using ok by (rule log_shapeD)
  show "log_term i l = Inr (Inl ErrCompacted)" if "unat i < log_base l"
  proof -
    have "\<not> ?o \<le> i" using that log_shapeD(3) [OF ok] by (simp add: word_le_nat_alt)
    moreover have "unat i < 2 ^ 63" using that b n0 by simp
    ultimately show ?thesis
      using that suc by (simp add: log_term_def maybeTerm_shape [OF ok] log_first [OF ok] del: of_nat_add of_nat_Suc)
  qed
  show "log_term i l = Inr (Inr (eTerm (log_items l ! (unat i - log_base l))))"
    if "log_base l \<le> unat i" "unat i < ?n"
  proof (cases "?o \<le> i")
    case True
    then show ?thesis using that by (simp add: log_term_def maybeTerm_shape [OF ok])
  next
    case False
    have lt: "unat i < unat ?o" using False by (simp add: word_le_nat_alt)
    have "go_bind (Storage_Term i (l_storage l)) (\<lambda>r. Inr (fst r)) =
        Inr (Inr (eTerm (ms_ents (l_storage l) ! (unat i - log_base l))))"
      using mem.term_present [OF st, of i] that(1) lt log_shapeD(4) [OF ok] by (simp add: log_base_def)
    then obtain m where "Storage_Term i (l_storage l) =
        Inr (Inr (eTerm (ms_ents (l_storage l) ! (unat i - log_base l))), m)" by auto
    moreover have "log_items l ! (unat i - log_base l) = ms_ents (l_storage l) ! (unat i - log_base l)"
      using lt that(1) log_shapeD(4) [OF ok] by (simp add: log_items_def nth_append)
    moreover have "unat i < 2 ^ 63" using that b by simp
    ultimately show ?thesis
      using False that suc gt
      by (simp add: log_term_def maybeTerm_shape [OF ok] log_first [OF ok] log_last [OF ok]
          del: of_nat_add of_nat_Suc of_nat_diff)
  qed
  show "log_term i l = Inr (Inl ErrUnavailable)" if "?n \<le> unat i" "unat i < 2 ^ 63"
    using that suc gt n0
    by (simp add: log_term_def maybeTerm_shape [OF ok] log_first [OF ok] log_last [OF ok]
        del: of_nat_add of_nat_Suc of_nat_diff)
qed

section \<open>Appending\<close>

text \<open>Replacing the items from index \<open>b\<close> on by a run that starts there.\<close>

definition put_items :: "nat \<Rightarrow> Entry list \<Rightarrow> raftLog \<Rightarrow> Entry list" where
  "put_items b es l = take (b - log_base l) (log_items l) @ es"

lemma go_slice_prefix: "n \<le> length xs \<Longrightarrow> go_slice xs 0 n = Inr (take n xs)"
  by simp

lemma truncateAndAppend_spec:
  assumes ok: "log_shape l" and run: "contiguous b es" "es \<noteq> []"
    and lo: "log_base l < b" and hi: "b \<le> log_base l + length (log_items l)"
  shows "\<exists>u. truncateAndAppend es (l_unstable l) = Inr u \<and> log_shape (l\<lparr>l_unstable := u\<rparr>) \<and>
    log_items (l\<lparr>l_unstable := u\<rparr>) = put_items b es l"
proof -
  let ?u = "l_unstable l" and ?c = "log_base l"
  let ?o = "unat (u_offset ?u)" and ?p = "unat (u_offsetInProgress ?u)" and ?len = "length (u_entries ?u)"
  note sh = log_shapeD [OF ok]
  have n: "?c + length (log_items l) = ?o + ?len" by (rule length_log_items [OF ok])
  have e0: "unat (eIndex (es ! 0)) = b" using run contiguous_nth [of b es 0] by simp
  have bnd: "?o + ?len < 2 ^ 63" using sh(6) contiguous_bound by blast
  have top: "unat (u_offset ?u + of_nat ?len) = ?o + ?len"
  proof -
    have "unat (of_nat ?len :: uint64) = ?len" using bnd by (intro unat_of_nat_small) simp
    then show ?thesis using bnd by (subst unat_add_nowrap) simp_all
  qed
  have idx: "go_index es 0 = Inr (es ! 0)" using run(2) by simp
  have len: "length (take (?o - ?c) (ms_ents (l_storage l))) = ?o - ?c" using sh(4) by simp
  have base: "log_base (l\<lparr>l_unstable := u\<rparr>) = ?c" for u by (simp add: log_base_def)
  consider (append) "b = ?o + ?len" | (replace) "b \<noteq> ?o + ?len" "b \<le> ?o" | (cut) "?o < b" "b < ?o + ?len"
    using hi n by linarith
  then show ?thesis
  proof cases
    case append
    let ?u' = "?u\<lparr>u_entries := u_entries ?u @ es\<rparr>"
    have "eIndex (es ! 0) = u_offset ?u + of_nat ?len"
      using e0 top append by (simp add: word_unat_eq_iff)
    then have "truncateAndAppend es ?u = Inr ?u'" by (simp add: truncateAndAppend_def idx)
    moreover have "contiguous ?o (u_entries ?u @ es)"
      unfolding contiguous_append using sh(6) run(1) append by simp
    then have "log_shape (l\<lparr>l_unstable := ?u'\<rparr>)"
      using sh run(2) by (simp add: log_shape_def Let_def base del: of_nat_add)
    moreover have "log_items (l\<lparr>l_unstable := ?u'\<rparr>) = put_items b es l"
    proof -
      have "length (log_items l) = b - ?c" using n append by simp
      then have "put_items b es l = log_items l @ es" by (simp add: put_items_def)
      then show ?thesis by (simp add: log_items_def base)
    qed
    ultimately show ?thesis by blast
  next
    case replace
    let ?u' = "?u\<lparr>u_entries := es, u_offset := eIndex (es ! 0), u_offsetInProgress := eIndex (es ! 0)\<rparr>"
    have "eIndex (es ! 0) \<noteq> u_offset ?u + of_nat ?len" using e0 top replace(1) by auto
    then have "truncateAndAppend es ?u = Inr ?u'"
      using e0 replace(2) by (simp add: truncateAndAppend_def idx Let_def word_le_nat_alt)
    moreover have "log_shape (l\<lparr>l_unstable := ?u'\<rparr>)"
      using sh run lo e0 replace(2) by (simp add: log_shape_def Let_def base)
    moreover have "log_items (l\<lparr>l_unstable := ?u'\<rparr>) = put_items b es l"
    proof -
      have "take (b - ?c) (log_items l) = take (b - ?c) (ms_ents (l_storage l))"
        using replace(2) sh(4) by (simp add: log_items_def)
      then show ?thesis using e0 by (simp add: log_items_def put_items_def base)
    qed
    ultimately show ?thesis by blast
  next
    case cut
    let ?m = "min (u_offsetInProgress ?u) (eIndex (es ! 0))"
    let ?u' = "?u\<lparr>u_entries := take (b - ?o) (u_entries ?u) @ es, u_offsetInProgress := ?m\<rparr>"
    have ne: "eIndex (es ! 0) \<noteq> u_offset ?u + of_nat ?len" "\<not> eIndex (es ! 0) \<le> u_offset ?u"
      using e0 top cut by (auto simp: word_le_nat_alt)
    have d: "unat (eIndex (es ! 0) - u_offset ?u) = b - ?o"
      using e0 cut(1) by (simp add: unat_sub_nowrap word_le_nat_alt)
    have "unstable_slice (u_offset ?u) (eIndex (es ! 0)) ?u = Inr (take (b - ?o) (u_entries ?u))"
    proof -
      have "\<not> eIndex (es ! 0) < u_offset ?u" "\<not> u_offset ?u + of_nat ?len < eIndex (es ! 0)"
        using e0 top cut by (auto simp: word_less_nat_alt)
      then show ?thesis
        using cut by (simp add: unstable_slice_def unstable_mustCheckOutOfBounds_def Let_def d)
    qed
    then have "truncateAndAppend es ?u = Inr ?u'"
      using ne by (simp add: truncateAndAppend_def idx Let_def)
    moreover have "contiguous ?o (take (b - ?o) (u_entries ?u) @ es)"
      unfolding contiguous_append using contiguous_take [OF sh(6)] run(1) cut by simp
    then have "log_shape (l\<lparr>l_unstable := ?u'\<rparr>)"
      using sh run(2) e0 cut
      by (auto simp: log_shape_def Let_def base word_le_nat_alt min_def)
    moreover have "log_items (l\<lparr>l_unstable := ?u'\<rparr>) = put_items b es l"
    proof -
      have "b - ?c - (?o - ?c) = b - ?o" using sh(3) by simp
      then show ?thesis
        using cut sh(3,4) by (simp add: log_items_def put_items_def base)
    qed
    ultimately show ?thesis by blast
  qed
qed

lemma log_append_spec:
  assumes ok: "log_ok l" and run: "contiguous b es" "es \<noteq> []"
    and lo: "unat (l_committed l) < b" and hi: "b \<le> log_base l + length (log_items l)"
  shows "\<exists>u. log_append es l =
      Inr (l\<lparr>l_unstable := u\<rparr>, of_nat (b + length es - 1)) \<and>
    log_ok (l\<lparr>l_unstable := u\<rparr>) \<and> log_items (l\<lparr>l_unstable := u\<rparr>) = put_items b es l"
proof -
  have sh: "log_shape l" using ok by (rule log_okD)
  have b: "log_base l < b" using ok lo unfolding log_ok_def word_le_nat_alt by linarith
  from truncateAndAppend_spec [OF sh run b hi] obtain u where
    u: "truncateAndAppend es (l_unstable l) = Inr u" "log_shape (l\<lparr>l_unstable := u\<rparr>)"
      "log_items (l\<lparr>l_unstable := u\<rparr>) = put_items b es l" by blast
  let ?l = "l\<lparr>l_unstable := u\<rparr>"
  have base: "log_base ?l = log_base l" by (simp add: log_base_def)
  have len: "length (put_items b es l) = b - log_base l + length es"
    using hi b by (simp add: put_items_def)
  have last: "log_lastIndex ?l = Inr (of_nat (b + length es - 1))"
    using log_last [OF u(2)] b by (simp add: base u(3) len del: of_nat_diff)
  have e0: "unat (eIndex (es ! 0)) = b" using run contiguous_nth [of b es 0] by simp
  have "(1 :: uint64) \<le> eIndex (es ! 0)" using e0 b by (simp add: word_le_nat_alt)
  then have "unat (eIndex (es ! 0) - 1) = b - 1" using e0 by (simp add: unat_sub_nowrap)
  then have "\<not> eIndex (es ! 0) - 1 < l_committed l" using lo by (simp add: word_less_nat_alt)
  then have "log_append es l = Inr (?l, of_nat (b + length es - 1))"
    using run(2) u(1) last by (simp add: log_append_def del: of_nat_diff)
  moreover have "log_ok ?l"
    using ok u(2) lo b by (simp add: log_ok_def base u(3) len)
  ultimately show ?thesis using u(3) by blast
qed

lemma commitTo_spec:
  assumes ok: "log_ok l" and c: "unat c < log_base l + length (log_items l)"
  shows "commitTo c l = Inr (l\<lparr>l_committed := max (l_committed l) c\<rparr>)"
proof -
  have sh: "log_shape l" using ok by (rule log_okD)
  let ?n = "log_base l + length (log_items l)"
  have "?n < 2 ^ 63" using log_items_run [OF sh] contiguous_bound by blast
  then have "unat (of_nat (?n - 1) :: uint64) = ?n - 1" by (intro unat_of_nat_small) simp
  then have "\<not> (of_nat (?n - 1) :: uint64) < c" using c by (simp add: word_less_nat_alt)
  then show ?thesis
    by (simp add: commitTo_def log_last [OF sh] max_def del: of_nat_diff of_nat_add)
qed

lemma log_ok_commit:
  assumes "log_ok l" and "unat c < log_base l + length (log_items l)"
  shows "log_ok (l\<lparr>l_committed := max (l_committed l) c\<rparr>)"
proof -
  have "log_shape (l\<lparr>l_committed := x\<rparr>) = log_shape l" "log_items (l\<lparr>l_committed := x\<rparr>) = log_items l"
    "log_base (l\<lparr>l_committed := x\<rparr>) = log_base l" for x
    by (simp_all add: log_shape_def log_items_def log_base_def)
  then show ?thesis using assms by (auto simp: log_ok_def max_def)
qed

text \<open>A commit index beyond the log is a panic, never a silent change.\<close>

lemma commitTo_beyond:
  assumes ok: "log_ok l" and c: "log_base l + length (log_items l) \<le> unat c"
  shows "commitTo c l = Inl (ExplicitPanic ''tocommit is out of range'')"
proof -
  have sh: "log_shape l" using ok by (rule log_okD)
  let ?n = "log_base l + length (log_items l)"
  have "?n < 2 ^ 63" "0 < length (log_items l)" using log_items_run [OF sh] contiguous_bound by auto
  then have "unat (of_nat (?n - 1) :: uint64) = ?n - 1" by (intro unat_of_nat_small) simp
  then have "(of_nat (?n - 1) :: uint64) < c"
    unfolding word_less_nat_alt using c \<open>0 < length (log_items l)\<close> by linarith
  moreover have "l_committed l < c" using ok c by (simp add: log_ok_def word_less_nat_alt)
  ultimately show ?thesis
    by (simp add: commitTo_def log_last [OF sh] del: of_nat_diff of_nat_add)
qed

section \<open>The follower's append rule\<close>

text \<open>On a list whose element \<open>p\<close> is the first that the new entries speak about: the position of
  the first new entry that is missing or has another term, and the list after the append.\<close>

fun first_conflict :: "Entry list \<Rightarrow> nat \<Rightarrow> Entry list \<Rightarrow> nat option" where
  "first_conflict xs p [] = None"
| "first_conflict xs p (e # es) =
     (if p < length xs \<and> eTerm (xs ! p) = eTerm e then map_option Suc (first_conflict xs (Suc p) es)
      else Some 0)"

definition follower_append :: "Entry list \<Rightarrow> nat \<Rightarrow> Entry list \<Rightarrow> Entry list" where
  "follower_append xs p es =
     (case first_conflict xs p es of None \<Rightarrow> xs | Some k \<Rightarrow> take (p + k) xs @ drop k es)"

lemma first_conflict_Some:
  "first_conflict xs p es = Some k \<Longrightarrow> p \<le> length xs \<Longrightarrow>
     k < length es \<and> p + k \<le> length xs \<and> (\<forall>j < k. eTerm (xs ! (p + j)) = eTerm (es ! j))"
proof (induction xs p es arbitrary: k rule: first_conflict.induct)
  case (2 xs p e es)
  show ?case
  proof (cases "p < length xs \<and> eTerm (xs ! p) = eTerm e")
    case True
    then obtain k' where k: "k = Suc k'" "first_conflict xs (Suc p) es = Some k'"
      using "2.prems"(1) by auto
    have ih: "k' < length es \<and> Suc p + k' \<le> length xs \<and>
        (\<forall>j < k'. eTerm (xs ! (Suc p + j)) = eTerm (es ! j))"
      using "2.IH" [OF True k(2)] True by simp
    have "eTerm (xs ! (p + j)) = eTerm ((e # es) ! j)" if "j < k" for j
      using ih that True k(1) by (cases j) auto
    then show ?thesis using ih k(1) by simp
  next
    case False
    then show ?thesis using "2.prems" by (auto split: if_splits)
  qed
qed simp

lemma first_conflict_None:
  "first_conflict xs p es = None \<Longrightarrow> p \<le> length xs \<Longrightarrow>
     p + length es \<le> length xs \<and> (\<forall>j < length es. eTerm (xs ! (p + j)) = eTerm (es ! j))"
proof (induction xs p es rule: first_conflict.induct)
  case (2 xs p e es)
  then have m: "p < length xs \<and> eTerm (xs ! p) = eTerm e" "first_conflict xs (Suc p) es = None"
    by (auto split: if_splits)
  have ih: "Suc p + length es \<le> length xs \<and> (\<forall>j < length es. eTerm (xs ! (Suc p + j)) = eTerm (es ! j))"
    using "2.IH" [OF m(1,2)] m(1) by simp
  have "eTerm (xs ! (p + j)) = eTerm ((e # es) ! j)" if "j < Suc (length es)" for j
    using ih that m(1) by (cases j) auto
  then show ?case using ih by simp
qed simp

text \<open>After the append the list agrees with the new entries, position by position, and nothing
  before the first conflict has changed.\<close>

lemma follower_append_agrees:
  assumes "p \<le> length xs" and "j < length es"
  shows "p + j < length (follower_append xs p es) \<and>
    eTerm (follower_append xs p es ! (p + j)) = eTerm (es ! j)"
proof (cases "first_conflict xs p es")
  case None
  then show ?thesis
    using first_conflict_None [OF None assms(1)] assms(2) by (simp add: follower_append_def)
next
  case (Some k)
  note c = first_conflict_Some [OF Some assms(1)]
  have len: "length (take (p + k) xs) = p + k" using c by simp
  show ?thesis
    using Some c assms(2) by (cases "j < k") (auto simp: follower_append_def nth_append len)
qed

lemma follower_append_prefix:
  assumes "p \<le> length xs" and "n \<le> length xs"
    and "\<And>k. first_conflict xs p es = Some k \<Longrightarrow> n \<le> p + k"
  shows "take n (follower_append xs p es) = take n xs"
  using assms(2,3) by (cases "first_conflict xs p es") (auto simp: follower_append_def min_absorb1)

lemma length_follower_append: "p \<le> length xs \<Longrightarrow> p + length es \<le> length (follower_append xs p es)"
  using first_conflict_None [of xs p es] first_conflict_Some [of xs p es]
  by (cases "first_conflict xs p es") (auto simp: follower_append_def)

lemma matchTerm_spec:
  assumes "log_shape l" and "unat i < 2 ^ 63"
  shows "matchTerm i t l = Inr (log_base l \<le> unat i \<and> unat i < log_base l + length (log_items l) \<and>
    eTerm (log_items l ! (unat i - log_base l)) = t)"
proof -
  consider "unat i < log_base l" | "log_base l \<le> unat i" "unat i < log_base l + length (log_items l)"
    | "log_base l + length (log_items l) \<le> unat i" by linarith
  then show ?thesis
    by cases (use assms in \<open>simp_all add: matchTerm_def rlog.term_compacted rlog.term_present
      rlog.term_absent\<close>)
qed

lemma zeroTerm_total: "log_shape l \<Longrightarrow> unat i < 2 ^ 63 \<Longrightarrow>
  \<exists>t. go_bind (log_term i l) zeroTermOnOutOfBounds = Inr t"
proof -
  assume l: "log_shape l" and i: "unat i < 2 ^ 63"
  consider "unat i < log_base l" | "log_base l \<le> unat i" "unat i < log_base l + length (log_items l)"
    | "log_base l + length (log_items l) \<le> unat i" by linarith
  then show ?thesis
    by cases (use l i in \<open>auto simp: zeroTermOnOutOfBounds_def rlog.term_compacted rlog.term_present
      rlog.term_absent\<close>)
qed

lemma findConflict_spec:
  assumes "log_shape l" and "contiguous b es" and "log_base l \<le> b"
  shows "findConflict es l = Inr (case first_conflict (log_items l) (b - log_base l) es of
     None \<Rightarrow> 0 | Some k \<Rightarrow> of_nat (b + k))"
  using assms(2,3)
proof (induction es arbitrary: b)
  case Nil
  then show ?case by simp
next
  case (Cons e es)
  have run: "contiguous (Suc b) es" and e: "unat (eIndex e) = b"
    using Cons.prems(1) contiguous_append [of b "[e]" es] contiguous_nth [of b "e # es" 0] by simp_all
  have i: "unat (eIndex e) < 2 ^ 63" using contiguous_bound [OF Cons.prems(1)] e by simp
  have pos: "b - log_base l < length (log_items l) \<longleftrightarrow> b < log_base l + length (log_items l)"
    using Cons.prems(2) by linarith
  have suc: "Suc (b - log_base l) = Suc b - log_base l" using Cons.prems(2) by simp
  have ih: "findConflict es l = Inr (case first_conflict (log_items l) (Suc (b - log_base l)) es of
      None \<Rightarrow> 0 | Some k \<Rightarrow> of_nat (Suc b + k))"
    unfolding suc using Cons.IH [OF run] Cons.prems(2) by simp
  show ?case
  proof (cases "b - log_base l < length (log_items l) \<and> eTerm (log_items l ! (b - log_base l)) = eTerm e")
    case True
    then show ?thesis
      using Cons.prems(2) pos ih
      by (auto simp: matchTerm_spec [OF assms(1) i] e split: option.split)
  next
    case False
    obtain t where t: "go_bind (log_term (eIndex e) l) zeroTermOnOutOfBounds = Inr t"
      using zeroTerm_total [OF assms(1) i] by blast
    then have "go_bind (log_term (eIndex e) l) (\<lambda>r. go_bind (zeroTermOnOutOfBounds r) (\<lambda>_. Inr (eIndex e)))
        = Inr (eIndex e)" by auto
    moreover have "matchTerm (eIndex e) (eTerm e) l = Inr False"
      using False Cons.prems(2) pos by (simp add: matchTerm_spec [OF assms(1) i] e)
    moreover obtain n where "log_lastIndex l = Inr n" using log_last [OF assms(1)] by blast
    ultimately have "findConflict (e # es) l = Inr (eIndex e)" by simp
    then show ?thesis using False word_eq_of_nat [OF e] by (simp only: first_conflict.simps if_False) simp
  qed
qed


text \<open>
  \<open>maybeAppend\<close> on a log whose entry before the new ones matches: unless an entry that is already
  committed is contradicted, the items follow the append rule and the commit mark moves forward to
  what the leader has committed, but not beyond the new entries.
\<close>

lemma maybeAppend_spec:
  assumes ok: "log_ok l" and run: "contiguous (unat index + 1) es"
    and present: "log_base l \<le> unat index" "unat index < log_base l + length (log_items l)"
      "eTerm (log_items l ! (unat index - log_base l)) = logTerm"
    and safe: "\<And>k. first_conflict (log_items l) (unat index + 1 - log_base l) es = Some k \<Longrightarrow>
      unat (l_committed l) < unat index + 1 + k"
  shows "\<exists>l'. maybeAppend index logTerm c es l = Inr (l', Some (index + of_nat (length es))) \<and>
    log_ok l' \<and> l_storage l' = l_storage l \<and>
    log_items l' = follower_append (log_items l) (unat index + 1 - log_base l) es \<and>
    l_committed l' = max (l_committed l) (min c (index + of_nat (length es))) \<and>
    unat (index + of_nat (length es)) = unat index + length es"
proof -
  let ?p = "unat index + 1 - log_base l" and ?new = "index + of_nat (length es) :: uint64"
  have sh: "log_shape l" using ok by (rule log_okD)
  have bnd: "unat index + 1 + length es < 2 ^ 63" using contiguous_bound [OF run] .
  have i: "unat index < 2 ^ 63" using bnd by simp
  have m: "matchTerm index logTerm l = Inr True" using present by (simp add: matchTerm_spec [OF sh i])
  have ple: "?p \<le> length (log_items l)" using present by linarith
  have "unat (of_nat (length es) :: uint64) = length es" using bnd by (intro unat_of_nat_small) simp
  then have new: "unat ?new = unat index + length es" using bnd by (subst unat_add_nowrap) simp_all
  have fc: "findConflict es l = Inr (case first_conflict (log_items l) ?p es of
      None \<Rightarrow> 0 | Some k \<Rightarrow> of_nat (unat index + 1 + k))"
    using findConflict_spec [OF sh run] present(1) by simp
  have cont: "\<exists>l'. go_bind (commitTo (min c ?new) l1) (\<lambda>l. Inr (l, Some ?new)) = Inr (l', Some ?new) \<and>
      log_ok l' \<and> l_storage l' = l_storage l \<and> log_items l' = log_items l1 \<and>
      l_committed l' = max (l_committed l) (min c ?new)"
    if l1: "log_ok l1" "l_storage l1 = l_storage l" "l_committed l1 = l_committed l"
      "?p + length es \<le> length (log_items l1)" for l1
  proof -
    have "unat (min c ?new) < log_base l1 + length (log_items l1)"
    proof -
      have "unat (min c ?new) \<le> unat ?new" by (simp add: min_def word_le_nat_alt)
      also have "\<dots> < log_base l + ?p + length es" using new present(1) by linarith
      also have "\<dots> \<le> log_base l1 + length (log_items l1)" using l1(2,4) by (simp add: log_base_def)
      finally show ?thesis .
    qed
    then show ?thesis
      using commitTo_spec [OF l1(1)] log_ok_commit [OF l1(1)] l1 by (simp add: log_items_def log_base_def)
  qed
  show ?thesis
  proof (cases "first_conflict (log_items l) ?p es")
    case None
    then have "findConflict es l = Inr 0" using fc by simp
    moreover have "log_items l = follower_append (log_items l) ?p es"
      unfolding follower_append_def None by simp
    ultimately show ?thesis
      using cont [OF ok] length_follower_append [OF ple, of es] new
      by (simp add: maybeAppend_def m Let_def)
  next
    case (Some k)
    let ?ci = "of_nat (unat index + 1 + k) :: uint64"
    have k: "k < length es" "?p + k \<le> length (log_items l)" using first_conflict_Some [OF Some ple] by auto
    have ci: "unat ?ci = unat index + 1 + k" using bnd k(1) by (intro unat_of_nat_small) simp
    have "contiguous (unat index + 1 + k) (drop k es)" using k(1) by (intro contiguous_drop [OF run]) simp
    moreover have "drop k es \<noteq> []" using k(1) by simp
    moreover have "unat index + 1 + k \<le> log_base l + length (log_items l)" using k(2) present(1) by linarith
    ultimately obtain u where u: "log_append (drop k es) l =
          Inr (l\<lparr>l_unstable := u\<rparr>, of_nat (unat index + 1 + k + length (drop k es) - 1))"
        "log_ok (l\<lparr>l_unstable := u\<rparr>)"
        "log_items (l\<lparr>l_unstable := u\<rparr>) = put_items (unat index + 1 + k) (drop k es) l"
      using log_append_spec [OF ok _ _ safe [OF Some]] by blast
    have items: "log_items (l\<lparr>l_unstable := u\<rparr>) = follower_append (log_items l) ?p es"
    proof -
      have "unat index + 1 + k - log_base l = ?p + k" using present(1) by simp
      then show ?thesis unfolding u(3) put_items_def follower_append_def Some by simp
    qed
    have off: "?ci - (index + 1) = of_nat k"
      by (simp add: algebra_simps)
    have kk: "unat (of_nat k :: uint64) = k" using bnd k(1) by (intro unat_of_nat_small) simp
    have "findConflict es l = Inr ?ci" using fc Some by simp
    moreover have "?ci \<noteq> 0" using ci by (metis add_is_0 unat_0 zero_neq_one)
    moreover have "\<not> ?ci \<le> l_committed l" using safe [OF Some] ci by (simp add: word_le_nat_alt)
    moreover have "\<not> ?ci - (index + 1) > of_nat (length es)"
      unfolding off using k(1) kk bnd by (simp add: word_less_nat_alt unat_of_nat_small)
    moreover have "go_slice es (unat (?ci - (index + 1))) (length es) = Inr (drop k es)"
      unfolding off kk using k(1) by simp
    ultimately have "maybeAppend index logTerm c es l =
        go_bind (commitTo (min c ?new) (l\<lparr>l_unstable := u\<rparr>)) (\<lambda>l. Inr (l, Some ?new))"
      unfolding maybeAppend_def m using u(1) by (simp add: Let_def del: of_nat_add of_nat_Suc)
    then show ?thesis
      using cont [OF u(2)] length_follower_append [OF ple, of es] new by (simp add: items)
  qed
qed

text \<open>A committed entry is never overwritten: contradicting one is a panic.\<close>

lemma maybeAppend_conflict:
  assumes ok: "log_ok l" and run: "contiguous (unat index + 1) es"
    and present: "log_base l \<le> unat index" "unat index < log_base l + length (log_items l)"
      "eTerm (log_items l ! (unat index - log_base l)) = logTerm"
    and bad: "first_conflict (log_items l) (unat index + 1 - log_base l) es = Some k"
      "unat index + 1 + k \<le> unat (l_committed l)"
  shows "maybeAppend index logTerm c es l = Inl (ExplicitPanic ''entry conflict with committed entry'')"
proof -
  let ?ci = "of_nat (unat index + 1 + k) :: uint64"
  have sh: "log_shape l" using ok by (rule log_okD)
  have bnd: "unat index + 1 + length es < 2 ^ 63" using contiguous_bound [OF run] .
  have i: "unat index < 2 ^ 63" using bnd by simp
  have m: "matchTerm index logTerm l = Inr True" using present by (simp add: matchTerm_spec [OF sh i])
  have "k < length es" using first_conflict_Some [OF bad(1)] present by linarith
  then have ci: "unat ?ci = unat index + 1 + k" using bnd by (intro unat_of_nat_small) simp
  have "findConflict es l = Inr ?ci" using findConflict_spec [OF sh run] present(1) bad(1) by simp
  moreover have "?ci \<noteq> 0" using ci by (metis add_is_0 unat_0 zero_neq_one)
  moreover have "?ci \<le> l_committed l" using bad(2) ci by (simp add: word_le_nat_alt)
  ultimately show ?thesis by (simp add: maybeAppend_def m Let_def del: of_nat_add of_nat_Suc)
qed

lemma maybeAppend_mismatch:
  assumes "log_shape l" and "unat index < 2 ^ 63"
    and "\<not> (log_base l \<le> unat index \<and> unat index < log_base l + length (log_items l) \<and>
      eTerm (log_items l ! (unat index - log_base l)) = logTerm)"
  shows "maybeAppend index logTerm c es l = Inr (l, None)"
proof -
  have "matchTerm index logTerm l = Inr False"
    using matchTerm_spec [OF assms(1,2)] assms(3) by simp
  then show ?thesis by (simp add: maybeAppend_def)
qed

section \<open>The append as a whole\<close>

text \<open>Whatever the append message says, \<open>maybeAppend\<close> either panics or leaves a log in which nothing
  that was committed has changed and the commit mark has not moved back.\<close>

lemma maybeAppend_keeps:
  assumes ok: "log_ok l" and run: "contiguous (unat index + 1) es"
    and r: "maybeAppend index logTerm c es l = Inr (l', res)"
  defines "n \<equiv> unat (l_committed l) + 1 - log_base l"
  shows "log_ok l' \<and> log_base l' = log_base l \<and> take n (log_items l') = take n (log_items l) \<and>
    l_committed l \<le> l_committed l'"
proof (cases "log_base l \<le> unat index \<and> unat index < log_base l + length (log_items l) \<and>
    eTerm (log_items l ! (unat index - log_base l)) = logTerm")
  case False
  have "unat index < 2 ^ 63" using contiguous_bound [OF run] by simp
  then have "maybeAppend index logTerm c es l = Inr (l, None)"
    using False by (intro maybeAppend_mismatch log_okD ok) auto
  then show ?thesis using r ok by simp
next
  case True
  let ?p = "unat index + 1 - log_base l"
  have ple: "?p \<le> length (log_items l)" using True by linarith
  have safe: "unat (l_committed l) < unat index + 1 + k"
    if "first_conflict (log_items l) ?p es = Some k" for k
    using maybeAppend_conflict [OF ok run _ _ _ that] True r by (metis Inl_not_Inr not_less)
  have spec: "log_ok l' \<and> l_storage l' = l_storage l \<and> log_items l' = follower_append (log_items l) ?p es \<and>
      l_committed l' = max (l_committed l) (min c (index + of_nat (length es)))"
    using maybeAppend_spec [OF ok run _ _ _ safe, of logTerm c] True r by fastforce
  have "n \<le> length (log_items l)" using ok unfolding n_def log_ok_def by linarith
  moreover have "n \<le> ?p + k" if "first_conflict (log_items l) ?p es = Some k" for k
    using safe [OF that] True unfolding n_def by linarith
  ultimately have "take n (follower_append (log_items l) ?p es) = take n (log_items l)"
    using follower_append_prefix [OF ple] by blast
  then show ?thesis using spec by (simp add: log_base_def)
qed

section \<open>Probing back\<close>

lemma findConflictByTerm_spec:
  assumes sh: "log_shape l" and i: "log_base l \<le> unat i" "unat i < log_base l + length (log_items l)"
  shows "\<exists>j t. findConflictByTerm i term l = Inr (j, t) \<and> j \<le> i \<and>
    (\<forall>k. unat j < k \<and> k \<le> unat i \<and> log_base l \<le> k \<longrightarrow> term < eTerm (log_items l ! (k - log_base l))) \<and>
    (if log_base l \<le> unat j \<and> 0 < j then t = eTerm (log_items l ! (unat j - log_base l)) \<and> t \<le> term
     else t = 0)"
  using sh i
proof (induction i "term" l rule: findConflictByTerm.induct)
  case (1 i "term" l)
  let ?our = "eTerm (log_items l ! (unat i - log_base l))"
  have t: "log_term i l = Inr (Inr ?our)" using "1.prems" by (intro rlog.term_present)
  show ?case
  proof (cases "i = 0 \<or> ?our \<le> term")
    case True
    then show ?thesis
    proof (cases "i = 0")
      case True
      then show ?thesis by (subst findConflictByTerm.simps) simp
    next
      case False
      then have "findConflictByTerm i term l = Inr (i, ?our)"
        using t True by (subst findConflictByTerm.simps) (auto simp: word_neq_0_conv)
      then show ?thesis using "1.prems" True False by (auto simp: word_neq_0_conv)
    qed
  next
    case False
    then have pos: "0 < i" and gt: "term < ?our" by (simp_all add: word_neq_0_conv not_le)
    have pred: "unat (i - 1) = unat i - 1" using pos by (simp add: unat_sub_nowrap word_le_nat_alt unat_gt_0 Suc_le_eq)
    have eq: "findConflictByTerm i term l = findConflictByTerm (i - 1) term l"
      using t pos gt by (subst findConflictByTerm.simps) (auto simp: not_le [symmetric])
    have ui: "0 < unat i" using pos by (simp add: unat_gt_0)
    have step: "k = unat i \<or> k \<le> unat (i - 1)" if "k \<le> unat i" for k using that pred by linarith
    show ?thesis
    proof (cases "log_base l \<le> unat (i - 1)")
      case True
      have bnd: "unat (i - 1) < log_base l + length (log_items l)" using "1.prems"(3) pred by linarith
      have "\<not> ?our \<le> term" using gt by (simp add: not_le)
      from "1.IH" [OF pos t refl this "1.prems"(1) True bnd]
      obtain j u where ju: "findConflictByTerm (i - 1) term l = Inr (j, u)" "j \<le> i - 1"
          "\<forall>k. unat j < k \<and> k \<le> unat (i - 1) \<and> log_base l \<le> k \<longrightarrow> term < eTerm (log_items l ! (k - log_base l))"
          "if log_base l \<le> unat j \<and> 0 < j then u = eTerm (log_items l ! (unat j - log_base l)) \<and> u \<le> term else u = 0"
        by blast
      have "j \<le> i" using ju(2) pred unfolding word_le_nat_alt by linarith
      then show ?thesis using ju(3,4) gt step unfolding eq ju(1) by blast
    next
      case False
      then have "log_term (i - 1) l = Inr (Inl ErrCompacted)"
        using "1.prems" by (intro rlog.term_compacted) auto
      then have "findConflictByTerm (i - 1) term l = Inr (i - 1, 0)"
        by (subst findConflictByTerm.simps) (auto simp: word_gt_0)
      moreover have "i - 1 \<le> i" using pred unfolding word_le_nat_alt by linarith
      ultimately show ?thesis using False gt step pred by (auto simp: eq)
    qed
  qed
qed

section \<open>Properties\<close>

text \<open>C18: a raft log answers term queries from one gapless run of entries: an index below the first kept
  entry is \<open>ErrCompacted\<close>, an index of the run has the term of its entry, wherever it is stored, and
  an index beyond it is \<open>ErrUnavailable\<close>; no query panics.\<close>

theorem log_term_contract:
  assumes "log_shape l" and "unat i < 2 ^ 63"
  shows "log_term i l = Inr
    (if unat i < log_base l then Inl ErrCompacted
     else if unat i < log_base l + length (log_items l)
       then Inr (eTerm (log_items l ! (unat i - log_base l)))
     else Inl ErrUnavailable)"
  using assms by (simp add: rlog.term_compacted rlog.term_present rlog.term_absent)

definition sample_entry :: "uint64 \<Rightarrow> uint64 \<Rightarrow> Entry" where
  "sample_entry i t = zeroEntry\<lparr>eIndex := i, eTerm := t\<rparr>"

text \<open>A log with nothing in storage and three unstable entries, the first of them committed.\<close>

definition sample_log :: raftLog where
  "sample_log = \<lparr>l_storage = NewMemoryStorage,
     l_unstable = \<lparr>u_snapshot = None, u_entries = [sample_entry 1 1, sample_entry 2 1, sample_entry 3 2],
       u_offset = 1, u_snapshotInProgress = False, u_offsetInProgress = 1\<rparr>,
     l_committed = 1, l_applying = 0, l_applied = 0, l_maxApplyingEntsSize = 100,
     l_applyingEntsSize = 0, l_applyingEntsPaused = False\<rparr>"

lemma sample_log_items:
  "log_items sample_log = [zeroEntry, sample_entry 1 1, sample_entry 2 1, sample_entry 3 2]"
  "log_base sample_log = 0" "l_committed sample_log = 1"
  by (simp_all add: sample_log_def log_items_def log_base_def storage_base_def NewMemoryStorage_def
      zeroEntry_def)

lemma sample_log_ok: "log_ok sample_log"
proof -
  have "contiguous 1 [sample_entry 1 1, sample_entry 2 1, sample_entry 3 2]"
    by (simp add: contiguous_Cons sample_entry_def)
  then have "log_shape sample_log"
    using NewMemoryStorage_ok sample_log_items(2)
    by (simp add: log_shape_def sample_log_def Let_def NewMemoryStorage_def)
  then show ?thesis
    unfolding log_ok_def sample_log_items(1,2) by (simp add: sample_log_def)
qed

theorem log_term_contract_witness:
  "log_term 3 sample_log = Inr (Inr 2)" 
  using log_term_contract [OF log_okD [OF sample_log_ok], of 3]
  by (simp add: sample_log_items sample_entry_def)

text \<open>A new log over a well-formed storage is well formed, holds exactly the stored entries and has
  nothing committed or applied beyond the first one.\<close>

theorem new_log_contract:
  assumes "storage_ok st"
  shows "\<exists>l. newLogWithSize (Some st) n = Inr l \<and> log_ok l \<and> log_items l = ms_ents st \<and>
    log_base l = storage_base st \<and> unat (l_committed l) = storage_base st"
proof -
  have sh: "storage_ok (st\<lparr>ms_callStats := x\<rparr>)" "storage_base (st\<lparr>ms_callStats := x\<rparr>) = storage_base st" for x
    using assms by (simp_all add: storage_ok_def storage_base_def)
  have ne: "ms_ents st \<noteq> []" and run: "contiguous (storage_base st) (ms_ents st)"
    using assms by (simp_all add: storage_ok_def)
  let ?n = "storage_base st + length (ms_ents st)"
  have bnd: "?n < 2 ^ 63" using contiguous_bound [OF run] .
  have len: "0 < length (ms_ents st)" using ne by simp
  have o1: "(of_nat (?n - 1) + 1 :: uint64) = of_nat ?n"
    using len by (metis Suc_diff_1 add_gr_0 of_nat_Suc add.commute)
  have o2: "unat (of_nat ?n :: uint64) = ?n" using bnd by (intro unat_of_nat_small) simp
  have c: "(of_nat (storage_base st + 1) - 1 :: uint64) = of_nat (storage_base st)" by simp
  have c': "unat (of_nat (storage_base st) :: uint64) = storage_base st"
    using bnd by (intro unat_of_nat_small) simp
  let ?st = "st\<lparr>ms_callStats := (ms_callStats st)\<lparr>cs_firstIndex := int64 (cs_firstIndex (ms_callStats st) + 1),
    cs_lastIndex := int64 (cs_lastIndex (ms_callStats st) + 1)\<rparr>\<rparr>"
  define l where "l = \<lparr>l_storage = ?st,
    l_unstable = \<lparr>u_snapshot = None, u_entries = [], u_offset = of_nat ?n, u_snapshotInProgress = False,
      u_offsetInProgress = of_nat ?n\<rparr>,
    l_committed = of_nat (storage_base st), l_applying = of_nat (storage_base st),
    l_applied = of_nat (storage_base st), l_maxApplyingEntsSize = n, l_applyingEntsSize = 0,
    l_applyingEntsPaused = False\<rparr>"
  have new: "newLogWithSize (Some st) n = Inr l"
    using storage_first [OF sh(1)] storage_last [OF sh(1)] storage_first [OF assms] storage_last [OF assms] o1 c
    unfolding newLogWithSize_def Storage_FirstIndex_def Storage_LastIndex_def sh(2) l_def
    by (simp del: of_nat_add of_nat_diff of_nat_Suc)
  have l: "l_storage l = ?st"
      "l_unstable l = \<lparr>u_snapshot = None, u_entries = [], u_offset = of_nat ?n,
        u_snapshotInProgress = False, u_offsetInProgress = of_nat ?n\<rparr>"
      "l_committed l = of_nat (storage_base st)" "l_applying l = of_nat (storage_base st)"
      "l_applied l = of_nat (storage_base st)"
    by (simp_all add: l_def)
  have base: "log_base l = storage_base st" using sh(2) by (simp add: log_base_def l(1))
  have items: "log_items l = ms_ents st" using o2 by (simp add: log_items_def base l(1,2) del: of_nat_add)
  have "log_shape l"
    unfolding log_shape_def Let_def base l(1,2) using sh(1) bnd len o2 by (simp del: of_nat_add)
  then have "log_ok l" using len by (simp add: log_ok_def base items l(3-5) c')
  then show ?thesis using new base items l(3) c' by auto
qed

theorem new_log_contract_witness:
  "\<exists>l. newLogWithSize (Some NewMemoryStorage) 7 = Inr l \<and> log_ok l \<and> log_items l = ms_ents NewMemoryStorage \<and>
    log_base l = storage_base NewMemoryStorage \<and> unat (l_committed l) = storage_base NewMemoryStorage"
  by (rule new_log_contract [OF NewMemoryStorage_ok])

text \<open>C10: the append of a follower refines the abstract rule on one list of entries: when the entry before
  the new ones matches and no committed entry is contradicted, everything up to the first new
  entry that is missing or has another term is kept, the rest is replaced by the new entries, and
  the commit mark moves forward to what the leader has committed of them.\<close>

theorem maybeAppend_refines:
  assumes "log_ok l" and "contiguous (unat index + 1) es"
    and "log_base l \<le> unat index" "unat index < log_base l + length (log_items l)"
      "eTerm (log_items l ! (unat index - log_base l)) = logTerm"
    and "\<And>k. first_conflict (log_items l) (unat index + 1 - log_base l) es = Some k \<Longrightarrow>
      unat (l_committed l) < unat index + 1 + k"
  shows "\<exists>l'. maybeAppend index logTerm c es l = Inr (l', Some (index + of_nat (length es))) \<and>
    log_ok l' \<and> log_items l' = follower_append (log_items l) (unat index + 1 - log_base l) es \<and>
    l_committed l' = max (l_committed l) (min c (index + of_nat (length es)))"
  using maybeAppend_spec [OF assms, of c] by blast

theorem maybeAppend_refines_witness:
  "\<exists>l'. maybeAppend 2 1 3 [sample_entry 3 5] sample_log = Inr (l', Some 3) \<and> log_ok l' \<and>
     log_items l' = [zeroEntry, sample_entry 1 1, sample_entry 2 1, sample_entry 3 5] \<and> l_committed l' = 3"
proof -
  have run: "contiguous (unat (2 :: uint64) + 1) [sample_entry 3 5]"
    by (simp add: contiguous_Cons sample_entry_def)
  have fc: "first_conflict (log_items sample_log) 3 [sample_entry 3 5] = Some 0"
    by (simp add: sample_log_items) (simp add: sample_entry_def)
  then have fa: "follower_append (log_items sample_log) 3 [sample_entry 3 5] =
      [zeroEntry, sample_entry 1 1, sample_entry 2 1, sample_entry 3 5]"
    by (simp add: follower_append_def sample_log_items)
  have "eTerm (log_items sample_log ! 2) = 1" by (simp add: sample_log_items sample_entry_def numeral_2_eq_2)
  then show ?thesis
    using maybeAppend_refines [OF sample_log_ok run, of 1 3] fc fa
    by (simp add: sample_log_items(2,3)) (simp add: sample_log_items(1))
qed

text \<open>C11: no append message can change what a log has committed: either the call panics, or the result is
  well formed, its entries up to the commit mark are the ones before and the mark has not moved
  back.\<close>

theorem committed_entries_kept:
  assumes "log_ok l" and "contiguous (unat index + 1) es"
    and "maybeAppend index logTerm c es l = Inr (l', res)"
  shows "log_ok l' \<and> l_committed l \<le> l_committed l' \<and>
    take (unat (l_committed l) + 1 - log_base l) (log_items l') =
      take (unat (l_committed l) + 1 - log_base l) (log_items l)"
  using maybeAppend_keeps [OF assms] by blast

theorem committed_entries_kept_witness:
  "\<exists>l' res. maybeAppend 2 1 3 [sample_entry 3 5] sample_log = Inr (l', res) \<and>
     take 2 (log_items l') = [zeroEntry, sample_entry 1 1]"
proof -
  have run: "contiguous (unat (2 :: uint64) + 1) [sample_entry 3 5]"
    by (simp add: contiguous_Cons sample_entry_def)
  obtain l' where l': "maybeAppend 2 1 3 [sample_entry 3 5] sample_log = Inr (l', Some 3)"
    using maybeAppend_spec [OF sample_log_ok run, of 1 3]
    by (auto simp: sample_log_items sample_entry_def)
  show ?thesis
    using committed_entries_kept [OF sample_log_ok run l'] l'
    by (auto simp: sample_log_items numeral_2_eq_2)
qed

text \<open>C19: an append that contradicts a committed entry is a panic.\<close>

theorem committed_conflict_panics:
  assumes "log_ok l" and "contiguous (unat index + 1) es"
    and "log_base l \<le> unat index" "unat index < log_base l + length (log_items l)"
      "eTerm (log_items l ! (unat index - log_base l)) = logTerm"
    and "first_conflict (log_items l) (unat index + 1 - log_base l) es = Some k"
      "unat index + 1 + k \<le> unat (l_committed l)"
  shows "maybeAppend index logTerm c es l = Inl (ExplicitPanic ''entry conflict with committed entry'')"
  by (rule maybeAppend_conflict [OF assms])

theorem committed_conflict_panics_witness:
  "maybeAppend 0 0 9 [sample_entry 1 7] sample_log = Inl (ExplicitPanic ''entry conflict with committed entry'')"
  by (rule committed_conflict_panics [OF sample_log_ok])
    (simp_all add: sample_log_items contiguous_Cons sample_entry_def zeroEntry_def)

text \<open>The commit mark only moves forward and only within the log: a mark beyond the last entry is a
  panic.\<close>

theorem commit_within_log:
  assumes "log_ok l"
  shows "commitTo c l =
    (if unat c < log_base l + length (log_items l) then Inr (l\<lparr>l_committed := max (l_committed l) c\<rparr>)
     else Inl (ExplicitPanic ''tocommit is out of range''))"
  using commitTo_spec [OF assms, of c] commitTo_beyond [OF assms, of c] by simp

theorem commit_within_log_witness:
  "commitTo 4 sample_log = Inl (ExplicitPanic ''tocommit is out of range'')"
  using commit_within_log [OF sample_log_ok, of 4] by (simp add: sample_log_items)

text \<open>A leader's append of new entries at the end of its log, or over its uncommitted tail, keeps the
  log well formed, answers the new last index and changes nothing but that tail.\<close>

theorem leader_append_contract:
  assumes "log_ok l" and "contiguous b es" and "es \<noteq> []"
    and "unat (l_committed l) < b" and "b \<le> log_base l + length (log_items l)"
  shows "\<exists>l'. log_append es l = Inr (l', of_nat (b + length es - 1)) \<and> log_ok l' \<and>
    log_items l' = take (b - log_base l) (log_items l) @ es \<and> l_committed l' = l_committed l \<and>
    l_storage l' = l_storage l"
  using log_append_spec [OF assms] by (auto simp: put_items_def)

theorem leader_append_contract_witness:
  "\<exists>l'. log_append [sample_entry 4 2] sample_log = Inr (l', 4) \<and> log_ok l' \<and>
    log_items l' = [zeroEntry, sample_entry 1 1, sample_entry 2 1, sample_entry 3 2, sample_entry 4 2]"
  using leader_append_contract [OF sample_log_ok, of 4 "[sample_entry 4 2]"]
  by (auto simp: sample_log_items contiguous_Cons sample_entry_def)

text \<open>C20: the hint of a rejected append, the point a leader goes back to, is found within the log: it is
  not after the probed index, every kept entry after it up to the probed index has a term above
  the leader's, and its own term, when it is kept, is the reported one and not above it.\<close>

theorem conflict_hint_contract:
  assumes "log_shape l" and "log_base l \<le> unat i" "unat i < log_base l + length (log_items l)"
  shows "\<exists>j t. findConflictByTerm i term l = Inr (j, t) \<and> j \<le> i \<and>
    (\<forall>k. unat j < k \<and> k \<le> unat i \<and> log_base l \<le> k \<longrightarrow> term < eTerm (log_items l ! (k - log_base l))) \<and>
    (if log_base l \<le> unat j \<and> 0 < j then t = eTerm (log_items l ! (unat j - log_base l)) \<and> t \<le> term
     else t = 0)"
  by (rule findConflictByTerm_spec [OF assms])

theorem conflict_hint_contract_witness:
  "\<exists>j t. findConflictByTerm 3 1 sample_log = Inr (j, t) \<and> j \<le> 3"
  using conflict_hint_contract [OF log_okD [OF sample_log_ok], of 3 1] by (auto simp: sample_log_items)

end
