(* ===== verification/Quorum.thy ===== *)
theory Quorum
  imports Go_Prelude
begin

text \<open>
  \<open>src/raft/core/quorum\<close>: majority configurations, joint configurations, and the outcome of a
  vote.  A Go set \<open>map[uint64]struct{}\<close> is \<open>uint64 fset option\<close>, \<open>None\<close> for the nil map (of
  length zero, readable, not writable).  The ballot \<open>map[uint64]bool\<close> is a finite map.

  The locale \<open>vote_rule\<close> is the contract an election relies on: the outcome depends on the
  voters' ballots only, a decided outcome never changes as further ballots arrive, and two
  winning ballots share a voter that granted both.  Majority and joint configurations are
  interpretations of it.
\<close>

type_synonym idset = "uint64 fset option"
type_synonym votes = "(uint64, bool) fmap"

definition ids_of :: "idset \<Rightarrow> uint64 fset" where
  "ids_of c = (case c of None \<Rightarrow> {||} | Some s \<Rightarrow> s)"

lemma ids_of_simps [simp]: "ids_of None = {||}" "ids_of (Some s) = s"
  by (simp_all add: ids_of_def)

type_synonym MajorityConfig = idset
type_synonym JointConfig = "MajorityConfig \<times> MajorityConfig"

datatype VoteResult = VotePending | VoteLost | VoteWon

section \<open>Majority configurations\<close>

definition Majority_Slice :: "MajorityConfig \<Rightarrow> uint64 list" where
  "Majority_Slice c = sorted_list_of_fset (ids_of c)"

lemma set_Majority_Slice [simp]: "set (Majority_Slice c) = fset (ids_of c)"
  by (simp add: Majority_Slice_def)

lemma distinct_Majority_Slice [simp]: "distinct (Majority_Slice c)"
  by (simp add: Majority_Slice_def sorted_list_of_fset.rep_eq)

lemma sorted_Majority_Slice [simp]: "sorted (Majority_Slice c)"
  by (simp add: Majority_Slice_def sorted_list_of_fset.rep_eq)

lemma length_Majority_Slice [simp]: "length (Majority_Slice c) = fcard (ids_of c)"
  by (metis distinct_Majority_Slice distinct_card fcard.rep_eq set_Majority_Slice)

text \<open>The loop of \<open>VoteResult\<close> over the members in any order: yes votes and missing votes.\<close>

fun count_votes :: "votes \<Rightarrow> uint64 list \<Rightarrow> nat \<Rightarrow> nat \<Rightarrow> nat \<times> nat" where
  "count_votes vs [] votedCnt missing = (votedCnt, missing)"
| "count_votes vs (i # is) votedCnt missing =
     (case fmlookup vs i of
        None \<Rightarrow> count_votes vs is votedCnt (missing + 1)
      | Some v \<Rightarrow> count_votes vs is (if v then votedCnt + 1 else votedCnt) missing)"

text \<open>\<open>VoteResult\<close> when the map is enumerated in the order \<open>is\<close>, which is any list of the members.\<close>

definition majority_vote :: "uint64 list \<Rightarrow> MajorityConfig \<Rightarrow> votes \<Rightarrow> VoteResult" where
  "majority_vote is c vs =
     (if fcard (ids_of c) = 0 then VoteWon
      else (case count_votes vs is 0 0 of (votedCnt, missing) \<Rightarrow>
        (let q = fcard (ids_of c) div 2 + 1 in
           if votedCnt \<ge> q then VoteWon
           else if votedCnt + missing \<ge> q then VotePending
           else VoteLost)))"

definition enumerates :: "uint64 list \<Rightarrow> MajorityConfig \<Rightarrow> bool" where
  "enumerates is c \<longleftrightarrow> distinct is \<and> fset_of_list is = ids_of c"

lemma enumerates_Slice: "enumerates (Majority_Slice c) c"
  by (simp add: enumerates_def fset_eq_iff fset_of_list_elem)

text \<open>The result depends on no order (\<open>majority_vote_sets\<close>), so the rest of the model takes the ascending one.\<close>

definition Majority_VoteResult :: "MajorityConfig \<Rightarrow> votes \<Rightarrow> VoteResult" where
  "Majority_VoteResult c vs = majority_vote (Majority_Slice c) c vs"

definition granted :: "idset \<Rightarrow> votes \<Rightarrow> uint64 set" where
  "granted c vs = {i \<in> fset (ids_of c). fmlookup vs i = Some True}"

definition unvoted :: "idset \<Rightarrow> votes \<Rightarrow> uint64 set" where
  "unvoted c vs = {i \<in> fset (ids_of c). fmlookup vs i = None}"

lemma finite_granted [simp]: "finite (granted c vs)" and finite_unvoted [simp]: "finite (unvoted c vs)"
  by (simp_all add: granted_def unvoted_def)

lemma count_votes_filter:
  "count_votes vs is a b =
     (a + length (filter (\<lambda>i. fmlookup vs i = Some True) is),
      b + length (filter (\<lambda>i. fmlookup vs i = None) is))"
  by (induction "is" arbitrary: a b) (auto split: option.split)

lemma count_votes_sets:
  assumes "enumerates is c"
  shows "count_votes vs is 0 0 = (card (granted c vs), card (unvoted c vs))"
proof -
  have "distinct is" "set is = fset (ids_of c)"
    using assms by (auto simp: enumerates_def fset_of_list.rep_eq [symmetric])
  then have "length (filter P is) = card {i \<in> fset (ids_of c). P i}" for P
    by (metis distinct_card distinct_filter set_filter)
  then show ?thesis by (simp add: count_votes_filter granted_def unvoted_def)
qed

text \<open>The iteration order over the members does not matter.\<close>

lemma majority_vote_sets:
  assumes "enumerates is c"
  shows "majority_vote is c vs =
     (if ids_of c = {||} then VoteWon
      else if fcard (ids_of c) < 2 * card (granted c vs) then VoteWon
      else if fcard (ids_of c) < 2 * (card (granted c vs) + card (unvoted c vs)) then VotePending
      else VoteLost)"
proof -
  have "n div 2 + 1 \<le> k \<longleftrightarrow> n < 2 * k" for n k :: nat by linarith
  then show ?thesis using count_votes_sets [OF assms] by (simp add: majority_vote_def Let_def)
qed

lemma Majority_VoteResult_sets:
  "Majority_VoteResult c vs =
     (if ids_of c = {||} then VoteWon
      else if fcard (ids_of c) < 2 * card (granted c vs) then VoteWon
      else if fcard (ids_of c) < 2 * (card (granted c vs) + card (unvoted c vs)) then VotePending
      else VoteLost)"
  unfolding Majority_VoteResult_def by (rule majority_vote_sets [OF enumerates_Slice])

lemma majority_vote_order: "enumerates is c \<Longrightarrow> majority_vote is c vs = Majority_VoteResult c vs"
  by (simp only: majority_vote_sets Majority_VoteResult_sets)

lemma Majority_won_iff:
  "Majority_VoteResult c vs = VoteWon \<longleftrightarrow>
     ids_of c = {||} \<or> fcard (ids_of c) < 2 * card (granted c vs)"
  by (simp add: Majority_VoteResult_sets)

lemma Majority_lost_iff:
  "Majority_VoteResult c vs = VoteLost \<longleftrightarrow>
     ids_of c \<noteq> {||} \<and> 2 * (card (granted c vs) + card (unvoted c vs)) \<le> fcard (ids_of c)"
  by (auto simp: Majority_VoteResult_sets)

section \<open>Joint configurations\<close>

definition Joint_IDs :: "JointConfig \<Rightarrow> uint64 fset" where
  "Joint_IDs c = ids_of (fst c) |\<union>| ids_of (snd c)"

definition joint_vote :: "uint64 list \<Rightarrow> uint64 list \<Rightarrow> JointConfig \<Rightarrow> votes \<Rightarrow> VoteResult" where
  "joint_vote is js c vs =
     (let r1 = majority_vote is (fst c) vs; r2 = majority_vote js (snd c) vs in
      if r1 = r2 then r1
      else if r1 = VoteLost \<or> r2 = VoteLost then VoteLost
      else VotePending)"

definition Joint_VoteResult :: "JointConfig \<Rightarrow> votes \<Rightarrow> VoteResult" where
  "Joint_VoteResult c vs = joint_vote (Majority_Slice (fst c)) (Majority_Slice (snd c)) c vs"

lemma Joint_VoteResult_halves:
  "Joint_VoteResult c vs =
     (let r1 = Majority_VoteResult (fst c) vs; r2 = Majority_VoteResult (snd c) vs in
      if r1 = r2 then r1
      else if r1 = VoteLost \<or> r2 = VoteLost then VoteLost
      else VotePending)"
  by (simp add: Joint_VoteResult_def joint_vote_def Majority_VoteResult_def)

lemma Joint_won_iff:
  "Joint_VoteResult c vs = VoteWon \<longleftrightarrow>
     Majority_VoteResult (fst c) vs = VoteWon \<and> Majority_VoteResult (snd c) vs = VoteWon"
  by (auto simp: Joint_VoteResult_halves Let_def)

lemma Joint_lost_iff:
  "Joint_VoteResult c vs = VoteLost \<longleftrightarrow>
     Majority_VoteResult (fst c) vs = VoteLost \<or> Majority_VoteResult (snd c) vs = VoteLost"
  by (auto simp: Joint_VoteResult_halves Let_def)

section \<open>The contract of a vote\<close>

locale vote_rule =
  fixes voters :: "'c \<Rightarrow> uint64 fset"
    and result :: "'c \<Rightarrow> votes \<Rightarrow> VoteResult"
  assumes voters_only:
    "(\<And>i. i |\<in>| voters c \<Longrightarrow> fmlookup vs i = fmlookup vs' i) \<Longrightarrow> result c vs = result c vs'"
  and won_stable: "\<lbrakk>result c vs = VoteWon; vs \<subseteq>\<^sub>f vs'\<rbrakk> \<Longrightarrow> result c vs' = VoteWon"
  and lost_stable: "\<lbrakk>result c vs = VoteLost; vs \<subseteq>\<^sub>f vs'\<rbrakk> \<Longrightarrow> result c vs' = VoteLost"
  and decided: "(\<And>i. i |\<in>| voters c \<Longrightarrow> i |\<in>| fmdom vs) \<Longrightarrow> result c vs \<noteq> VotePending"
  and overlap: "\<lbrakk>voters c \<noteq> {||}; result c vs = VoteWon; result c vs' = VoteWon\<rbrakk> \<Longrightarrow>
     \<exists>i. i |\<in>| voters c \<and> fmlookup vs i = Some True \<and> fmlookup vs' i = Some True"
begin

lemma settled_stable:
  "\<lbrakk>result c vs \<noteq> VotePending; vs \<subseteq>\<^sub>f vs'\<rbrakk> \<Longrightarrow> result c vs' = result c vs"
  using won_stable [of c vs vs'] lost_stable [of c vs vs'] by (cases "result c vs") simp_all

text \<open>Two ballots on which every voter grants at most one candidate have at most one winner.\<close>

lemma one_winner:
  assumes "voters c \<noteq> {||}"
    and "\<And>i. i |\<in>| voters c \<Longrightarrow> \<not> (fmlookup vs i = Some True \<and> fmlookup vs' i = Some True)"
  shows "result c vs \<noteq> VoteWon \<or> result c vs' \<noteq> VoteWon"
  using assms overlap by blast

lemma win_needs_vote:
  "\<lbrakk>voters c \<noteq> {||}; result c vs = VoteWon\<rbrakk> \<Longrightarrow> \<exists>i. i |\<in>| voters c \<and> fmlookup vs i = Some True"
  using overlap by blast

lemma ignores_strangers: "i |\<notin>| voters c \<Longrightarrow> result c (fmupd i b vs) = result c vs"
  by (rule voters_only) auto

end

lemma fmsubset_lookup: "\<lbrakk>vs \<subseteq>\<^sub>f vs'; fmlookup vs i = Some b\<rbrakk> \<Longrightarrow> fmlookup vs' i = Some b"
  by (auto simp: fmsubset.rep_eq map_le_def dom_def)

lemma granted_mono: "vs \<subseteq>\<^sub>f vs' \<Longrightarrow> granted c vs \<subseteq> granted c vs'"
  by (auto simp: granted_def fmsubset_lookup)

lemma granted_unvoted_mono:
  "vs \<subseteq>\<^sub>f vs' \<Longrightarrow> granted c vs' \<union> unvoted c vs' \<subseteq> granted c vs \<union> unvoted c vs"
proof
  fix i
  assume sub: "vs \<subseteq>\<^sub>f vs'" and i: "i \<in> granted c vs' \<union> unvoted c vs'"
  then have "fmlookup vs i \<noteq> Some False"
    using fmsubset_lookup [OF sub, of i False] by (auto simp: granted_def unvoted_def)
  with i show "i \<in> granted c vs \<union> unvoted c vs"
    by (cases "fmlookup vs i") (auto simp: granted_def unvoted_def)
qed

lemma card_granted_unvoted: "card (granted c vs \<union> unvoted c vs) = card (granted c vs) + card (unvoted c vs)"
  by (rule card_Un_disjoint) (auto simp: granted_def unvoted_def)

lemma majorities_meet:
  assumes "A \<subseteq> S" and "B \<subseteq> S" and "finite S" and "card S < 2 * card A" and "card S < 2 * card B"
  shows "\<exists>x. x \<in> A \<and> x \<in> B"
proof (rule ccontr)
  assume "\<nexists>x. x \<in> A \<and> x \<in> B"
  then have "A \<inter> B = {}" by blast
  then have "card A + card B = card (A \<union> B)"
    using assms by (metis card_Un_disjoint finite_subset)
  also have "\<dots> \<le> card S" using assms by (intro card_mono) auto
  finally show False using assms by linarith
qed

interpretation majority: vote_rule ids_of Majority_VoteResult
proof
  fix c :: MajorityConfig and vs vs' :: votes
  show "Majority_VoteResult c vs = Majority_VoteResult c vs'"
    if "\<And>i. i |\<in>| ids_of c \<Longrightarrow> fmlookup vs i = fmlookup vs' i"
  proof -
    have "granted c vs = granted c vs'" "unvoted c vs = unvoted c vs'"
      using that by (auto simp: granted_def unvoted_def)
    then show ?thesis by (simp add: Majority_VoteResult_sets)
  qed
  show "Majority_VoteResult c vs' = VoteWon" if "Majority_VoteResult c vs = VoteWon" "vs \<subseteq>\<^sub>f vs'"
    using that card_mono [OF finite_granted granted_mono [OF that(2)], of c]
    unfolding Majority_won_iff by linarith
  show "Majority_VoteResult c vs' = VoteLost" if "Majority_VoteResult c vs = VoteLost" "vs \<subseteq>\<^sub>f vs'"
    using that card_mono [OF _ granted_unvoted_mono [OF that(2)], of c]
    unfolding Majority_lost_iff card_granted_unvoted by simp
  show "Majority_VoteResult c vs \<noteq> VotePending" if "\<And>i. i |\<in>| ids_of c \<Longrightarrow> i |\<in>| fmdom vs"
  proof -
    have "unvoted c vs = {}" using that by (auto simp: unvoted_def fmdom_notI)
    then show ?thesis by (simp add: Majority_VoteResult_sets)
  qed
  show "\<exists>i. i |\<in>| ids_of c \<and> fmlookup vs i = Some True \<and> fmlookup vs' i = Some True"
    if "ids_of c \<noteq> {||}" "Majority_VoteResult c vs = VoteWon" "Majority_VoteResult c vs' = VoteWon"
  proof -
    have "\<exists>x. x \<in> granted c vs \<and> x \<in> granted c vs'"
      by (rule majorities_meet [where S = "fset (ids_of c)"])
        (use that in \<open>auto simp: Majority_won_iff fcard.rep_eq granted_def\<close>)
    then show ?thesis by (auto simp: granted_def)
  qed
qed

interpretation joint: vote_rule Joint_IDs Joint_VoteResult
proof
  fix c :: JointConfig and vs vs' :: votes
  show "Joint_VoteResult c vs = Joint_VoteResult c vs'"
    if "\<And>i. i |\<in>| Joint_IDs c \<Longrightarrow> fmlookup vs i = fmlookup vs' i"
  proof -
    have "Majority_VoteResult (fst c) vs = Majority_VoteResult (fst c) vs'"
      by (rule majority.voters_only) (simp add: that Joint_IDs_def)
    moreover have "Majority_VoteResult (snd c) vs = Majority_VoteResult (snd c) vs'"
      by (rule majority.voters_only) (simp add: that Joint_IDs_def)
    ultimately show ?thesis by (simp add: Joint_VoteResult_halves)
  qed
  show "Joint_VoteResult c vs' = VoteWon" if "Joint_VoteResult c vs = VoteWon" "vs \<subseteq>\<^sub>f vs'"
    using that majority.won_stable by (auto simp: Joint_won_iff)
  show "Joint_VoteResult c vs' = VoteLost" if "Joint_VoteResult c vs = VoteLost" "vs \<subseteq>\<^sub>f vs'"
    using that majority.lost_stable by (auto simp: Joint_lost_iff)
  show "Joint_VoteResult c vs \<noteq> VotePending" if "\<And>i. i |\<in>| Joint_IDs c \<Longrightarrow> i |\<in>| fmdom vs"
    using majority.decided [of "fst c" vs] majority.decided [of "snd c" vs] that
    by (cases "Majority_VoteResult (fst c) vs"; cases "Majority_VoteResult (snd c) vs")
      (auto simp: Joint_VoteResult_halves Joint_IDs_def Let_def)
  show "\<exists>i. i |\<in>| Joint_IDs c \<and> fmlookup vs i = Some True \<and> fmlookup vs' i = Some True"
    if "Joint_IDs c \<noteq> {||}" "Joint_VoteResult c vs = VoteWon" "Joint_VoteResult c vs' = VoteWon"
    using that majority.overlap [of "fst c" vs vs'] majority.overlap [of "snd c" vs vs']
    by (auto simp: Joint_won_iff Joint_IDs_def)
qed

section \<open>Printing a configuration\<close>

definition Majority_String :: "MajorityConfig \<Rightarrow> string" where
  "Majority_String c =
     ''('' @ concat (map (\<lambda>(i, v). (if i > 0 then '' '' else []) @ decimal (unat v))
        (enumerate 0 (Majority_Slice c))) @ '')''"

definition Joint_String :: "JointConfig \<Rightarrow> string" where
  "Joint_String c =
     (if fcard (ids_of (snd c)) > 0
      then Majority_String (fst c) @ ''&&'' @ Majority_String (snd c)
      else Majority_String (fst c))"

section \<open>Properties\<close>

text \<open>C7: two ballots that both win a joint configuration share a voter that granted both, so no two
  candidates can win when every voter grants at most one of them.\<close>

theorem joint_winners_overlap:
  assumes "Joint_IDs c \<noteq> {||}" and "Joint_VoteResult c vs = VoteWon" and "Joint_VoteResult c vs' = VoteWon"
  shows "\<exists>i. i |\<in>| Joint_IDs c \<and> fmlookup vs i = Some True \<and> fmlookup vs' i = Some True"
  by (rule joint.overlap [OF assms])

definition sample_votes :: "bool \<Rightarrow> votes" where
  "sample_votes b = fmupd 1 True (fmupd 2 True (fmupd 3 b fmempty))"

lemma sample_votes_won: "Joint_VoteResult (Some {|1, 2, 3|}, None) (sample_votes b) = VoteWon"
proof -
  let ?c = "Some {|1, 2, 3|} :: MajorityConfig"
  have sub: "{1, 2} \<subseteq> granted ?c (sample_votes b)"
    by (auto simp: granted_def sample_votes_def)
  have "card {1, 2 :: uint64} \<le> card (granted ?c (sample_votes b))"
    by (rule card_mono [OF finite_granted sub])
  moreover have "card {1, 2 :: uint64} = 2" by simp
  moreover have "fcard {|1, 2, 3 :: uint64|} = 3" by (simp add: fcard.rep_eq)
  ultimately show ?thesis by (simp add: Joint_won_iff Majority_won_iff)
qed

theorem joint_winners_overlap_witness:
  "\<exists>i. i |\<in>| Joint_IDs (Some {|1, 2, 3|}, None) \<and> fmlookup (sample_votes True) i = Some True \<and>
     fmlookup (sample_votes False) i = Some True"
  by (rule joint_winners_overlap [OF _ sample_votes_won sample_votes_won]) (simp add: Joint_IDs_def)

text \<open>C14: the outcome of a vote under a joint configuration is that of the exact counting rule, for every
  order in which the two maps of members are enumerated: each half is won by more than half of its
  members, lost when the granted and missing votes together no longer are, and pending otherwise; the
  joint outcome is the common one, a loss when either is lost, and pending otherwise.\<close>

theorem joint_vote_counting:
  assumes "enumerates is c1" and "enumerates js c2"
  shows "joint_vote is js (c1, c2) vs =
     (let half = (\<lambda>c. if ids_of c = {||} then VoteWon
        else if fcard (ids_of c) < 2 * card {i. i |\<in>| ids_of c \<and> fmlookup vs i = Some True} then VoteWon
        else if fcard (ids_of c) < 2 * card {i. i |\<in>| ids_of c \<and> fmlookup vs i \<noteq> Some False} then VotePending
        else VoteLost)
      in if half c1 = half c2 then half c1
         else if half c1 = VoteLost \<or> half c2 = VoteLost then VoteLost else VotePending)"
proof -
  have "granted c vs \<union> unvoted c vs = {i. i |\<in>| ids_of c \<and> fmlookup vs i \<noteq> Some False}" for c
    by (auto simp: granted_def unvoted_def)
  then have "card {i. i |\<in>| ids_of c \<and> fmlookup vs i \<noteq> Some False} = card (granted c vs) + card (unvoted c vs)" for c
    using card_granted_unvoted [of c vs] by simp
  then show ?thesis
    unfolding joint_vote_def Let_def fst_conv snd_conv majority_vote_sets [OF assms(1)] majority_vote_sets [OF assms(2)]
    by (simp add: granted_def)
qed

theorem joint_vote_counting_witness:
  "joint_vote [3, 1, 2] [] (Some {|1, 2, 3|}, None) (sample_votes False) = VoteWon"
proof -
  let ?c = "Some {|1, 2, 3|} :: MajorityConfig"
  have e: "enumerates [3, 1, 2] ?c" "enumerates [] (None :: MajorityConfig)"
    by (auto simp: enumerates_def)
  have "{i. i |\<in>| ids_of ?c \<and> fmlookup (sample_votes False) i = Some True} = {1, 2}"
    by (auto simp: sample_votes_def)
  moreover have "fcard {|1, 2, 3 :: uint64|} = 3" by (simp add: fcard.rep_eq)
  ultimately show ?thesis using joint_vote_counting [OF e, of "sample_votes False"] by simp
qed

end
