(* ===== verification/Tracker.thy ===== *)
theory Tracker
  imports Quorum Raftpb_Types
begin

text \<open>
  \<open>src/raft/core/tracker\<close>: the leader's view of each peer (\<open>progress.go\<close>, \<open>state.go\<close>) and the
  tracker that holds the active configuration, the progress of every peer and the ballot of the
  current election (\<open>tracker.go\<close>).  A \<open>map[uint64]*Progress\<close> is a finite map to the pointed-to
  values: the code never shares one \<open>Progress\<close> between two keys.  A method that updates its
  receiver returns the updated receiver.
\<close>

section \<open>Progress\<close>

datatype StateType = StateProbe | StateReplicate | StateSnapshot

record Progress =
  Match :: uint64
  Next :: uint64
  State :: StateType
  PendingSnapshot :: uint64
  RecentActive :: bool
  MsgAppFlowPaused :: bool
  IsLearner :: bool

definition zeroProgress :: Progress where
  "zeroProgress = \<lparr>Match = 0, Next = 0, State = StateProbe, PendingSnapshot = 0,
     RecentActive = False, MsgAppFlowPaused = False, IsLearner = False\<rparr>"

type_synonym ProgressMap = "(uint64, Progress) fmap"

definition ResetState :: "StateType \<Rightarrow> Progress \<Rightarrow> Progress" where
  "ResetState st pr = pr\<lparr>MsgAppFlowPaused := False, PendingSnapshot := 0, State := st\<rparr>"

definition BecomeProbe :: "Progress \<Rightarrow> Progress" where
  "BecomeProbe pr =
     (if State pr = StateSnapshot then
        (let pendingSnapshot = PendingSnapshot pr; pr = ResetState StateProbe pr
         in pr\<lparr>Next := max (Match pr + 1) (pendingSnapshot + 1)\<rparr>)
      else (let pr = ResetState StateProbe pr in pr\<lparr>Next := Match pr + 1\<rparr>))"

definition BecomeReplicate :: "Progress \<Rightarrow> Progress" where
  "BecomeReplicate pr = (let pr = ResetState StateReplicate pr in pr\<lparr>Next := Match pr + 1\<rparr>)"

text \<open>The boolean is true when the method returns the error of an unhandled state.\<close>

definition UpdateOnEntriesSend :: "nat \<Rightarrow> uint64 \<Rightarrow> uint64 \<Rightarrow> Progress \<Rightarrow> Progress \<times> bool" where
  "UpdateOnEntriesSend entries bytes nextIndex pr =
     (case State pr of
        StateReplicate \<Rightarrow> (pr, False)
      | StateProbe \<Rightarrow> ((if entries > 0 then pr\<lparr>MsgAppFlowPaused := True\<rparr> else pr), False)
      | StateSnapshot \<Rightarrow> (pr, True))"

definition MaybeUpdate :: "uint64 \<Rightarrow> Progress \<Rightarrow> Progress \<times> bool" where
  "MaybeUpdate n pr =
     (let updated = Match pr < n;
          pr = (if updated then pr\<lparr>Match := n, MsgAppFlowPaused := False\<rparr> else pr)
      in (pr\<lparr>Next := max (Next pr) (n + 1)\<rparr>, updated))"

definition IsPaused :: "Progress \<Rightarrow> bool" where
  "IsPaused pr =
     (case State pr of
        StateProbe \<Rightarrow> MsgAppFlowPaused pr
      | StateReplicate \<Rightarrow> MsgAppFlowPaused pr
      | StateSnapshot \<Rightarrow> True)"

text \<open>What every operation keeps: the next index to send lies beyond the matched one, unless the
  matched index is the last representable one.\<close>

definition progress_ok :: "Progress \<Rightarrow> bool" where
  "progress_ok pr \<longleftrightarrow> Match pr < Next pr"

lemma less_plus_one: "n \<noteq> - 1 \<Longrightarrow> (n :: uint64) < n + 1"
proof -
  assume "n \<noteq> - 1"
  then have "unat n \<noteq> unat (- 1 :: uint64)" by (simp add: word_unat_eq_iff)
  moreover have "unat (- 1 :: uint64) = 2 ^ 64 - 1" by (simp add: unsigned_minus_1_eq_mask mask_eq_exp_minus_1)
  moreover have "unat n < 2 ^ 64" using unsigned_less [of n] by simp
  ultimately have "unat (n + 1) = unat n + 1" by (subst unat_add_nowrap) simp_all
  then show ?thesis by (simp add: word_less_nat_alt)
qed

lemma BecomeProbe_ok: "Match pr \<noteq> - 1 \<Longrightarrow> progress_ok (BecomeProbe pr)"
  by (auto simp: progress_ok_def BecomeProbe_def ResetState_def Let_def less_plus_one less_max_iff_disj)

lemma BecomeReplicate_ok: "Match pr \<noteq> - 1 \<Longrightarrow> progress_ok (BecomeReplicate pr)"
  by (simp add: progress_ok_def BecomeReplicate_def ResetState_def Let_def less_plus_one)

lemma MaybeUpdate_ok: "\<lbrakk>progress_ok pr; n \<noteq> - 1\<rbrakk> \<Longrightarrow> progress_ok (fst (MaybeUpdate n pr))"
  by (auto simp: progress_ok_def MaybeUpdate_def Let_def less_plus_one less_max_iff_disj)

lemma MaybeUpdate_Match:
  "Match (fst (MaybeUpdate n pr)) = max (Match pr) n" "snd (MaybeUpdate n pr) \<longleftrightarrow> Match pr < n"
  by (auto simp: MaybeUpdate_def Let_def max_def)

section \<open>Configuration and tracker\<close>

record Config =
  cfgVoters :: JointConfig
  cfgAutoLeave :: bool
  cfgLearners :: idset
  cfgLearnersNext :: idset

definition zeroConfig :: Config where
  "zeroConfig = \<lparr>cfgVoters = (None, None), cfgAutoLeave = False, cfgLearners = None, cfgLearnersNext = None\<rparr>"

text \<open>The copies of the sets share no memory with the originals; \<open>AutoLeave\<close> is not copied.\<close>

definition Config_Clone :: "Config \<Rightarrow> Config" where
  "Config_Clone c = zeroConfig\<lparr>cfgVoters := (map_option id (fst (cfgVoters c)), map_option id (snd (cfgVoters c))),
     cfgLearners := map_option id (cfgLearners c), cfgLearnersNext := map_option id (cfgLearnersNext c)\<rparr>"

definition Config_String :: "Config \<Rightarrow> string" where
  "Config_String c =
     ''voters='' @ Joint_String (cfgVoters c) @
     (if cfgLearners c \<noteq> None then '' learners='' @ Majority_String (cfgLearners c) else []) @
     (if cfgLearnersNext c \<noteq> None then '' learners_next='' @ Majority_String (cfgLearnersNext c) else []) @
     (if cfgAutoLeave c then '' autoleave'' else [])"

record ProgressTracker =
  trkConfig :: Config
  trkProgress :: ProgressMap
  trkVotes :: votes
  MaxInflight :: int
  MaxInflightBytes :: uint64

definition MakeProgressTracker :: "int \<Rightarrow> uint64 \<Rightarrow> ProgressTracker" where
  "MakeProgressTracker maxInflight maxBytes =
     \<lparr>trkConfig = zeroConfig\<lparr>cfgVoters := (Some {||}, None)\<rparr>, trkProgress = fmempty,
      trkVotes = fmempty, MaxInflight = maxInflight, MaxInflightBytes = maxBytes\<rparr>"

definition Tracker_ConfState :: "ProgressTracker \<Rightarrow> ConfState" where
  "Tracker_ConfState p = (let c = trkConfig p in
     \<lparr>Voters = Majority_Slice (fst (cfgVoters c)), Learners = Majority_Slice (cfgLearners c),
      VotersOutgoing = Majority_Slice (snd (cfgVoters c)),
      LearnersNext = Majority_Slice (cfgLearnersNext c), AutoLeave = cfgAutoLeave c\<rparr>)"

definition VoterNodes :: "ProgressTracker \<Rightarrow> uint64 list" where
  "VoterNodes p = sorted_list_of_fset (Joint_IDs (cfgVoters (trkConfig p)))"

definition Tracker_Committed :: "ProgressTracker \<Rightarrow> uint64" where
  "Tracker_Committed p = 0"

subsection \<open>Visiting the peers in order\<close>

text \<open>The loops of \<open>insertionSort\<close>: \<open>sift sl j\<close> is the inner one, swapping downwards.\<close>

fun sift :: "'a::linorder list \<Rightarrow> nat \<Rightarrow> 'a list" where
  "sift sl 0 = sl"
| "sift sl (Suc j) =
     (if sl ! Suc j < sl ! j then sift (sl[Suc j := sl ! j, j := sl ! Suc j]) j else sl)"

definition insertionSort :: "'a::linorder list \<Rightarrow> 'a list" where
  "insertionSort sl = foldl sift sl [1..<length sl]"

lemma length_sift [simp]: "length (sift sl j) = length sl"
  by (induction sl j rule: sift.induct) simp_all

lemma mset_sift: "j < length sl \<Longrightarrow> mset (sift sl j) = mset sl"
  by (induction sl j rule: sift.induct) (simp_all add: mset_swap)

text \<open>Sifting down element \<open>j\<close> of a list whose first \<open>j\<close> elements are sorted is an insertion.\<close>

lemma insort_snoc: "x < y \<Longrightarrow> insort x (xs @ [y]) = insort x xs @ [y]"
  by (induction xs) auto

lemma take_Suc_snoc: "j < length sl \<Longrightarrow> take (Suc j) sl = take j sl @ [sl ! j]"
  by (rule take_Suc_conv_app_nth)

lemma sift_insert:
  "\<lbrakk>j < length sl; sorted (take j sl)\<rbrakk> \<Longrightarrow> sift sl j = insort (sl ! j) (take j sl) @ drop (Suc j) sl"
proof (induction sl j rule: sift.induct)
  case (1 sl)
  then show ?case by (cases sl) simp_all
next
  case (2 sl j)
  have pre: "take (Suc j) sl = take j sl @ [sl ! j]" using "2.prems" by (simp add: take_Suc_snoc)
  have sj: "sorted (take j sl)" using "2.prems" by (simp add: pre sorted_append)
  show ?case
  proof (cases "sl ! Suc j < sl ! j")
    case True
    let ?sl = "sl[Suc j := sl ! j, j := sl ! Suc j]"
    have "sift ?sl j = insort (sl ! Suc j) (take j sl) @ drop (Suc j) ?sl"
      using "2.IH" [OF True] "2.prems" sj by simp
    moreover have "drop (Suc j) ?sl = sl ! j # drop (Suc (Suc j)) sl"
      using "2.prems" by (simp add: drop_update_cancel Cons_nth_drop_Suc [symmetric])
    ultimately show ?thesis using True by (simp add: pre insort_snoc)
  next
    case False
    have le: "\<forall>x \<in> set (take (Suc j) sl). x \<le> sl ! Suc j"
      using False "2.prems" by (auto simp: pre sorted_append intro: order_trans)
    have "insort (sl ! Suc j) (take (Suc j) sl) = take (Suc j) sl @ [sl ! Suc j]"
      using "2.prems"(2) le by (rule sorted_insort_is_snoc)
    then show ?thesis
      using False "2.prems"(1) by (simp add: Cons_nth_drop_Suc)
  qed
qed

lemma sift_prefix:
  assumes "j < length sl" and "sorted (take j sl)"
  shows "sorted (take (Suc j) (sift sl j))"
proof -
  have "take (Suc j) (sift sl j) = insort (sl ! j) (take j sl)"
    using assms by (simp add: sift_insert)
  with assms(2) show ?thesis by (simp add: sorted_insort)
qed

lemma insertionSort_loop:
  "k \<le> length sl \<Longrightarrow>
     let r = foldl sift sl [1..<k] in length r = length sl \<and> mset r = mset sl \<and> sorted (take k r)"
proof (induction k)
  case 0
  then show ?case by simp
next
  case (Suc k)
  show ?case
  proof (cases "k = 0")
    case True
    then show ?thesis by (cases sl) simp_all
  next
    case False
    let ?r = "foldl sift sl [1..<k]"
    have "length ?r = length sl" "mset ?r = mset sl" "sorted (take k ?r)"
      using Suc by (simp_all add: Let_def)
    moreover have "foldl sift sl [1..<Suc k] = sift ?r k" using False by simp
    ultimately show ?thesis using Suc.prems by (simp add: Let_def mset_sift sift_prefix)
  qed
qed

lemma insertionSort_sort: "insertionSort sl = sort sl"
proof -
  have "mset (insertionSort sl) = mset sl" "sorted (insertionSort sl)"
    using insertionSort_loop [of "length sl" sl]
    unfolding insertionSort_def Let_def by (metis order_refl, metis order_refl take_all)
  then show ?thesis by (metis properties_for_sort)
qed

text \<open>The order in which \<open>Visit\<close> calls its closure, for any order in which the map is ranged over.\<close>

definition Visit_ids :: "ProgressMap \<Rightarrow> uint64 list" where
  "Visit_ids p = insertionSort (rev (sorted_list_of_fset (fmdom p)))"

definition Visit :: "(uint64 \<Rightarrow> 's \<Rightarrow> 's go) \<Rightarrow> ProgressMap \<Rightarrow> 's \<Rightarrow> 's go" where
  "Visit f p s = go_foldl (\<lambda>t i. f i t) s (Visit_ids p)"

lemma sort_enumeration:
  assumes "distinct xs" and "set xs = fset A"
  shows "sort xs = sorted_list_of_fset A"
proof -
  have "sorted_list_of_fset A = sorted_list_of_set (set xs)"
    by (simp add: sorted_list_of_fset.rep_eq assms(2))
  then show ?thesis using assms(1) by (simp add: sorted_list_of_set_sort_remdups distinct_remdups_id)
qed

lemma Visit_ids: "Visit_ids p = sorted_list_of_fset (fmdom p)"
  unfolding Visit_ids_def insertionSort_sort
  by (rule sort_enumeration) (simp_all add: sorted_list_of_fset.rep_eq)

lemma set_Visit_ids [simp]: "set (Visit_ids p) = fset (fmdom p)"
  by (simp add: Visit_ids)

subsection \<open>Counting votes\<close>

definition ResetVotes :: "ProgressTracker \<Rightarrow> ProgressTracker" where
  "ResetVotes p = p\<lparr>trkVotes := fmempty\<rparr>"

definition RecordVote :: "uint64 \<Rightarrow> bool \<Rightarrow> ProgressTracker \<Rightarrow> ProgressTracker" where
  "RecordVote i v p =
     (case fmlookup (trkVotes p) i of
        None \<Rightarrow> p\<lparr>trkVotes := fmupd i v (trkVotes p)\<rparr>
      | Some _ \<Rightarrow> p)"

fun tally :: "ProgressTracker \<Rightarrow> uint64 list \<Rightarrow> nat \<Rightarrow> nat \<Rightarrow> nat \<times> nat" where
  "tally p [] yes no = (yes, no)"
| "tally p (i # is) yes no =
     (case fmlookup (trkProgress p) i of
        None \<Rightarrow> tally p is yes no
      | Some pr \<Rightarrow>
          if IsLearner pr then tally p is yes no
          else (case fmlookup (trkVotes p) i of
              None \<Rightarrow> tally p is yes no
            | Some True \<Rightarrow> tally p is (yes + 1) no
            | Some False \<Rightarrow> tally p is yes (no + 1)))"

definition TallyVotes :: "ProgressTracker \<Rightarrow> nat \<times> nat \<times> VoteResult" where
  "TallyVotes p =
     (case tally p (sorted_list_of_fset (fmdom (trkProgress p))) 0 0 of
        (yes, no) \<Rightarrow>
          (yes, no, Joint_VoteResult (cfgVoters (trkConfig p)) (trkVotes p)))"

lemma RecordVote_keeps [simp]:
  "trkConfig (RecordVote i v p) = trkConfig p"
  "trkProgress (RecordVote i v p) = trkProgress p"
  by (simp_all add: RecordVote_def split: option.split)

lemma RecordVote_extends: "trkVotes p \<subseteq>\<^sub>f trkVotes (RecordVote i v p)"
  by (auto simp: RecordVote_def fmsubset.rep_eq map_le_def dom_def split: option.split)

lemma RecordVote_lookup:
  "fmlookup (trkVotes (RecordVote i v p)) j =
     (if j = i \<and> fmlookup (trkVotes p) i = None then Some v else fmlookup (trkVotes p) j)"
  by (auto simp: RecordVote_def split: option.split)

lemma TallyVotes_result [simp]:
  "snd (snd (TallyVotes p)) = Joint_VoteResult (cfgVoters (trkConfig p)) (trkVotes p)"
  by (simp add: TallyVotes_def split: prod.split)

lemma tally_settled:
  assumes "snd (snd (TallyVotes p)) \<noteq> VotePending"
  shows "snd (snd (TallyVotes (RecordVote i v p))) = snd (snd (TallyVotes p))"
  using assms joint.settled_stable [OF _ RecordVote_extends] by simp

section \<open>Properties\<close>

text \<open>C16: \<open>insertionSort\<close>, the in-place swapping loop, returns the sorted permutation of its input; so
  \<open>Visit\<close> visits the tracked peers in increasing order of id in whatever order the map was ranged
  over.\<close>

theorem visit_order_stable:
  assumes "distinct xs" and "set xs = fset (fmdom p)"
  shows "insertionSort xs = Visit_ids p \<and> sorted (Visit_ids p) \<and> mset (insertionSort xs) = mset xs"
proof (intro conjI)
  show "insertionSort xs = Visit_ids p"
    using assms by (simp add: insertionSort_sort sort_enumeration Visit_ids sorted_list_of_fset.rep_eq)
  show "sorted (Visit_ids p)" by (simp add: Visit_ids sorted_list_of_fset.rep_eq)
  show "mset (insertionSort xs) = mset xs" by (simp add: insertionSort_sort)
qed

theorem visit_order_stable_witness:
  "insertionSort [3, 1, 2] = Visit_ids (fmupd 1 zeroProgress (fmupd 2 zeroProgress (fmupd 3 zeroProgress fmempty)))"
  by (rule visit_order_stable [THEN conjunct1]) auto

text \<open>C17: every transition of a peer's progress keeps the next index to send above the matched one, and
  an acknowledgement moves the match forward, never back, reporting exactly whether it moved.\<close>

theorem progress_transitions:
  assumes "progress_ok pr" and "Match pr \<noteq> - 1" and "n \<noteq> - 1"
  shows "progress_ok (BecomeProbe pr) \<and> progress_ok (BecomeReplicate pr) \<and>
    progress_ok (fst (MaybeUpdate n pr)) \<and> Match (fst (MaybeUpdate n pr)) = max (Match pr) n \<and>
    (snd (MaybeUpdate n pr) \<longleftrightarrow> Match pr < n) \<and> Next pr \<le> Next (fst (MaybeUpdate n pr))"
proof -
  have "Next pr \<le> Next (fst (MaybeUpdate n pr))" by (simp add: MaybeUpdate_def Let_def)
  then show ?thesis
    using BecomeProbe_ok [OF assms(2)] BecomeReplicate_ok [OF assms(2)] MaybeUpdate_ok [OF assms(1,3)]
      MaybeUpdate_Match [of n pr] by blast
qed

theorem progress_transitions_witness:
  "progress_ok (zeroProgress\<lparr>Next := 5\<rparr>) \<and> Match (fst (MaybeUpdate 7 (zeroProgress\<lparr>Next := 5\<rparr>))) = 7"
  using progress_transitions [of "zeroProgress\<lparr>Next := 5\<rparr>" 7]
  by (simp add: progress_ok_def zeroProgress_def)

text \<open>The first vote recorded for a node is final, and once an election is decided no further vote
  changes its outcome.\<close>

theorem election_outcome_final:
  assumes "snd (snd (TallyVotes p)) \<noteq> VotePending"
  shows "snd (snd (TallyVotes (RecordVote i v p))) = snd (snd (TallyVotes p)) \<and>
    (fmlookup (trkVotes p) j \<noteq> None \<longrightarrow>
      fmlookup (trkVotes (RecordVote i v p)) j = fmlookup (trkVotes p) j)"
  using tally_settled [OF assms] by (simp add: RecordVote_lookup)

theorem election_outcome_final_witness:
  "snd (snd (TallyVotes (RecordVote 9 False (MakeProgressTracker 1 1)))) = VoteWon"
proof -
  have "snd (snd (TallyVotes (MakeProgressTracker 1 1))) = VoteWon"
    by (simp add: MakeProgressTracker_def zeroConfig_def Joint_won_iff Majority_won_iff)
  then show ?thesis using election_outcome_final [of "MakeProgressTracker 1 1" 9 False] by simp
qed

end
