(* ===== verification/Confchange.thy ===== *)
theory Confchange
  imports Tracker Raftpb_ConfChange
begin

text \<open>
  \<open>src/raft/core/confchange/confchange.go\<close>: applying simple configuration changes to a copy of the
  tracker's configuration.  The sets and the progress map that the code mutates through pointers
  are threaded as the pair of the copied configuration and the copied progress map.
\<close>

record Changer =
  chTracker :: ProgressTracker
  LastIndex :: uint64

datatype change_err =
    SimpleInJoint
  | TooManyVotersChanged
  | UnexpectedConfType int32
  | RemovedAllVoters

type_synonym change_state = "Config \<times> ProgressMap"

definition incoming :: "JointConfig \<Rightarrow> MajorityConfig" where
  "incoming voters = fst voters"

definition outgoing :: "JointConfig \<Rightarrow> MajorityConfig" where
  "outgoing voters = snd voters"

definition joint_config :: "Config \<Rightarrow> bool" where
  "joint_config cfg = (fcard (ids_of (outgoing (cfgVoters cfg))) > 0)"

text \<open>Writing a key of a Go set panics on the nil map; deleting from it does nothing.\<close>

definition set_insert :: "uint64 \<Rightarrow> idset \<Rightarrow> idset go" where
  "set_insert i m = (case m of None \<Rightarrow> Inl NilMapWrite | Some s \<Rightarrow> Inr (Some (finsert i s)))"

definition set_delete :: "uint64 \<Rightarrow> idset \<Rightarrow> idset" where
  "set_delete i m = map_option (\<lambda>s. s |-| {|i|}) m"

definition nilAwareAdd :: "idset \<Rightarrow> uint64 \<Rightarrow> idset" where
  "nilAwareAdd m i = (let s = (case m of None \<Rightarrow> {||} | Some s \<Rightarrow> s) in Some (finsert i s))"

definition nilAwareDelete :: "idset \<Rightarrow> uint64 \<Rightarrow> idset" where
  "nilAwareDelete m i =
     (case m of
        None \<Rightarrow> None
      | Some s \<Rightarrow> (let s = s |-| {|i|} in if fcard s = 0 then None else Some s))"

definition symdiff :: "idset \<Rightarrow> idset \<Rightarrow> nat" where
  "symdiff l r =
     foldl (\<lambda>n p. foldl (\<lambda>n i. if i |\<notin>| ids_of (snd p) then n + 1 else n) n (Majority_Slice (fst p)))
       0 [(l, r), (r, l)]"

definition checkInvariants :: "Config \<Rightarrow> ProgressMap \<Rightarrow> change_err option" where
  "checkInvariants cfg trk = None"

definition checkAndReturn :: "Config \<Rightarrow> ProgressMap \<Rightarrow> change_err + change_state" where
  "checkAndReturn cfg trk =
     (case checkInvariants cfg trk of Some e \<Rightarrow> Inl e | None \<Rightarrow> Inr (cfg, trk))"

definition checkAndCopy :: "Changer \<Rightarrow> change_err + change_state" where
  "checkAndCopy c =
     checkAndReturn (Config_Clone (trkConfig (chTracker c))) (fmmap id (trkProgress (chTracker c)))"

definition initProgress :: "Changer \<Rightarrow> uint64 \<Rightarrow> bool \<Rightarrow> change_state \<Rightarrow> change_state go" where
  "initProgress c i isLearner = (\<lambda>(cfg, trk).
     go_bind
       (if \<not> isLearner then
          go_bind (set_insert i (incoming (cfgVoters cfg)))
            (\<lambda>v. Inr (cfg\<lparr>cfgVoters := (v, outgoing (cfgVoters cfg))\<rparr>))
        else Inr (cfg\<lparr>cfgLearners := nilAwareAdd (cfgLearners cfg) i\<rparr>))
       (\<lambda>cfg. Inr (cfg, fmupd i
          (zeroProgress\<lparr>Next := LastIndex c, Match := 0, IsLearner := isLearner, RecentActive := True\<rparr>)
          trk)))"

definition makeVoter :: "Changer \<Rightarrow> uint64 \<Rightarrow> change_state \<Rightarrow> change_state go" where
  "makeVoter c i = (\<lambda>(cfg, trk).
     case fmlookup trk i of
       None \<Rightarrow> initProgress c i False (cfg, trk)
     | Some pr \<Rightarrow>
         (let trk = fmupd i (pr\<lparr>IsLearner := False\<rparr>) trk;
              cfg = cfg\<lparr>cfgLearners := nilAwareDelete (cfgLearners cfg) i\<rparr>;
              cfg = cfg\<lparr>cfgLearnersNext := nilAwareDelete (cfgLearnersNext cfg) i\<rparr>
          in go_bind (set_insert i (incoming (cfgVoters cfg)))
               (\<lambda>v. Inr (cfg\<lparr>cfgVoters := (v, outgoing (cfgVoters cfg))\<rparr>, trk))))"

definition remove :: "uint64 \<Rightarrow> change_state \<Rightarrow> change_state" where
  "remove i = (\<lambda>(cfg, trk).
     if i |\<notin>| fmdom trk then (cfg, trk)
     else
       (let cfg = cfg\<lparr>cfgVoters := (set_delete i (incoming (cfgVoters cfg)), outgoing (cfgVoters cfg))\<rparr>;
            cfg = cfg\<lparr>cfgLearners := nilAwareDelete (cfgLearners cfg) i\<rparr>;
            cfg = cfg\<lparr>cfgLearnersNext := nilAwareDelete (cfgLearnersNext cfg) i\<rparr>
        in (cfg, if i |\<notin>| ids_of (outgoing (cfgVoters cfg)) then fmdrop i trk else trk)))"

fun apply_changes :: "Changer \<Rightarrow> ConfChangeSingle list \<Rightarrow> change_state \<Rightarrow> (change_err + change_state) go" where
  "apply_changes c [] (cfg, trk) =
     Inr (if fcard (ids_of (incoming (cfgVoters cfg))) = 0 then Inl RemovedAllVoters else Inr (cfg, trk))"
| "apply_changes c (cc # ccs) s =
     (if csNodeID cc = 0 then apply_changes c ccs s
      else if csType cc = ConfChangeAddNode then
        go_bind (makeVoter c (csNodeID cc) s) (apply_changes c ccs)
      else if csType cc = ConfChangeRemoveNode then apply_changes c ccs (remove (csNodeID cc) s)
      else if csType cc = ConfChangeUpdateNode then apply_changes c ccs s
      else Inr (Inl (UnexpectedConfType (csType cc))))"

definition Simple :: "Changer \<Rightarrow> ConfChangeSingle list \<Rightarrow> (change_err + change_state) go" where
  "Simple c ccs =
     (case checkAndCopy c of
        Inl e \<Rightarrow> Inr (Inl e)
      | Inr (cfg, trk) \<Rightarrow>
          if joint_config cfg then Inr (Inl SimpleInJoint)
          else go_bind (apply_changes c ccs (cfg, trk)) (\<lambda>r. case r of
              Inl e \<Rightarrow> Inr (Inl e)
            | Inr (cfg, trk) \<Rightarrow>
                if symdiff (incoming (cfgVoters (trkConfig (chTracker c)))) (incoming (cfgVoters cfg)) > 1
                then Inr (Inl TooManyVotersChanged)
                else Inr (checkAndReturn cfg trk)))"

section \<open>Facts on the operations\<close>

lemma Config_Clone_sel [simp]:
  "cfgVoters (Config_Clone c) = cfgVoters c" "cfgLearners (Config_Clone c) = cfgLearners c"
  "cfgLearnersNext (Config_Clone c) = cfgLearnersNext c" "cfgAutoLeave (Config_Clone c) = False"
  by (simp_all add: Config_Clone_def zeroConfig_def option.map_id)

lemma joint_config_Clone [simp]: "joint_config (Config_Clone cfg) = joint_config cfg"
  by (simp add: joint_config_def)

lemma checkAndCopy_Inr [simp]:
  "checkAndCopy c = Inr (Config_Clone (trkConfig (chTracker c)), trkProgress (chTracker c))"
  by (simp add: checkAndCopy_def checkAndReturn_def checkInvariants_def fmap.map_id)

lemma ids_of_nilAwareDelete [simp]: "ids_of (nilAwareDelete m i) = ids_of m |-| {|i|}"
  by (auto simp: nilAwareDelete_def Let_def split: option.split)

lemma ids_of_set_delete [simp]: "ids_of (set_delete i m) = ids_of m |-| {|i|}"
  by (cases m) (simp_all add: set_delete_def)

lemma ids_of_nilAwareAdd [simp]: "ids_of (nilAwareAdd m i) = finsert i (ids_of m)"
  by (cases m) (simp_all add: nilAwareAdd_def)

lemma set_insert_Some [simp]: "set_insert i (Some s) = Inr (Some (finsert i s))"
  by (simp add: set_insert_def)

lemma foldl_count: "foldl (\<lambda>n i. if P i then n + 1 else n) n xs = n + length (filter P xs)" for n :: nat
  by (induction xs arbitrary: n) simp_all

lemma symdiff_card:
  "symdiff l r = card (fset (ids_of l) - fset (ids_of r)) + card (fset (ids_of r) - fset (ids_of l))"
proof -
  have "length (filter (\<lambda>i. i |\<notin>| ids_of b) (Majority_Slice a)) = card (fset (ids_of a) - fset (ids_of b))"
    for a b
    by (subst distinct_card [symmetric]) (auto intro: arg_cong [where f = card])
  then show ?thesis by (simp add: symdiff_def foldl_count)
qed

text \<open>
  The shape of a configuration and its progress map: the incoming configuration is a real map,
  and every voter and learner of the configuration has a progress entry.
\<close>

definition config_ok :: "change_state \<Rightarrow> bool" where
  "config_ok = (\<lambda>(cfg, trk).
     (\<exists>v. incoming (cfgVoters cfg) = Some v) \<and>
     Joint_IDs (cfgVoters cfg) |\<subseteq>| fmdom trk \<and>
     ids_of (cfgLearners cfg) |\<subseteq>| fmdom trk \<and> ids_of (cfgLearnersNext cfg) |\<subseteq>| fmdom trk)"

lemma makeVoter_total:
  "config_ok s \<Longrightarrow> \<exists>s'. makeVoter c i s = Inr s' \<and> config_ok s'"
  by (cases s)
    (auto simp: config_ok_def makeVoter_def initProgress_def incoming_def outgoing_def Joint_IDs_def
      Let_def split: option.split prod.splits)

lemma remove_ok: "config_ok s \<Longrightarrow> config_ok (remove i s)"
  by (cases s)
    (auto simp: config_ok_def remove_def incoming_def outgoing_def Joint_IDs_def set_delete_def Let_def)

lemma apply_changes_total:
  "config_ok s \<Longrightarrow> \<exists>r. apply_changes c ccs s = Inr r \<and>
     (\<forall>s'. r = Inr s' \<longrightarrow> config_ok s' \<and> ids_of (incoming (cfgVoters (fst s'))) \<noteq> {||})"
proof (induction c ccs s rule: apply_changes.induct)
  case (2 c cc ccs s)
  then show ?case using makeVoter_total [of s c "csNodeID cc"] remove_ok [of s "csNodeID cc"] by auto
qed simp

lemma Simple_unfold:
  "Simple c ccs =
     (if joint_config (trkConfig (chTracker c)) then Inr (Inl SimpleInJoint)
      else go_bind (apply_changes c ccs
          (Config_Clone (trkConfig (chTracker c)), trkProgress (chTracker c)))
        (\<lambda>r. case r of
            Inl e \<Rightarrow> Inr (Inl e)
          | Inr s \<Rightarrow> Inr (if symdiff (incoming (cfgVoters (trkConfig (chTracker c))))
              (incoming (cfgVoters (fst s))) > 1 then Inl TooManyVotersChanged else Inr s)))"
proof (cases "joint_config (trkConfig (chTracker c))")
  case True
  then show ?thesis by (simp add: Simple_def)
next
  case False
  then show ?thesis
    by (simp add: Simple_def checkAndReturn_def checkInvariants_def split_def if_distrib [of Inr]
        cong: sum.case_cong if_cong)
qed

lemma Simple_total:
  assumes "config_ok (trkConfig (chTracker c), trkProgress (chTracker c))"
  shows "(\<exists>e. Simple c ccs = Inr (Inl e)) \<or> (\<exists>s'. Simple c ccs = Inr (Inr s') \<and> config_ok s' \<and>
    ids_of (incoming (cfgVoters (fst s'))) \<noteq> {||})"
proof -
  let ?s = "(Config_Clone (trkConfig (chTracker c)), trkProgress (chTracker c))"
  have "config_ok ?s" using assms by (simp add: config_ok_def)
  from apply_changes_total [OF this, of c ccs] obtain r where
    r: "apply_changes c ccs ?s = Inr r"
      "\<And>s'. r = Inr s' \<Longrightarrow> config_ok s' \<and> ids_of (incoming (cfgVoters (fst s'))) \<noteq> {||}"
    by blast
  then show ?thesis by (cases r) (auto simp: Simple_unfold simp del: split_paired_Ex)
qed

lemma Simple_symdiff:
  assumes "Simple c ccs = Inr (Inr s)"
  shows "symdiff (incoming (cfgVoters (trkConfig (chTracker c)))) (incoming (cfgVoters (fst s))) \<le> 1"
proof -
  from assms obtain r where
    "(case r of Inl e \<Rightarrow> Inr (Inl e)
       | Inr s \<Rightarrow> Inr (if symdiff (incoming (cfgVoters (trkConfig (chTracker c))))
           (incoming (cfgVoters (fst s))) > 1 then Inl TooManyVotersChanged else Inr s)) =
       (Inr (Inr s) :: (change_err + change_state) go)"
    unfolding Simple_unfold by (auto split: if_splits simp del: One_nat_def)
  then show ?thesis by (cases r) (simp_all split: if_splits)
qed

text \<open>Majorities of two configurations that differ in at most one voter meet.\<close>

lemma close_majorities_meet:
  assumes "finite A" "finite B" and d: "card (A - B) + card (B - A) \<le> 1"
    and P: "P \<subseteq> A" "card A < 2 * card P" and Q: "Q \<subseteq> B" "card B < 2 * card Q"
  shows "\<exists>x. x \<in> P \<and> x \<in> Q"
proof (rule ccontr)
  assume "\<nexists>x. x \<in> P \<and> x \<in> Q"
  then have "card (P \<union> Q) = card P + card Q"
    using assms by (intro card_Un_disjoint) (auto intro: finite_subset)
  moreover have "card (P \<union> Q) \<le> card (A \<union> B)" using assms by (intro card_mono) auto
  moreover have "card (A \<union> B) = card (A \<inter> B) + card (A - B) + card (B - A)"
  proof -
    have "A \<union> B = (A \<inter> B) \<union> ((A - B) \<union> (B - A))" by blast
    then have "card (A \<union> B) = card (A \<inter> B) + card ((A - B) \<union> (B - A))"
      using assms(1,2) by (metis (no_types, lifting) card_Un_disjoint finite_Int finite_Un finite_Diff
          Diff_disjoint Int_Diff inf_commute inf_sup_distrib1 Diff_Int_distrib2 Un_Int_eq(3) sup_bot.right_neutral)
    moreover have "card ((A - B) \<union> (B - A)) = card (A - B) + card (B - A)"
      using assms(1,2) by (intro card_Un_disjoint) auto
    ultimately show ?thesis by simp
  qed
  moreover have "card A = card (A \<inter> B) + card (A - B)" "card B = card (A \<inter> B) + card (B - A)"
    using assms(1,2) by (metis card_Int_Diff, metis card_Int_Diff inf_commute)
  ultimately show False using d P(2) Q(2) by linarith
qed

section \<open>Properties\<close>

text \<open>C13: on a well-formed configuration a list of simple changes either is refused with an error or
  gives a well-formed configuration with at least one voter; it never panics.\<close>

theorem simple_change_safe:
  assumes "config_ok (trkConfig (chTracker c), trkProgress (chTracker c))"
  shows "(\<exists>e. Simple c ccs = Inr (Inl e)) \<or>
    (\<exists>cfg trk. Simple c ccs = Inr (Inr (cfg, trk)) \<and> config_ok (cfg, trk) \<and>
      ids_of (incoming (cfgVoters cfg)) \<noteq> {||})"
  using Simple_total [OF assms, of ccs] by auto

definition sample_changer :: Changer where
  "sample_changer = \<lparr>chTracker = MakeProgressTracker 1 1, LastIndex = 3\<rparr>"

lemma sample_changer_ok: "config_ok (trkConfig (chTracker sample_changer), trkProgress (chTracker sample_changer))"
  by (simp add: sample_changer_def MakeProgressTracker_def zeroConfig_def config_ok_def incoming_def Joint_IDs_def)

lemma sample_change: "Simple sample_changer [\<lparr>csType = ConfChangeAddNode, csNodeID = 4\<rparr>] =
  Inr (Inr (zeroConfig\<lparr>cfgVoters := (Some {|4|}, None)\<rparr>,
    fmupd 4 (zeroProgress\<lparr>Next := 3, RecentActive := True\<rparr>) fmempty))"
  by (simp add: Simple_unfold sample_changer_def MakeProgressTracker_def joint_config_def outgoing_def
      incoming_def Config_Clone_def makeVoter_def initProgress_def zeroConfig_def zeroProgress_def
      symdiff_card fcard.rep_eq)

theorem simple_change_safe_witness:
  "(\<exists>e. Simple sample_changer [\<lparr>csType = ConfChangeAddNode, csNodeID = 4\<rparr>] = Inr (Inl e)) \<or>
   (\<exists>cfg trk. Simple sample_changer [\<lparr>csType = ConfChangeAddNode, csNodeID = 4\<rparr>] = Inr (Inr (cfg, trk)) \<and>
      config_ok (cfg, trk) \<and> ids_of (incoming (cfgVoters cfg)) \<noteq> {||})"
  by (rule simple_change_safe [OF sample_changer_ok])

text \<open>C12: one-at-a-time membership change is safe: a ballot that wins the configuration before a simple
  change and a ballot that wins the one after it share a voter that granted both.\<close>

theorem simple_change_quorums_meet:
  assumes "Simple c ccs = Inr (Inr (cfg, trk))"
    and "ids_of (incoming (cfgVoters (trkConfig (chTracker c)))) \<noteq> {||}"
    and "ids_of (incoming (cfgVoters cfg)) \<noteq> {||}"
    and "Majority_VoteResult (incoming (cfgVoters (trkConfig (chTracker c)))) vs = VoteWon"
    and "Majority_VoteResult (incoming (cfgVoters cfg)) vs' = VoteWon"
  shows "\<exists>i. fmlookup vs i = Some True \<and> fmlookup vs' i = Some True"
proof -
  let ?a = "incoming (cfgVoters (trkConfig (chTracker c)))" and ?b = "incoming (cfgVoters cfg)"
  have "symdiff ?a ?b \<le> 1" using Simple_symdiff [OF assms(1)] by simp
  then have "\<exists>x. x \<in> granted ?a vs \<and> x \<in> granted ?b vs'"
    using assms(2-5) unfolding symdiff_card Majority_won_iff fcard.rep_eq
    by (intro close_majorities_meet [where A = "fset (ids_of ?a)" and B = "fset (ids_of ?b)"])
      (auto simp: granted_def)
  then show ?thesis by (auto simp: granted_def)
qed

definition grown_changer :: Changer where
  "grown_changer = \<lparr>chTracker = (MakeProgressTracker 1 1)
     \<lparr>trkConfig := zeroConfig\<lparr>cfgVoters := (Some {|4|}, None)\<rparr>,
      trkProgress := fmupd 4 zeroProgress fmempty\<rparr>, LastIndex = 3\<rparr>"

lemma grown_change: "Simple grown_changer [\<lparr>csType = ConfChangeAddNode, csNodeID = 5\<rparr>] =
  Inr (Inr (zeroConfig\<lparr>cfgVoters := (Some {|5, 4|}, None)\<rparr>,
    fmupd 5 (zeroProgress\<lparr>Next := 3, RecentActive := True\<rparr>) (fmupd 4 zeroProgress fmempty)))"
  by (simp add: Simple_unfold grown_changer_def MakeProgressTracker_def joint_config_def outgoing_def
      incoming_def Config_Clone_def makeVoter_def initProgress_def zeroConfig_def zeroProgress_def
      symdiff_card fcard.rep_eq)

theorem simple_change_quorums_meet_witness:
  "\<exists>i. fmlookup (fmupd 4 True fmempty) i = Some True \<and>
     fmlookup (fmupd (4 :: uint64) True (fmupd 5 True fmempty)) i = Some True"
proof (rule simple_change_quorums_meet [OF grown_change])
  have g: "granted (Some {|4|}) (fmupd 4 True fmempty) = {4}"
      "granted (Some {|5, 4|}) (fmupd 4 True (fmupd 5 True fmempty)) = {5, 4}"
    by (auto simp: granted_def)
  show "ids_of (incoming (cfgVoters (trkConfig (chTracker grown_changer)))) \<noteq> {||}"
    by (simp add: grown_changer_def incoming_def)
  show "Majority_VoteResult (incoming (cfgVoters (trkConfig (chTracker grown_changer)))) (fmupd 4 True fmempty) = VoteWon"
    using g by (simp add: grown_changer_def incoming_def Majority_won_iff fcard.rep_eq)
  show "Majority_VoteResult (incoming (cfgVoters (zeroConfig\<lparr>cfgVoters := (Some {|5, 4|}, None)\<rparr>)))
      (fmupd 4 True (fmupd 5 True fmempty)) = VoteWon"
    using g by (simp add: incoming_def Majority_won_iff fcard.rep_eq)
qed (simp add: incoming_def)

end
