(* ===== verification/Raft_State.thy ===== *)
theory Raft_State
  imports Core_Log Confchange "HOL-Library.While_Combinator"
begin

text \<open>
  \<open>src/raft/core/raft.go\<close>, first part: the configuration, the state of a raft node, the messages it
  sends, the log entries it appends and the transitions between its roles.  \<open>Raft_Step\<close> holds the
  message handlers.

  A method of \<open>*raft\<close> returns the updated state.  The function-valued fields \<open>tick\<close> and \<open>step\<close> range
  over the functions the code assigns to them.  The draws of \<open>globalRand\<close> come from the sequence
  \<open>r_rand\<close>, which stands for the operating system's random source.
\<close>

section \<open>Configuration\<close>

text \<open>The logger of the configuration is not modelled.\<close>

record RaftConfig =
  cfgID :: uint64
  ElectionTick :: int
  HeartbeatTick :: int
  cfgStorage :: "MemoryStorage option"
  AsyncStorageWrites :: bool
  MaxSizePerMsg :: uint64
  MaxCommittedSizePerReady :: uint64
  MaxUncommittedEntriesSize :: uint64
  MaxInflightMsgs :: int
  cfgMaxInflightBytes :: uint64
  CheckQuorum :: bool
  PreVote :: bool

datatype config_err = NoneAsID | LocalTargetAsID | HeartbeatTickNotPositive | ElectionTickTooSmall |
  StorageNil | MaxInflightMsgsNotPositive | MaxInflightBytesTooSmall

definition validate :: "RaftConfig \<Rightarrow> config_err + RaftConfig" where
  "validate c =
     (if cfgID c = 0 then Inl NoneAsID
      else if IsLocalMsgTarget (cfgID c) then Inl LocalTargetAsID
      else if HeartbeatTick c \<le> 0 then Inl HeartbeatTickNotPositive
      else if ElectionTick c \<le> HeartbeatTick c then Inl ElectionTickTooSmall
      else if cfgStorage c = None then Inl StorageNil
      else
        (let c = (if MaxUncommittedEntriesSize c = 0 then c\<lparr>MaxUncommittedEntriesSize := noLimit\<rparr> else c);
             c = (if MaxCommittedSizePerReady c = 0 then c\<lparr>MaxCommittedSizePerReady := MaxSizePerMsg c\<rparr> else c)
         in if MaxInflightMsgs c \<le> 0 then Inl MaxInflightMsgsNotPositive
            else if cfgMaxInflightBytes c = 0 then Inr (c\<lparr>cfgMaxInflightBytes := noLimit\<rparr>)
            else if cfgMaxInflightBytes c < MaxSizePerMsg c then Inl MaxInflightBytesTooSmall
            else Inr c))"

section \<open>State\<close>

datatype RoleType = StateFollower | StateCandidate | StateLeader | StatePreCandidate

datatype CampaignType = campaignPreElection | campaignElection | campaignTransfer

fun campaign_name :: "CampaignType \<Rightarrow> string" where
  "campaign_name campaignPreElection = ''CampaignPreElection''"
| "campaign_name campaignElection = ''CampaignElection''"
| "campaign_name campaignTransfer = ''CampaignTransfer''"

fun RoleType_String :: "RoleType \<Rightarrow> string" where
  "RoleType_String StateFollower = ''StateFollower''"
| "RoleType_String StateCandidate = ''StateCandidate''"
| "RoleType_String StateLeader = ''StateLeader''"
| "RoleType_String StatePreCandidate = ''StatePreCandidate''"

datatype tickFunc = tickNil | tickElectionF | tickHeartbeatF
datatype stepFunc = stepNil | stepFollowerF | stepCandidateF | stepLeaderF

datatype step_err = ErrProposalDropped

record ReadState =
  rsIndex :: uint64
  rsRequestCtx :: bytes

record raft =
  r_id :: uint64
  r_Term :: uint64
  r_Vote :: uint64
  r_readStates :: "ReadState list"
  r_raftLog :: raftLog
  r_maxMsgSize :: uint64
  r_maxUncommittedSize :: uint64
  r_trk :: ProgressTracker
  r_state :: RoleType
  r_isLearner :: bool
  r_msgs :: "Message list"
  r_msgsAfterAppend :: "Message list"
  r_lead :: uint64
  r_leadTransferee :: uint64
  r_pendingConfIndex :: uint64
  r_disableConfChangeValidation :: bool
  r_electionElapsed :: int
  r_heartbeatElapsed :: int
  r_checkQuorum :: bool
  r_preVote :: bool
  r_heartbeatTimeout :: int
  r_electionTimeout :: int
  r_randomizedElectionTimeout :: int
  r_disableProposalForwarding :: bool
  r_stepDownOnRemoval :: bool
  r_tick :: tickFunc
  r_step :: stepFunc
  r_pendingReadIndexMessages :: Message
  r_rand :: "nat \<Rightarrow> nat"

definition progress_of :: "uint64 \<Rightarrow> raft \<Rightarrow> Progress option" where
  "progress_of i r = fmlookup (trkProgress (r_trk r)) i"

definition set_progress :: "uint64 \<Rightarrow> Progress \<Rightarrow> raft \<Rightarrow> raft" where
  "set_progress i pr r = r\<lparr>r_trk := (r_trk r)\<lparr>trkProgress := fmupd i pr (trkProgress (r_trk r))\<rparr>\<rparr>"

section \<open>Random election timeouts\<close>

text \<open>\<open>crypto/rand.Int\<close> panics for a bound that is not positive.\<close>

definition Intn :: "int \<Rightarrow> (nat \<Rightarrow> nat) \<Rightarrow> (int \<times> (nat \<Rightarrow> nat)) go" where
  "Intn n rnd =
     (if n \<le> 0 then Inl (ExplicitPanic ''crypto/rand: argument to Int is <= 0'')
      else Inr (int (rnd 0) mod n, \<lambda>k. rnd (Suc k)))"

definition resetRandomizedElectionTimeout :: "raft \<Rightarrow> raft go" where
  "resetRandomizedElectionTimeout r =
     go_bind (Intn (r_electionTimeout r) (r_rand r)) (\<lambda>(v, rnd).
       Inr (r\<lparr>r_randomizedElectionTimeout := int64 (r_electionTimeout r + v), r_rand := rnd\<rparr>))"

section \<open>Sending\<close>

definition send :: "Message \<Rightarrow> raft \<Rightarrow> raft go" where
  "send m r =
     (let m = (if mFrom m = 0 then set_mFrom (r_id r) m else m) in
      go_bind
        (if mType m = MsgVote \<or> mType m = MsgVoteResp \<or> mType m = MsgPreVote \<or> mType m = MsgPreVoteResp then
           (if mTerm m = 0 then Inl (ExplicitPanic ''term should be set when sending'') else Inr m)
         else
           (if mTerm m \<noteq> 0 then Inl (ExplicitPanic ''term should not be set when sending'')
            else Inr (if mType m \<noteq> MsgProp \<and> mType m \<noteq> MsgReadIndex then set_mTerm (r_Term r) m else m)))
        (\<lambda>m.
          if mType m = MsgAppResp \<or> mType m = MsgVoteResp \<or> mType m = MsgPreVoteResp
          then Inr (r\<lparr>r_msgsAfterAppend := r_msgsAfterAppend r @ [m]\<rparr>)
          else if mTo m = r_id r
          then Inl (ExplicitPanic ''message should not be self-addressed when sending'')
          else Inr (r\<lparr>r_msgs := r_msgs r @ [m]\<rparr>)))"

definition raft_maybeCommit :: "raft \<Rightarrow> (raft \<times> bool) go" where
  "raft_maybeCommit r =
     (let mci = Tracker_Committed (r_trk r) in
      go_bind (maybeCommit mci (r_Term r) (r_raftLog r)) (\<lambda>(l, b). Inr (r\<lparr>r_raftLog := l\<rparr>, b)))"

definition maybeSendAppend :: "uint64 \<Rightarrow> bool \<Rightarrow> raft \<Rightarrow> (raft \<times> bool) go" where
  "maybeSendAppend to sendIfEmpty r =
     (case progress_of to r of
        None \<Rightarrow> Inl NilDereference
      | Some pr \<Rightarrow>
          (let lastIndex = Next pr - 1; nextIndex = Next pr in
           go_bind (log_term lastIndex (r_raftLog r)) (\<lambda>t.
             let lastTerm = (case t of Inr t \<Rightarrow> t | Inl _ \<Rightarrow> 0) in
             go_bind
               (if State pr \<noteq> StateReplicate then log_entries nextIndex (r_maxMsgSize r) (r_raftLog r)
                else Inr (Inr [])) (\<lambda>e.
               let ents = (case e of Inr es \<Rightarrow> es | Inl _ \<Rightarrow> []) in
               if length ents = 0 \<and> \<not> sendIfEmpty then Inr (r, False)
               else if isl t \<or> isl e then
                 (if \<not> RecentActive pr then Inr (r, False) else Inr (r, True))
               else
                 (case UpdateOnEntriesSend (length ents) (payloadsSize ents) nextIndex pr of
                    (_, True) \<Rightarrow> Inl (ExplicitPanic ''sending append in unhandled state'')
                  | (pr, False) \<Rightarrow>
                      go_bind
                        (send (set_mTo to (set_mType MsgApp (set_mIndex lastIndex (set_mLogTerm lastTerm
                           (set_mEntries ents (set_mCommit (l_committed (r_raftLog r)) zeroMessage))))))
                          (set_progress to pr r))
                        (\<lambda>r. Inr (r, True)))))))"

definition sendAppend :: "uint64 \<Rightarrow> raft \<Rightarrow> raft go" where
  "sendAppend to r = go_bind (maybeSendAppend to True r) (\<lambda>(r, _). Inr r)"

definition bcastAppend :: "raft \<Rightarrow> raft go" where
  "bcastAppend r =
     Visit (\<lambda>i r. if i = r_id r then Inr r else sendAppend i r) (trkProgress (r_trk r)) r"

text \<open>\<open>for r.maybeSendAppend(to, false) {}\<close>\<close>

definition send_loop :: "uint64 \<Rightarrow> raft \<Rightarrow> raft go" where
  "send_loop to r =
     (case while_option (\<lambda>s. case s of Inr (_, b) \<Rightarrow> b | Inl _ \<Rightarrow> False)
         (\<lambda>s. go_bind s (\<lambda>(r, _). maybeSendAppend to False r)) (maybeSendAppend to False r) of
        None \<Rightarrow> Inl NotReturning
      | Some s \<Rightarrow> go_bind s (\<lambda>(r, _). Inr r))"

definition sendHeartbeat :: "uint64 \<Rightarrow> bytes \<Rightarrow> raft \<Rightarrow> raft go" where
  "sendHeartbeat to ctx r =
     (case progress_of to r of
        None \<Rightarrow> Inl NilDereference
      | Some pr \<Rightarrow>
          (let commit = min (Match pr) (l_committed (r_raftLog r)) in
           send (set_mTo to (set_mType MsgHeartbeat (set_mCommit commit (set_mContext ctx zeroMessage)))) r))"

definition bcastHeartbeatWithCtx :: "bytes \<Rightarrow> raft \<Rightarrow> raft go" where
  "bcastHeartbeatWithCtx ctx r =
     Visit (\<lambda>i r. if i = r_id r then Inr r else sendHeartbeat i ctx r) (trkProgress (r_trk r)) r"

text \<open>The context is always empty, so the branch with a context is not taken.\<close>

definition string_bytes :: "string \<Rightarrow> byte list" where
  "string_bytes s = map of_char s"

definition bcastHeartbeat :: "raft \<Rightarrow> raft go" where
  "bcastHeartbeat r =
     (let lastCtx = '''' in
      if length lastCtx = 0 then bcastHeartbeatWithCtx None r
      else bcastHeartbeatWithCtx (Some (string_bytes lastCtx)) r)"

section \<open>Appending to the own log\<close>

definition stamp_entries :: "uint64 \<Rightarrow> uint64 \<Rightarrow> Entry list \<Rightarrow> Entry list" where
  "stamp_entries term li es =
     map (\<lambda>(i, e). e\<lparr>eTerm := term, eIndex := li + 1 + of_nat i\<rparr>) (enumerate 0 es)"

definition appendEntry :: "Entry list \<Rightarrow> raft \<Rightarrow> (raft \<times> bool) go" where
  "appendEntry es r =
     go_bind (log_lastIndex (r_raftLog r)) (\<lambda>li.
     go_bind (log_append (stamp_entries (r_Term r) li es) (r_raftLog r)) (\<lambda>(l, li).
     go_bind (send (set_mTo (r_id r) (set_mType MsgAppResp (set_mIndex li zeroMessage)))
        (r\<lparr>r_raftLog := l\<rparr>)) (\<lambda>r. Inr (r, True))))"

section \<open>Roles\<close>

definition reset_progress :: "uint64 \<Rightarrow> raft \<Rightarrow> raft go" where
  "reset_progress i r =
     (case progress_of i r of
        None \<Rightarrow> Inl NilDereference
      | Some pr \<Rightarrow>
          go_bind (log_lastIndex (r_raftLog r)) (\<lambda>li.
            let pr = zeroProgress\<lparr>Match := 0, Next := li + 1, IsLearner := IsLearner pr\<rparr> in
            if i = r_id r then
              go_bind (log_lastIndex (r_raftLog r)) (\<lambda>li. Inr (set_progress i (pr\<lparr>Match := li\<rparr>) r))
            else Inr (set_progress i pr r)))"

definition raft_reset :: "uint64 \<Rightarrow> raft \<Rightarrow> raft go" where
  "raft_reset term r =
     (let r = (if r_Term r \<noteq> term then r\<lparr>r_Term := term, r_Vote := 0\<rparr> else r);
          r = r\<lparr>r_lead := 0, r_electionElapsed := 0, r_heartbeatElapsed := 0\<rparr> in
      go_bind (resetRandomizedElectionTimeout r) (\<lambda>r.
        let r = r\<lparr>r_trk := ResetVotes (r_trk r)\<rparr> in
        go_bind (Visit reset_progress (trkProgress (r_trk r)) r) (\<lambda>r. Inr (r\<lparr>r_pendingConfIndex := 0\<rparr>))))"

definition becomeFollower :: "uint64 \<Rightarrow> uint64 \<Rightarrow> raft \<Rightarrow> raft go" where
  "becomeFollower term lead r =
     go_bind (raft_reset term (r\<lparr>r_step := stepFollowerF\<rparr>)) (\<lambda>r.
       Inr (r\<lparr>r_tick := tickElectionF, r_lead := lead, r_state := StateFollower\<rparr>))"

definition becomeCandidate :: "raft \<Rightarrow> raft go" where
  "becomeCandidate r =
     (if r_state r = StateLeader then Inl (ExplicitPanic ''invalid transition [leader -> candidate]'')
      else go_bind (raft_reset (r_Term r + 1) (r\<lparr>r_step := stepCandidateF\<rparr>)) (\<lambda>r.
        Inr (r\<lparr>r_tick := tickElectionF, r_Vote := r_id r, r_state := StateCandidate\<rparr>)))"

definition becomePreCandidate :: "raft \<Rightarrow> raft go" where
  "becomePreCandidate r =
     (if r_state r = StateLeader then Inl (ExplicitPanic ''invalid transition [leader -> pre-candidate]'')
      else Inr (r\<lparr>r_step := stepCandidateF, r_trk := ResetVotes (r_trk r), r_tick := tickElectionF,
        r_lead := 0, r_state := StatePreCandidate\<rparr>))"

definition becomeLeader :: "raft \<Rightarrow> raft go" where
  "becomeLeader r =
     (if r_state r = StateFollower then Inl (ExplicitPanic ''invalid transition [follower -> leader]'')
      else
        go_bind (raft_reset (r_Term r) (r\<lparr>r_step := stepLeaderF\<rparr>)) (\<lambda>r.
        let r = r\<lparr>r_tick := tickHeartbeatF, r_lead := r_id r, r_state := StateLeader\<rparr> in
        case progress_of (r_id r) r of
          None \<Rightarrow> Inl NilDereference
        | Some pr \<Rightarrow>
            (let r = set_progress (r_id r) ((BecomeReplicate pr)\<lparr>RecentActive := True\<rparr>) r in
             go_bind (log_lastIndex (r_raftLog r)) (\<lambda>li.
             go_bind (appendEntry [zeroEntry] (r\<lparr>r_pendingConfIndex := li\<rparr>)) (\<lambda>(r, accepted).
               if \<not> accepted then Inl (ExplicitPanic ''empty entry was dropped'') else Inr r)))))"

definition hasLeader :: "raft \<Rightarrow> bool" where
  "hasLeader r = (r_lead r \<noteq> 0)"

definition promotable :: "raft \<Rightarrow> bool" where
  "promotable r = (case progress_of (r_id r) r of None \<Rightarrow> False | Some pr \<Rightarrow> \<not> IsLearner pr)"

definition pastElectionTimeout :: "raft \<Rightarrow> bool" where
  "pastElectionTimeout r = (r_electionElapsed r \<ge> r_randomizedElectionTimeout r)"

section \<open>Creating a node\<close>

definition newRaft :: "(nat \<Rightarrow> nat) \<Rightarrow> RaftConfig \<Rightarrow> raft go" where
  "newRaft rnd c =
     (case validate c of
        Inl e \<Rightarrow> Inl (ExplicitPanic ''invalid configuration'')
      | Inr c \<Rightarrow>
          go_bind (newLogWithSize (cfgStorage c) (MaxCommittedSizePerReady c)) (\<lambda>raftlog.
          go_bind (becomeFollower 0 0
            \<lparr>r_id = cfgID c, r_Term = 0, r_Vote = 0, r_readStates = [], r_raftLog = raftlog,
             r_maxMsgSize = 0, r_maxUncommittedSize = 0,
             r_trk = MakeProgressTracker (MaxInflightMsgs c) (cfgMaxInflightBytes c),
             r_state = StateFollower, r_isLearner = False, r_msgs = [], r_msgsAfterAppend = [],
             r_lead = 0, r_leadTransferee = 0, r_pendingConfIndex = 0,
             r_disableConfChangeValidation = False, r_electionElapsed = 0, r_heartbeatElapsed = 0,
             r_checkQuorum = CheckQuorum c, r_preVote = PreVote c,
             r_heartbeatTimeout = HeartbeatTick c, r_electionTimeout = ElectionTick c,
             r_randomizedElectionTimeout = 0, r_disableProposalForwarding = False,
             r_stepDownOnRemoval = False, r_tick = tickNil, r_step = stepNil,
             r_pendingReadIndexMessages = zeroMessage, r_rand = rnd\<rparr>) (\<lambda>r.
          go_bind (log_lastIndex (r_raftLog r)) (\<lambda>_.
          go_bind (lastTerm (r_raftLog r)) (\<lambda>_. Inr r)))))"

end
