(* ===== verification/Raft_Step.thy ===== *)
theory Raft_Step
  imports Raft_State
begin

text \<open>
  \<open>src/raft/core/raft.go\<close>, second part: elections, the message handlers of the three roles, the
  term handling of \<open>Step\<close>, the two clock handlers and the application of configuration changes.
  A handler returns the new state and the error of the Go function, if any.  The terms and indices
  computed only to be logged are evaluated, because computing them can panic.
\<close>

section \<open>Elections\<close>

definition log_last_term :: "raft \<Rightarrow> unit go" where
  "log_last_term r =
     go_bind (lastTerm (r_raftLog r)) (\<lambda>_. go_bind (log_lastIndex (r_raftLog r)) (\<lambda>_. Inr ()))"

definition campaign_to :: "CampaignType \<Rightarrow> uint64 \<Rightarrow> int32 \<Rightarrow> uint64 \<Rightarrow> raft \<Rightarrow> raft go" where
  "campaign_to t term voteMsg i r =
     (if i = r_id r then
        go_bind (voteRespMsgType voteMsg) (\<lambda>ty.
          send (set_mTo i (set_mTerm term (set_mType ty zeroMessage))) r)
      else
        go_bind (log_last_term r) (\<lambda>_.
        go_bind (log_lastIndex (r_raftLog r)) (\<lambda>li.
        go_bind (lastTerm (r_raftLog r)) (\<lambda>lt.
          let ctx = (if t = campaignTransfer then Some (string_bytes (campaign_name t)) else None) in
          send (set_mTo i (set_mTerm term (set_mType voteMsg (set_mIndex li (set_mLogTerm lt
            (set_mContext ctx zeroMessage)))))) r))))"

definition campaign :: "CampaignType \<Rightarrow> raft \<Rightarrow> raft go" where
  "campaign t r =
     go_bind
       (if t = campaignPreElection then
          go_bind (becomePreCandidate r) (\<lambda>r. Inr (r, MsgPreVote, r_Term r + 1))
        else go_bind (becomeCandidate r) (\<lambda>r. Inr (r, MsgVote, r_Term r)))
       (\<lambda>(r, voteMsg, term).
         go_foldl (\<lambda>r i. campaign_to t term voteMsg i r) r
           (sorted_list_of_fset (Joint_IDs (cfgVoters (trkConfig (r_trk r))))))"

definition hup :: "CampaignType \<Rightarrow> raft \<Rightarrow> raft go" where
  "hup t r =
     (if r_state r = StateLeader then Inr r
      else if \<not> promotable r then Inr r
      else campaign t r)"

definition poll :: "uint64 \<Rightarrow> int32 \<Rightarrow> bool \<Rightarrow> raft \<Rightarrow> raft \<times> (nat \<times> nat \<times> VoteResult)" where
  "poll i t v r =
     (let r = r\<lparr>r_trk := RecordVote i v (r_trk r)\<rparr> in (r, TallyVotes (r_trk r)))"

section \<open>Followers and candidates\<close>

definition handleAppendEntries :: "Message \<Rightarrow> raft \<Rightarrow> raft go" where
  "handleAppendEntries m r =
     (let l = r_raftLog r in
      if mIndex m < l_committed l then
        send (set_mTo (mFrom m) (set_mType MsgAppResp (set_mIndex (l_committed l) zeroMessage))) r
      else
        go_bind (maybeAppend (mIndex m) (mLogTerm m) (mCommit m) (mEntries m) l) (\<lambda>(l, res).
          let r = r\<lparr>r_raftLog := l\<rparr> in
          case res of
            Some mlastIndex \<Rightarrow>
              send (set_mTo (mFrom m) (set_mType MsgAppResp (set_mIndex mlastIndex zeroMessage))) r
          | None \<Rightarrow>
              go_bind (log_term (mIndex m) l) (\<lambda>t.
              go_bind (zeroTermOnOutOfBounds t) (\<lambda>_.
              go_bind (log_lastIndex l) (\<lambda>li.
              go_bind (findConflictByTerm (min (mIndex m) li) (mLogTerm m) l) (\<lambda>(hintIndex, hintTerm).
                send (set_mTo (mFrom m) (set_mType MsgAppResp (set_mIndex (mIndex m) (set_mReject True
                  (set_mRejectHint hintIndex (set_mLogTerm hintTerm zeroMessage)))))) r))))))"

definition handleHeartbeat :: "Message \<Rightarrow> raft \<Rightarrow> raft go" where
  "handleHeartbeat m r =
     send (set_mTo (mFrom m) (set_mType MsgHeartbeatResp (set_mContext (mContext m) zeroMessage))) r"

definition ok_step :: "raft \<Rightarrow> (raft \<times> step_err option) go" where
  "ok_step r = Inr (r, None)"

definition stepFollower :: "Message \<Rightarrow> raft \<Rightarrow> (raft \<times> step_err option) go" where
  "stepFollower m r =
     (if mType m = MsgProp then
        (if r_lead r = 0 then Inr (r, Some ErrProposalDropped)
         else if r_disableProposalForwarding r then Inr (r, Some ErrProposalDropped)
         else go_bind (send (set_mTo (r_lead r) m) r) ok_step)
      else if mType m = MsgApp then
        go_bind (handleAppendEntries m (r\<lparr>r_electionElapsed := 0, r_lead := mFrom m\<rparr>)) ok_step
      else if mType m = MsgHeartbeat then
        go_bind (handleHeartbeat m (r\<lparr>r_electionElapsed := 0, r_lead := mFrom m\<rparr>)) ok_step
      else if mType m = MsgSnap then ok_step r
      else if mType m = MsgTransferLeader then
        (if r_lead r = 0 then ok_step r
         else go_bind (send (set_mTo (r_lead r) m) r) ok_step)
      else if mType m = MsgForgetLeader then ok_step r
      else if mType m = MsgTimeoutNow then ok_step r
      else if mType m = MsgReadIndex then
        (if r_lead r = 0 then ok_step r
         else go_bind (send (set_mTo (r_lead r) m) r) ok_step)
      else if mType m = MsgReadIndexResp then
        (if length (mEntries m) \<noteq> 1 then ok_step r
         else ok_step (r\<lparr>r_readStates := r_readStates r @
            [\<lparr>rsIndex = mIndex m, rsRequestCtx = eData (mEntries m ! 0)\<rparr>]\<rparr>))
      else ok_step r)"

definition stepCandidate :: "Message \<Rightarrow> raft \<Rightarrow> (raft \<times> step_err option) go" where
  "stepCandidate m r =
     (let myVoteRespType = (if r_state r = StatePreCandidate then MsgPreVoteResp else MsgVoteResp) in
      if mType m = MsgProp then Inr (r, Some ErrProposalDropped)
      else if mType m = MsgApp then go_bind (becomeFollower (mTerm m) (mFrom m) r) ok_step
      else if mType m = MsgHeartbeat then
        go_bind (becomeFollower (mTerm m) (mFrom m) r) (\<lambda>r. go_bind (handleHeartbeat m r) ok_step)
      else if mType m = MsgSnap then go_bind (becomeFollower (mTerm m) (mFrom m) r) ok_step
      else if mType m = myVoteRespType then
        (case poll (mFrom m) (mType m) (\<not> mReject m) r of (r, gr, rj, res) \<Rightarrow>
          (case res of
             VoteWon \<Rightarrow>
               if r_state r = StatePreCandidate then go_bind (campaign campaignElection r) ok_step
               else go_bind (becomeLeader r) (\<lambda>r. go_bind (bcastAppend r) ok_step)
           | VoteLost \<Rightarrow> go_bind (becomeFollower (r_Term r) 0 r) ok_step
           | VotePending \<Rightarrow> ok_step r))
      else ok_step r)"

section \<open>The leader\<close>

text \<open>The configuration change carried by a proposed entry, decoded; bad data is a panic.\<close>

definition proposed_change :: "Entry \<Rightarrow> ConfChangeI option go" where
  "proposed_change e =
     (let d = (case eData e of None \<Rightarrow> [] | Some b \<Rightarrow> b) in
      if eType e = EntryConfChange then
        (case ConfChange_Unmarshal zeroConfChange d of
           (_, Some err) \<Rightarrow> Inl (ExplicitPanic ''unmarshal error'')
         | (ccc, None) \<Rightarrow> Inr (Some (CCV1 ccc)))
      else if eType e = EntryConfChangeV2 then
        (case ConfChangeV2_Unmarshal zeroConfChangeV2 d of
           (_, Some err) \<Rightarrow> Inl (ExplicitPanic ''unmarshal error'')
         | (ccc, None) \<Rightarrow> Inr (Some (CCV2 ccc)))
      else Inr None)"

definition refuse_change :: "ConfChangeI \<Rightarrow> raft \<Rightarrow> bool" where
  "refuse_change cc r =
     (let alreadyPending = r_pendingConfIndex r > l_applied (r_raftLog r);
          alreadyJoint = fcard (ids_of (snd (cfgVoters (trkConfig (r_trk r))))) > 0;
          wantsLeaveJoint = (length (cc2Changes (AsV2 cc)) = 0)
      in (alreadyPending \<or> alreadyJoint \<and> \<not> wantsLeaveJoint \<or> \<not> alreadyJoint \<and> wantsLeaveJoint)
         \<and> \<not> r_disableConfChangeValidation r)"

text \<open>The loop over the proposed entries; the second argument is the number already seen.\<close>

fun filter_changes :: "Entry list \<Rightarrow> nat \<Rightarrow> raft \<Rightarrow> (raft \<times> Entry list) go" where
  "filter_changes [] i r = Inr (r, [])"
| "filter_changes (e # es) i r =
     go_bind (proposed_change e) (\<lambda>cc.
     go_bind
       (case cc of
          None \<Rightarrow> Inr (r, e)
        | Some cc \<Rightarrow>
            if refuse_change cc r then Inr (r, zeroEntry\<lparr>eType := EntryNormal\<rparr>)
            else go_bind (log_lastIndex (r_raftLog r)) (\<lambda>li.
              Inr (r\<lparr>r_pendingConfIndex := li + of_nat i + 1\<rparr>, e)))
       (\<lambda>(r, e). go_bind (filter_changes es (Suc i) r) (\<lambda>(r, es). Inr (r, e # es))))"

definition leader_propose :: "Message \<Rightarrow> raft \<Rightarrow> (raft \<times> step_err option) go" where
  "leader_propose m r =
     (if length (mEntries m) = 0 then Inl (ExplicitPanic ''stepped empty MsgProp'')
      else if progress_of (r_id r) r = None then Inr (r, Some ErrProposalDropped)
      else if r_leadTransferee r \<noteq> 0 then Inr (r, Some ErrProposalDropped)
      else
        go_bind (filter_changes (mEntries m) 0 r) (\<lambda>(r, es).
        go_bind (appendEntry es r) (\<lambda>(r, accepted).
          if \<not> accepted then Inr (r, Some ErrProposalDropped)
          else go_bind (bcastAppend r) ok_step)))"

text \<open>The acknowledgement of an append by the peer \<open>mFrom m\<close>, whose progress is \<open>pr\<close>.\<close>

definition leader_ack :: "Message \<Rightarrow> Progress \<Rightarrow> raft \<Rightarrow> raft go" where
  "leader_ack m pr r =
     (let pr = pr\<lparr>RecentActive := True\<rparr> in
      if mReject m then Inr (set_progress (mFrom m) pr r)
      else
        (let oldPaused = IsPaused pr in
         case MaybeUpdate (mIndex m) pr of (pr, updated) \<Rightarrow>
           if updated \<or> Match pr = mIndex m \<and> State pr = StateProbe then
             go_bind
               (if State pr = StateProbe then Inr (BecomeReplicate pr)
                else if State pr = StateSnapshot then
                  go_bind (log_firstIndex (r_raftLog r)) (\<lambda>fi.
                    Inr (if Match pr + 1 \<ge> fi then BecomeReplicate (BecomeProbe pr) else pr))
                else Inr pr)
               (\<lambda>pr.
                 go_bind (raft_maybeCommit (set_progress (mFrom m) pr r)) (\<lambda>(r, committed).
                 go_bind
                   (if committed then bcastAppend r
                    else if oldPaused then sendAppend (mFrom m) r
                    else Inr r)
                   (\<lambda>r. if r_id r \<noteq> mFrom m then send_loop (mFrom m) r else Inr r)))
           else Inr (set_progress (mFrom m) pr r)))"

definition stepLeader :: "Message \<Rightarrow> raft \<Rightarrow> (raft \<times> step_err option) go" where
  "stepLeader m r =
     (if mType m = MsgBeat then go_bind (bcastHeartbeat r) ok_step
      else if mType m = MsgCheckQuorum then ok_step r
      else if mType m = MsgProp then leader_propose m r
      else if mType m = MsgForgetLeader then ok_step r
      else
        (case progress_of (mFrom m) r of
           None \<Rightarrow> ok_step r
         | Some pr \<Rightarrow>
             if mType m = MsgAppResp then go_bind (leader_ack m pr r) ok_step
             else ok_step r))"

section \<open>Step\<close>

definition call_step :: "Message \<Rightarrow> raft \<Rightarrow> (raft \<times> step_err option) go" where
  "call_step m r =
     (case r_step r of
        stepNil \<Rightarrow> Inl NilDereference
      | stepFollowerF \<Rightarrow> stepFollower m r
      | stepCandidateF \<Rightarrow> stepCandidate m r
      | stepLeaderF \<Rightarrow> stepLeader m r)"

definition handle_vote :: "Message \<Rightarrow> raft \<Rightarrow> raft go" where
  "handle_vote m r =
     (let canVote = r_Vote r = mFrom m \<or> r_Vote r = 0 \<and> r_lead r = 0 \<or>
            mType m = MsgPreVote \<and> mTerm m > r_Term r in
      go_bind (if canVote then isUpToDate (mIndex m) (mLogTerm m) (r_raftLog r) else Inr False) (\<lambda>grant.
      go_bind (log_last_term r) (\<lambda>_.
      go_bind (voteRespMsgType (mType m)) (\<lambda>ty.
        if grant then
          go_bind (send (set_mTo (mFrom m) (set_mTerm (mTerm m) (set_mType ty zeroMessage))) r) (\<lambda>r.
            Inr (if mType m = MsgVote then r\<lparr>r_electionElapsed := 0, r_Vote := mFrom m\<rparr> else r))
        else
          send (set_mTo (mFrom m) (set_mTerm (r_Term r) (set_mType ty (set_mReject True zeroMessage)))) r))))"

definition dispatch :: "Message \<Rightarrow> raft \<Rightarrow> (raft \<times> step_err option) go" where
  "dispatch m r =
     (if mType m = MsgHup then
        go_bind (hup (if r_preVote r then campaignPreElection else campaignElection) r) ok_step
      else if mType m = MsgStorageAppendResp then ok_step r
      else if mType m = MsgStorageApplyResp then ok_step r
      else if mType m = MsgVote \<or> mType m = MsgPreVote then go_bind (handle_vote m r) ok_step
      else call_step m r)"

text \<open>The result of the term switch: \<open>None\<close> when \<open>Step\<close> returns there, else the state to go on with.\<close>

definition check_term :: "Message \<Rightarrow> raft \<Rightarrow> (raft \<times> bool) go" where
  "check_term m r =
     (if mTerm m = 0 then Inr (r, True)
      else if mTerm m > r_Term r then
        (if mType m = MsgPreVote then Inr (r, True)
         else if mType m = MsgPreVoteResp \<and> \<not> mReject m then Inr (r, True)
         else if mType m = MsgApp \<or> mType m = MsgHeartbeat \<or> mType m = MsgSnap then
           go_bind (becomeFollower (mTerm m) (mFrom m) r) (\<lambda>r. Inr (r, True))
         else go_bind (becomeFollower (mTerm m) 0 r) (\<lambda>r. Inr (r, True)))
      else if mTerm m < r_Term r then
        (if (r_checkQuorum r \<or> r_preVote r) \<and> (mType m = MsgHeartbeat \<or> mType m = MsgApp) then
           go_bind (send (set_mTo (mFrom m) (set_mType MsgAppResp zeroMessage)) r) (\<lambda>r. Inr (r, False))
         else if mType m = MsgPreVote then
           go_bind (log_last_term r) (\<lambda>_.
           go_bind (send (set_mTo (mFrom m) (set_mTerm (r_Term r) (set_mType MsgPreVoteResp
             (set_mReject True zeroMessage)))) r) (\<lambda>r. Inr (r, False)))
         else Inr (r, False))
      else Inr (r, True))"

definition Step :: "Message \<Rightarrow> raft \<Rightarrow> (raft \<times> step_err option) go" where
  "Step m r = go_bind (check_term m r) (\<lambda>(r, continue). if continue then dispatch m r else ok_step r)"

section \<open>The clock\<close>

definition tickElection :: "raft \<Rightarrow> raft go" where
  "tickElection r =
     (let r = r\<lparr>r_electionElapsed := int64 (r_electionElapsed r + 1)\<rparr> in
      if promotable r \<and> pastElectionTimeout r then
        go_bind (Step (set_mFrom (r_id r) (set_mType MsgHup zeroMessage)) (r\<lparr>r_electionElapsed := 0\<rparr>))
          (\<lambda>(r, _). Inr r)
      else Inr r)"

definition tickHeartbeat :: "raft \<Rightarrow> raft go" where
  "tickHeartbeat r =
     (let r = r\<lparr>r_heartbeatElapsed := int64 (r_heartbeatElapsed r + 1),
                r_electionElapsed := int64 (r_electionElapsed r + 1)\<rparr> in
      go_bind
        (if r_electionElapsed r \<ge> r_electionTimeout r then
           (let r = r\<lparr>r_electionElapsed := 0\<rparr> in
            if r_checkQuorum r then
              go_bind (Step (set_mFrom (r_id r) (set_mType MsgCheckQuorum zeroMessage)) r) (\<lambda>(r, _). Inr r)
            else Inr r)
         else Inr r)
        (\<lambda>r.
          if r_state r \<noteq> StateLeader then Inr r
          else if r_heartbeatElapsed r \<ge> r_heartbeatTimeout r then
            go_bind (Step (set_mFrom (r_id r) (set_mType MsgBeat zeroMessage)) (r\<lparr>r_heartbeatElapsed := 0\<rparr>))
              (\<lambda>(r, _). Inr r)
          else Inr r))"

definition tick :: "raft \<Rightarrow> raft go" where
  "tick r =
     (case r_tick r of
        tickNil \<Rightarrow> Inl NilDereference
      | tickElectionF \<Rightarrow> tickElection r
      | tickHeartbeatF \<Rightarrow> tickHeartbeat r)"

section \<open>Configuration changes\<close>

definition switchToConfig :: "Config \<Rightarrow> ProgressMap \<Rightarrow> raft \<Rightarrow> (raft \<times> ConfState) go" where
  "switchToConfig cfg trk r =
     (let r = r\<lparr>r_trk := (r_trk r)\<lparr>trkConfig := cfg, trkProgress := trk\<rparr>\<rparr>;
          cs = Tracker_ConfState (r_trk r);
          pr = progress_of (r_id r) r;
          r = r\<lparr>r_isLearner := (case pr of None \<Rightarrow> False | Some pr \<Rightarrow> IsLearner pr)\<rparr> in
      if (pr = None \<or> r_isLearner r) \<and> r_state r = StateLeader then
        (if r_stepDownOnRemoval r then go_bind (becomeFollower (r_Term r) 0 r) (\<lambda>r. Inr (r, cs))
         else Inr (r, cs))
      else if r_state r \<noteq> StateLeader \<or> length (Voters cs) = 0 then Inr (r, cs)
      else
        go_bind (raft_maybeCommit r) (\<lambda>(r, committed).
        go_bind
          (if committed then bcastAppend r
           else Visit (\<lambda>i r. if i = r_id r then Inr r
               else go_bind (maybeSendAppend i False r) (\<lambda>(r, _). Inr r)) (trkProgress (r_trk r)) r)
          (\<lambda>r. Inr (r, cs))))"

definition applyConfChange :: "ConfChangeV2 \<Rightarrow> raft \<Rightarrow> (raft \<times> ConfState) go" where
  "applyConfChange cc r =
     go_bind (log_lastIndex (r_raftLog r)) (\<lambda>li.
     go_bind (Simple \<lparr>chTracker = r_trk r, LastIndex = li\<rparr> (cc2Changes cc)) (\<lambda>res. case res of
         Inl e \<Rightarrow> Inl (ExplicitPanic ''configuration change error'')
       | Inr (cfg, trk) \<Rightarrow> switchToConfig cfg trk r))"

end
