(* ===== verification/Raft_Frame.thy ===== *)
theory Raft_Frame
  imports Raft_Step
begin

text \<open>
  What the operations of a raft node leave alone.  \<open>quiet r r'\<close> says that only messages other than
  votes were queued and only progress entries were updated; \<open>votes_kept r r'\<close> that the term did not
  go back, a vote cast in the current term was not changed, and every vote granted on the way is
  recorded.  Every operation of \<open>raft.go\<close> is shown to be one or the other.
\<close>

section \<open>Quiet operations\<close>

definition quiet :: "raft \<Rightarrow> raft \<Rightarrow> bool" where
  "quiet r r' \<longleftrightarrow> (\<exists>ms as p.
     r' = r\<lparr>r_msgs := r_msgs r @ ms, r_msgsAfterAppend := r_msgsAfterAppend r @ as,
            r_trk := (r_trk r)\<lparr>trkProgress := p\<rparr>\<rparr> \<and>
     fmdom p = fmdom (trkProgress (r_trk r)) \<and>
     (\<forall>m \<in> set ms. mType m \<noteq> MsgVoteResp) \<and> (\<forall>m \<in> set as. mType m = MsgAppResp))"

lemma quiet_refl [simp]: "quiet r r"
  unfolding quiet_def by (intro exI [of _ "[]"] exI [of _ "trkProgress (r_trk r)"]) simp

lemma quiet_trans: "\<lbrakk>quiet r s; quiet s t\<rbrakk> \<Longrightarrow> quiet r t"
  unfolding quiet_def
proof (elim exE conjE)
  fix ms as p ms' as' p'
  assume s: "s = r\<lparr>r_msgs := r_msgs r @ ms, r_msgsAfterAppend := r_msgsAfterAppend r @ as,
      r_trk := (r_trk r)\<lparr>trkProgress := p\<rparr>\<rparr>"
    and t: "t = s\<lparr>r_msgs := r_msgs s @ ms', r_msgsAfterAppend := r_msgsAfterAppend s @ as',
      r_trk := (r_trk s)\<lparr>trkProgress := p'\<rparr>\<rparr>"
    and d: "fmdom p = fmdom (trkProgress (r_trk r))" "fmdom p' = fmdom (trkProgress (r_trk s))"
    and m: "\<forall>m \<in> set ms. mType m \<noteq> MsgVoteResp" "\<forall>m \<in> set as. mType m = MsgAppResp"
      "\<forall>m \<in> set ms'. mType m \<noteq> MsgVoteResp" "\<forall>m \<in> set as'. mType m = MsgAppResp"
  show "\<exists>ms as p. t = r\<lparr>r_msgs := r_msgs r @ ms, r_msgsAfterAppend := r_msgsAfterAppend r @ as,
      r_trk := (r_trk r)\<lparr>trkProgress := p\<rparr>\<rparr> \<and> fmdom p = fmdom (trkProgress (r_trk r)) \<and>
      (\<forall>m \<in> set ms. mType m \<noteq> MsgVoteResp) \<and> (\<forall>m \<in> set as. mType m = MsgAppResp)"
    by (rule exI [of _ "ms @ ms'"], rule exI [of _ "as @ as'"], rule exI [of _ p'])
      (use s t d m in auto)
qed

lemma quiet_sel:
  assumes "quiet r r'"
  shows "r_id r' = r_id r" "r_Term r' = r_Term r" "r_Vote r' = r_Vote r" "r_raftLog r' = r_raftLog r"
    "r_state r' = r_state r" "r_lead r' = r_lead r" "r_electionTimeout r' = r_electionTimeout r"
    "r_step r' = r_step r" "r_tick r' = r_tick r" "trkConfig (r_trk r') = trkConfig (r_trk r)"
    "trkVotes (r_trk r') = trkVotes (r_trk r)"
    "fmdom (trkProgress (r_trk r')) = fmdom (trkProgress (r_trk r))"
    "r_electionElapsed r' = r_electionElapsed r" "r_maxMsgSize r' = r_maxMsgSize r"
    "r_heartbeatElapsed r' = r_heartbeatElapsed r" "r_pendingConfIndex r' = r_pendingConfIndex r"
    "r_readStates r' = r_readStates r" "r_preVote r' = r_preVote r" "r_isLearner r' = r_isLearner r"
  using assms by (auto simp: quiet_def)

lemma progress_of_Some: "progress_of i r = Some pr \<Longrightarrow> i |\<in>| fmdom (trkProgress (r_trk r))"
  unfolding progress_of_def by (rule fmdomI)

lemma quiet_set_progress:
  assumes "progress_of i r = Some pr0"
  shows "quiet r (set_progress i pr r)"
proof -
  have "finsert i (fmdom (trkProgress (r_trk r))) = fmdom (trkProgress (r_trk r))"
    using progress_of_Some [OF assms] by auto
  then show ?thesis
    unfolding quiet_def set_progress_def
    by (intro exI [of _ "[]"] exI [of _ "fmupd i pr (trkProgress (r_trk r))"]) simp
qed

text \<open>What \<open>send\<close> queues, and where.\<close>

definition vote_type :: "int32 \<Rightarrow> bool" where
  "vote_type t \<longleftrightarrow> t = MsgVote \<or> t = MsgVoteResp \<or> t = MsgPreVote \<or> t = MsgPreVoteResp"

definition durable_type :: "int32 \<Rightarrow> bool" where
  "durable_type t \<longleftrightarrow> t = MsgAppResp \<or> t = MsgVoteResp \<or> t = MsgPreVoteResp"

definition sent :: "Message \<Rightarrow> raft \<Rightarrow> Message" where
  "sent m r =
     (let m = (if mFrom m = 0 then set_mFrom (r_id r) m else m) in
      if vote_type (mType m) then m
      else if mType m \<noteq> MsgProp \<and> mType m \<noteq> MsgReadIndex then set_mTerm (r_Term r) m else m)"

lemma send_unfold:
  "send m r =
     (if vote_type (mType m) \<and> mTerm m = 0 then Inl (ExplicitPanic ''term should be set when sending'')
      else if \<not> vote_type (mType m) \<and> mTerm m \<noteq> 0 then
        Inl (ExplicitPanic ''term should not be set when sending'')
      else if durable_type (mType m) then Inr (r\<lparr>r_msgsAfterAppend := r_msgsAfterAppend r @ [sent m r]\<rparr>)
      else if mTo m = r_id r then Inl (ExplicitPanic ''message should not be self-addressed when sending'')
      else Inr (r\<lparr>r_msgs := r_msgs r @ [sent m r]\<rparr>))"
  unfolding send_def Let_def vote_type_def [symmetric] durable_type_def [symmetric] sent_def if_distrib [of mType]
  by (simp add: vote_type_def [symmetric] durable_type_def [symmetric] if_distrib [of mTo]
      if_distrib [of mTerm])

lemma sent_sel [simp]:
  "mType (sent m r) = mType m" "mTo (sent m r) = mTo m" "mReject (sent m r) = mReject m"
  "mFrom (sent m r) = (if mFrom m = 0 then r_id r else mFrom m)"
  "mIndex (sent m r) = mIndex m" "mEntries (sent m r) = mEntries m" "mCommit (sent m r) = mCommit m"
  "mLogTerm (sent m r) = mLogTerm m" "vote_type (mType m) \<Longrightarrow> mTerm (sent m r) = mTerm m"
  by (simp_all add: sent_def Let_def)

lemma quiet_send:
  assumes "send m r = Inr r'" and "mType m \<noteq> MsgVoteResp" and "mType m \<noteq> MsgPreVoteResp"
  shows "quiet r r'"
proof (cases "durable_type (mType m)")
  case True
  then have ty: "mType m = MsgAppResp" using assms(2,3) unfolding durable_type_def by blast
  have r': "r' = r\<lparr>r_msgsAfterAppend := r_msgsAfterAppend r @ [sent m r]\<rparr>"
    using assms(1) True unfolding send_unfold by (simp split: if_splits)
  show ?thesis unfolding quiet_def r' using ty
    by (intro exI [of _ "[]"] exI [of _ "[sent m r]"] exI [of _ "trkProgress (r_trk r)"]) simp
next
  case False
  have r': "r' = r\<lparr>r_msgs := r_msgs r @ [sent m r]\<rparr>"
    using assms(1) False unfolding send_unfold by (simp split: if_splits)
  show ?thesis unfolding quiet_def r' using assms(2)
    by (intro exI [of _ "[sent m r]"] exI [of _ "[]"] exI [of _ "trkProgress (r_trk r)"]) simp
qed

lemma quiet_maybeSendAppend: "maybeSendAppend to b r = Inr (r', s) \<Longrightarrow> quiet r r'"
proof -
  assume a: "maybeSendAppend to b r = Inr (r', s)"
  then obtain pr where pr: "progress_of to r = Some pr"
    by (auto simp: maybeSendAppend_def split: option.splits)
  from a have "r' = r \<or> (\<exists>pr' m. mType m = MsgApp \<and> send m (set_progress to pr' r) = Inr r')"
    by (auto simp: maybeSendAppend_def pr Let_def split: if_splits prod.splits bool.splits; fastforce)
  then show ?thesis
  proof (elim disjE exE conjE)
    fix pr' m
    assume m: "mType m = MsgApp" "send m (set_progress to pr' r) = Inr r'"
    have "quiet (set_progress to pr' r) r'" by (rule quiet_send [OF m(2)]) (simp_all add: m(1))
    moreover have "quiet r (set_progress to pr' r)" by (rule quiet_set_progress [OF pr])
    ultimately show ?thesis using quiet_trans by blast
  qed simp
qed

lemma quiet_sendAppend: "sendAppend to r = Inr r' \<Longrightarrow> quiet r r'"
  by (auto simp: sendAppend_def dest: quiet_maybeSendAppend)

lemma quiet_Visit:
  assumes "Visit f p r = Inr r'" and "\<And>i s s'. f i s = Inr s' \<Longrightarrow> quiet s s'"
  shows "quiet r r'"
  using assms(1) unfolding Visit_def
  by (rule go_foldl_invariant [where P = "quiet r"]) (auto intro: quiet_trans dest: assms(2))

lemma quiet_bcastAppend: "bcastAppend r = Inr r' \<Longrightarrow> quiet r r'"
  unfolding bcastAppend_def by (erule quiet_Visit) (auto split: if_splits dest: quiet_sendAppend)

lemma quiet_sendHeartbeat: "sendHeartbeat to ctx r = Inr r' \<Longrightarrow> quiet r r'"
  by (auto simp: sendHeartbeat_def Let_def split: option.splits dest!: quiet_send)

lemma quiet_bcastHeartbeat: "bcastHeartbeat r = Inr r' \<Longrightarrow> quiet r r'"
  unfolding bcastHeartbeat_def bcastHeartbeatWithCtx_def
  by (simp, erule quiet_Visit) (auto split: if_splits dest: quiet_sendHeartbeat)

lemma quiet_handleHeartbeat: "handleHeartbeat m r = Inr r' \<Longrightarrow> quiet r r'"
  unfolding handleHeartbeat_def by (erule quiet_send) simp_all

lemma quiet_send_loop: "send_loop to r = Inr r' \<Longrightarrow> quiet r r'"
proof -
  let ?b = "\<lambda>s :: (raft \<times> bool) go. case s of Inr (_, b) \<Rightarrow> b | Inl _ \<Rightarrow> False"
  let ?c = "\<lambda>s. go_bind s (\<lambda>(r, _). maybeSendAppend to False r)"
  let ?P = "\<lambda>s :: (raft \<times> bool) go. case s of Inr (r', _) \<Rightarrow> quiet r r' | Inl _ \<Rightarrow> True"
  assume a: "send_loop to r = Inr r'"
  then obtain s where s: "while_option ?b ?c (maybeSendAppend to False r) = Some s"
      and r': "go_bind s (\<lambda>(r, _). Inr r) = Inr r'"
    by (auto simp: send_loop_def split: option.splits)
  have "?P s"
  proof (rule while_option_rule [where P = ?P, OF _ s])
    show "?P (maybeSendAppend to False r)"
      by (auto split: sum.split dest: quiet_maybeSendAppend)
    fix s assume "?P s" "?b s"
    then show "?P (?c s)"
      by (auto split: sum.splits intro: quiet_trans dest: quiet_maybeSendAppend)
  qed
  then show ?thesis using r' by auto
qed

section \<open>Resetting\<close>

text \<open>The effect of \<open>reset(term)\<close>.\<close>

definition reset_rel :: "uint64 \<Rightarrow> raft \<Rightarrow> raft \<Rightarrow> bool" where
  "reset_rel term r r' \<longleftrightarrow> (\<exists>p x rnd.
     r' = r\<lparr>r_Term := term, r_Vote := (if r_Term r = term then r_Vote r else 0), r_lead := 0,
       r_electionElapsed := 0, r_heartbeatElapsed := 0, r_randomizedElectionTimeout := x, r_rand := rnd,
       r_trk := (r_trk r)\<lparr>trkVotes := fmempty, trkProgress := p\<rparr>, r_pendingConfIndex := 0\<rparr> \<and>
     fmdom p = fmdom (trkProgress (r_trk r)) \<and>
     x = int64 (r_electionTimeout r + int (r_rand r 0) mod r_electionTimeout r) \<and> 0 < r_electionTimeout r)"

definition touch :: "raft \<Rightarrow> raft \<Rightarrow> bool" where
  "touch r r' \<longleftrightarrow> (\<exists>p. r' = r\<lparr>r_trk := (r_trk r)\<lparr>trkProgress := p\<rparr>\<rparr> \<and>
     fmdom p = fmdom (trkProgress (r_trk r)))"

lemma touch_refl [simp]: "touch r r"
  unfolding touch_def by (rule exI [of _ "trkProgress (r_trk r)"]) simp

lemma touch_trans: "\<lbrakk>touch r s; touch s t\<rbrakk> \<Longrightarrow> touch r t"
proof -
  assume "touch r s" "touch s t"
  then obtain p q where s: "s = r\<lparr>r_trk := (r_trk r)\<lparr>trkProgress := p\<rparr>\<rparr>"
      "fmdom p = fmdom (trkProgress (r_trk r))" and t: "t = s\<lparr>r_trk := (r_trk s)\<lparr>trkProgress := q\<rparr>\<rparr>"
      "fmdom q = fmdom (trkProgress (r_trk s))"
    unfolding touch_def by blast
  show ?thesis unfolding touch_def
    by (rule exI [of _ q]) (use s(2) t(2) in \<open>simp add: t(1) s(1)\<close>)
qed

lemma touch_set_progress:
  assumes "progress_of i r = Some pr0"
  shows "touch r (set_progress i pr r)"
proof -
  have "finsert i (fmdom (trkProgress (r_trk r))) = fmdom (trkProgress (r_trk r))"
    using progress_of_Some [OF assms] by auto
  then show ?thesis unfolding touch_def set_progress_def
    by (intro exI [of _ "fmupd i pr (trkProgress (r_trk r))"]) simp
qed

lemma touch_reset_progress: "reset_progress i r = Inr r' \<Longrightarrow> touch r r'"
  by (auto simp: reset_progress_def Let_def split: option.splits if_splits intro: touch_set_progress)

lemma touchD:
  "touch r r' \<Longrightarrow> \<exists>p. r' = r\<lparr>r_trk := (r_trk r)\<lparr>trkProgress := p\<rparr>\<rparr> \<and>
     fmdom p = fmdom (trkProgress (r_trk r))"
  by (simp add: touch_def)

lemma touch_sel:
  assumes "touch r r'"
  shows "r_id r' = r_id r" "r_raftLog r' = r_raftLog r" "trkVotes (r_trk r') = trkVotes (r_trk r)"
    "fmdom (trkProgress (r_trk r')) = fmdom (trkProgress (r_trk r))"
  using touchD [OF assms] by (elim exE conjE, simp)+

lemma raft_reset_rel:
  assumes "raft_reset term r = Inr r'"
  shows "reset_rel term r r'"
proof -
  let ?r = "(if r_Term r \<noteq> term then r\<lparr>r_Term := term, r_Vote := 0\<rparr> else r)
      \<lparr>r_lead := 0, r_electionElapsed := 0, r_heartbeatElapsed := 0\<rparr>"
  from assms obtain r1 r2 where r1: "resetRandomizedElectionTimeout ?r = Inr r1"
      and v: "Visit reset_progress (trkProgress (ResetVotes (r_trk r1))) (r1\<lparr>r_trk := ResetVotes (r_trk r1)\<rparr>) = Inr r2"
      and r': "r' = r2\<lparr>r_pendingConfIndex := 0\<rparr>"
    unfolding raft_reset_def Let_def go_bind_eq_Inr by (elim exE conjE) simp
  have r2: "Visit reset_progress (trkProgress (r_trk r1)) (r1\<lparr>r_trk := ResetVotes (r_trk r1)\<rparr>) = Inr r2"
    using v by (simp add: ResetVotes_def)
  have t: "touch (r1\<lparr>r_trk := ResetVotes (r_trk r1)\<rparr>) r2"
    using r2 unfolding Visit_def
    by (rule go_foldl_invariant [where P = "touch (r1\<lparr>r_trk := ResetVotes (r_trk r1)\<rparr>)"])
      (auto intro: touch_trans dest: touch_reset_progress)
  then obtain p where p: "r2 = r1\<lparr>r_trk := (ResetVotes (r_trk r1))\<lparr>trkProgress := p\<rparr>\<rparr>"
      "fmdom p = fmdom (trkProgress (r_trk r1))"
    by (auto simp: touch_def ResetVotes_def)
  have et: "r_electionTimeout ?r = r_electionTimeout r" "r_rand ?r = r_rand r" "r_trk ?r = r_trk r" by simp_all
  from r1 have pos: "0 < r_electionTimeout r" and r1': "r1 = ?r\<lparr>r_randomizedElectionTimeout :=
        int64 (r_electionTimeout r + int (r_rand r 0) mod r_electionTimeout r),
        r_rand := \<lambda>k. r_rand r (Suc k)\<rparr>"
    unfolding resetRandomizedElectionTimeout_def Intn_def et by (auto split: if_splits)
  show ?thesis
    unfolding reset_rel_def
    by (rule exI [of _ p], rule exI [of _ "r_randomizedElectionTimeout r1"], rule exI [of _ "r_rand r1"])
      (use p pos in \<open>simp add: r' r1' ResetVotes_def\<close>)
qed

lemma reset_rel_sel:
  assumes "reset_rel term r r'"
  shows "r_id r' = r_id r" "r_Term r' = term" "r_Vote r' = (if r_Term r = term then r_Vote r else 0)"
    "r_raftLog r' = r_raftLog r" "r_state r' = r_state r" "r_lead r' = 0"
    "r_electionTimeout r' = r_electionTimeout r" "r_step r' = r_step r" "r_tick r' = r_tick r"
    "trkConfig (r_trk r') = trkConfig (r_trk r)" "trkVotes (r_trk r') = fmempty"
    "fmdom (trkProgress (r_trk r')) = fmdom (trkProgress (r_trk r))"
    "r_msgs r' = r_msgs r" "r_msgsAfterAppend r' = r_msgsAfterAppend r" "r_maxMsgSize r' = r_maxMsgSize r"
  using assms unfolding reset_rel_def by (elim exE conjE, simp)+

section \<open>A sample node\<close>

text \<open>The only server of its cluster as it comes out of \<open>setupNode\<close>: a follower at term 1 whose log holds the
  entry that adds it; it campaigns at term 2 and then counts its own vote.\<close>

definition solo_entry :: Entry where
  "solo_entry = \<lparr>eTerm = 1, eIndex = 1, eType = EntryConfChange, eData = Some [8, 0, 16, 0, 24, 1]\<rparr>"

definition solo_conf :: JointConfig where
  "solo_conf = (Some {|1|}, None)"

definition solo_raft :: "uint64 \<Rightarrow> raft" where
  "solo_raft i =
     \<lparr>r_id = i, r_Term = 1, r_Vote = 0, r_readStates = [],
      r_raftLog = \<lparr>l_storage = NewMemoryStorage\<lparr>ms_callStats := zeroCallStats\<lparr>cs_firstIndex := 1, cs_lastIndex := 2\<rparr>\<rparr>,
        l_unstable = \<lparr>u_snapshot = None, u_entries = [solo_entry], u_offset = 1, u_snapshotInProgress = False,
          u_offsetInProgress = 1\<rparr>,
        l_committed = 1, l_applying = 0, l_applied = 0, l_maxApplyingEntsSize = 2 ^ 20, l_applyingEntsSize = 0,
        l_applyingEntsPaused = False\<rparr>,
      r_maxMsgSize = 0, r_maxUncommittedSize = 0,
      r_trk = (MakeProgressTracker 256 (- 1))\<lparr>trkConfig := zeroConfig\<lparr>cfgVoters := solo_conf\<rparr>,
        trkProgress := fmupd 1 (zeroProgress\<lparr>Next := 1, RecentActive := True\<rparr>) fmempty\<rparr>,
      r_state = StateFollower, r_isLearner = False, r_msgs = [], r_msgsAfterAppend = [], r_lead = 0,
      r_leadTransferee = 0, r_pendingConfIndex = 0, r_disableConfChangeValidation = False,
      r_electionElapsed = 0, r_heartbeatElapsed = 0, r_checkQuorum = False, r_preVote = False,
      r_heartbeatTimeout = 1, r_electionTimeout = 10, r_randomizedElectionTimeout = 10,
      r_disableProposalForwarding = False, r_stepDownOnRemoval = False, r_tick = tickElectionF,
      r_step = stepFollowerF, r_pendingReadIndexMessages = zeroMessage, r_rand = (\<lambda>k. 0)\<rparr>"

definition solo_self_vote :: Message where
  "solo_self_vote = set_mFrom 1 (set_mTo 1 (set_mTerm 2 (set_mType MsgVoteResp zeroMessage)))"

definition solo_candidate :: raft where
  "solo_candidate = (solo_raft 1)\<lparr>r_Term := 2, r_Vote := 1, r_state := StateCandidate, r_step := stepCandidateF,
     r_msgsAfterAppend := [solo_self_vote],
     r_trk := (r_trk (solo_raft 1))\<lparr>trkProgress := fmupd 1 (zeroProgress\<lparr>Match := 1, Next := 2\<rparr>) fmempty\<rparr>\<rparr>"

lemma Visit_solo: "Visit_ids (fmupd 1 p fmempty) = [1]"
  by (simp add: Visit_ids sorted_list_of_fset.rep_eq)

lemma int64_10: "int64 10 = 10"
  by (simp add: int64_def)

lemmas solo_log = log_lastIndex_def maybeLastIndex_def Storage_LastIndex_def Storage_lastIndex_def
  NewMemoryStorage_def zeroEntry_def solo_entry_def

lemmas solo_state = solo_raft_def solo_candidate_def solo_self_vote_def solo_conf_def zeroProgress_def
  MakeProgressTracker_def progress_of_def set_progress_def int64_10

lemmas solo_reset = raft_reset_def resetRandomizedElectionTimeout_def Intn_def ResetVotes_def Visit_def
  Visit_solo reset_progress_def

lemma solo_campaign: "Step (set_mType MsgHup zeroMessage) (solo_raft 1) = Inr (solo_candidate, None)"
  by (simp add: Step_def check_term_def dispatch_def hup_def promotable_def ok_step_def campaign_def
      becomeCandidate_def Joint_IDs_def sorted_list_of_fset.rep_eq campaign_to_def voteRespMsgType_def
      send_def solo_reset solo_log solo_state)

lemma solo_won: "Joint_VoteResult solo_conf (fmupd 1 True fmempty) = VoteWon"
proof -
  have "granted (Some {|1|}) (fmupd 1 True fmempty) = {1}" by (auto simp: granted_def)
  then show ?thesis by (simp add: Joint_won_iff Majority_won_iff solo_conf_def fcard.rep_eq)
qed

definition solo_stored :: raft where
  "solo_stored = solo_candidate\<lparr>r_msgs := [], r_msgsAfterAppend := []\<rparr>"

lemma solo_wins: "\<exists>r'. Step solo_self_vote solo_stored = Inr (r', None) \<and> r_state r' = StateLeader \<and> r_Term r' = 2"
proof -
  have v: "poll 1 6 True solo_stored = (s, gr, rj, res) \<Longrightarrow> res = VoteWon" for s gr rj res
    using TallyVotes_result [of "RecordVote 1 True (r_trk solo_stored)"] solo_won
    by (simp add: poll_def RecordVote_def solo_stored_def solo_state)
  obtain s gr rj res where p: "poll 1 6 True solo_stored = (s, gr, rj, res)" by (cases "poll 1 6 True solo_stored")
  have s: "s = solo_stored\<lparr>r_trk := RecordVote 1 True (r_trk solo_stored)\<rparr>" using p by (simp add: poll_def Let_def)
  have "r_state s = StateCandidate" by (simp add: s solo_stored_def solo_candidate_def)
  then have "stepCandidate solo_self_vote solo_stored = go_bind (becomeLeader s) (\<lambda>r. go_bind (bcastAppend r) ok_step)"
    using p v [OF p] by (simp add: stepCandidate_def Let_def solo_self_vote_def solo_stored_def solo_candidate_def)
  moreover have "\<exists>r'. go_bind (becomeLeader s) (\<lambda>r. go_bind (bcastAppend r) ok_step) = Inr (r', None) \<and>
      r_state r' = StateLeader \<and> r_Term r' = 2"
    by (simp add: s solo_stored_def RecordVote_def becomeLeader_def BecomeReplicate_def ResetState_def
      appendEntry_def stamp_entries_def log_append_def truncateAndAppend_def bcastAppend_def ok_step_def send_def
      solo_reset solo_log solo_state)
  ultimately show ?thesis
    by (simp add: Step_def check_term_def dispatch_def call_step_def solo_self_vote_def solo_stored_def solo_candidate_def solo_raft_def)
qed

section \<open>Properties\<close>

text \<open>Resetting a node draws its next election timeout from the range the code documents, between the
  configured timeout and twice that timeout less one, and restarts both clocks.\<close>

theorem election_timeout_range:
  assumes "raft_reset term r = Inr r'" and "r_electionTimeout r < 2 ^ 62"
  shows "r_electionTimeout r \<le> r_randomizedElectionTimeout r' \<and>
    r_randomizedElectionTimeout r' \<le> 2 * r_electionTimeout r - 1 \<and>
    r_electionElapsed r' = 0 \<and> r_heartbeatElapsed r' = 0"
proof -
  from raft_reset_rel [OF assms(1)] obtain p x rnd where
    r': "r' = r\<lparr>r_Term := term, r_Vote := (if r_Term r = term then r_Vote r else 0), r_lead := 0,
       r_electionElapsed := 0, r_heartbeatElapsed := 0, r_randomizedElectionTimeout := x, r_rand := rnd,
       r_trk := (r_trk r)\<lparr>trkVotes := fmempty, trkProgress := p\<rparr>, r_pendingConfIndex := 0\<rparr>"
    and x: "x = int64 (r_electionTimeout r + int (r_rand r 0) mod r_electionTimeout r)"
    and pos: "0 < r_electionTimeout r"
    unfolding reset_rel_def by blast
  let ?k = "int (r_rand r 0) mod r_electionTimeout r"
  have k: "0 \<le> ?k" "?k < r_electionTimeout r" using pos by simp_all
  have "x = r_electionTimeout r + ?k"
    unfolding x int64_def using k assms(2) by (intro signed_take_bit_int_eq_self) simp_all
  then show ?thesis using k by (simp add: r')
qed

theorem election_timeout_range_witness:
  "\<exists>r'. raft_reset 2 (solo_raft 1) = Inr r' \<and> 10 \<le> r_randomizedElectionTimeout r' \<and>
    r_randomizedElectionTimeout r' \<le> 19"
proof -
  obtain r' where r': "raft_reset 2 (solo_raft 1) = Inr r'"
    by (simp add: solo_reset solo_log solo_state)
  have "r_electionTimeout (solo_raft 1) = 10" by (simp add: solo_raft_def)
  then show ?thesis using election_timeout_range [OF r'] r' by simp
qed

text \<open>C38: \<open>send\<close> queues exactly one message.  Responses that promise durability (votes, pre-votes, appends)
  wait for the entries to be stored; everything else goes out at once and never to the node
  itself.  A campaign message carries the term it was given, a forwarded proposal or read none,
  every other message the node's own term.\<close>

theorem send_discipline:
  assumes "send m r = Inr r'"
  shows "\<exists>x. mType x = mType m \<and> mTo x = mTo m \<and> mFrom x = (if mFrom m = 0 then r_id r else mFrom m) \<and>
    (if mType m \<in> {MsgVote, MsgVoteResp, MsgPreVote, MsgPreVoteResp} then mTerm x = mTerm m \<and> mTerm x \<noteq> 0
     else if mType m \<in> {MsgProp, MsgReadIndex} then mTerm x = 0 else mTerm x = r_Term r) \<and>
    (if mType m \<in> {MsgAppResp, MsgVoteResp, MsgPreVoteResp}
     then r' = r\<lparr>r_msgsAfterAppend := r_msgsAfterAppend r @ [x]\<rparr>
     else mTo m \<noteq> r_id r \<and> r' = r\<lparr>r_msgs := r_msgs r @ [x]\<rparr>)"
proof (rule exI [of _ "sent m r"], intro conjI)
  have v: "vote_type (mType m) \<longleftrightarrow> mType m \<in> {MsgVote, MsgVoteResp, MsgPreVote, MsgPreVoteResp}"
    by (simp only: vote_type_def insert_iff empty_iff) blast
  have d: "durable_type (mType m) \<longleftrightarrow> mType m \<in> {MsgAppResp, MsgVoteResp, MsgPreVoteResp}"
    by (simp only: durable_type_def insert_iff empty_iff) blast
  have t: "if vote_type (mType m) then mTerm m \<noteq> 0 else mTerm m = 0"
    using assms unfolding send_unfold by (auto split: if_splits)
  show "if mType m \<in> {MsgVote, MsgVoteResp, MsgPreVote, MsgPreVoteResp}
      then mTerm (sent m r) = mTerm m \<and> mTerm (sent m r) \<noteq> 0
      else if mType m \<in> {MsgProp, MsgReadIndex} then mTerm (sent m r) = 0 else mTerm (sent m r) = r_Term r"
    unfolding v [symmetric] using t by (auto simp: sent_def Let_def)
  show "if mType m \<in> {MsgAppResp, MsgVoteResp, MsgPreVoteResp}
      then r' = r\<lparr>r_msgsAfterAppend := r_msgsAfterAppend r @ [sent m r]\<rparr>
      else mTo m \<noteq> r_id r \<and> r' = r\<lparr>r_msgs := r_msgs r @ [sent m r]\<rparr>"
    unfolding d [symmetric] using assms unfolding send_unfold by (simp split: if_splits)
qed simp_all

theorem send_discipline_witness:
  "\<exists>r'. send (set_mTo 2 (set_mType MsgHeartbeat zeroMessage)) (solo_raft 1) = Inr r' \<and>
     (\<exists>x. r_msgs r' = [x] \<and> mTerm x = 1 \<and> mFrom x = 1)"
proof -
  obtain r' where r': "send (set_mTo 2 (set_mType MsgHeartbeat zeroMessage)) (solo_raft 1) = Inr r'"
    by (simp add: send_def solo_raft_def)
  show ?thesis using send_discipline [OF r'] r' by (auto simp: solo_raft_def)
qed

text \<open>The leader of this version never commits: the commit index it computes from the acknowledged
  entries is always 0, so \<open>maybeCommit\<close> changes nothing and answers false.\<close>

theorem leader_never_commits:
  "raft_maybeCommit r = Inr (r, False)"
  by (simp add: raft_maybeCommit_def maybeCommit_def Tracker_Committed_def Let_def)

text \<open>C39: a follower that is being replicated to gets no entries: whatever is in the log, the append
  message sent to a peer in the replicating state is empty.\<close>

theorem replicating_peer_starved:
  assumes "progress_of to r = Some pr" and "State pr = StateReplicate"
    and "maybeSendAppend to b r = Inr (r', s)"
  shows "r_msgs r' = r_msgs r \<or> (\<exists>m. r_msgs r' = r_msgs r @ [m] \<and> mType m = MsgApp \<and> mEntries m = [])"
proof -
  obtain t where t: "log_term (Next pr - 1) (r_raftLog r) = Inr t"
    using assms by (auto simp: maybeSendAppend_def Let_def)
  show ?thesis
  proof (cases "b \<and> \<not> isl t")
    case False
    then show ?thesis using assms t
      by (auto simp: maybeSendAppend_def Let_def UpdateOnEntriesSend_def split: if_splits sum.splits)
  next
    case True
    then obtain x where "send x (set_progress to pr r) = Inr r'" "mType x = MsgApp" "mEntries x = []"
      using assms t by (auto simp: maybeSendAppend_def Let_def UpdateOnEntriesSend_def isl_def)
    then show ?thesis by (auto simp: send_unfold set_progress_def durable_type_def split: if_splits)
  qed
qed

definition solo_pair :: raft where
  "solo_pair = set_progress 2 (zeroProgress\<lparr>Next := 1, State := StateReplicate\<rparr>) (solo_raft 1)"

lemma solo_pair_sends:
  "\<exists>r'. maybeSendAppend 2 True solo_pair = Inr (r', True)" "maybeSendAppend 2 False solo_pair = Inr (solo_pair, False)"
  by (simp_all add: maybeSendAppend_def solo_pair_def log_term_def maybeTerm_def maybeFirstIndex_def
      log_firstIndex_def Storage_FirstIndex_def Storage_firstIndex_def Storage_Term_def UpdateOnEntriesSend_def
      send_def solo_log solo_state)

theorem replicating_peer_starved_witness:
  "\<exists>r' m. maybeSendAppend 2 True solo_pair = Inr (r', True) \<and>
     (r_msgs r' = [] \<or> r_msgs r' = [m] \<and> mEntries m = [])"
proof -
  have p: "progress_of 2 solo_pair = Some (zeroProgress\<lparr>Next := 1, State := StateReplicate\<rparr>)" "r_msgs solo_pair = []"
    by (simp_all add: solo_pair_def solo_state)
  obtain r' where r': "maybeSendAppend 2 True solo_pair = Inr (r', True)" using solo_pair_sends(1) by blast
  show ?thesis using replicating_peer_starved [OF p(1) _ r'] r' p(2) by auto
qed

text \<open>A node that restarts has forgotten its term and its vote, whatever hard state its storage holds,
  and it knows no members.\<close>

theorem restart_forgets_hard_state:
  assumes "newRaft rnd c = Inr r"
  shows "r_Term r = 0 \<and> r_Vote r = 0 \<and> r_state r = StateFollower \<and>
    VoterNodes (r_trk r) = [] \<and> trkProgress (r_trk r) = fmempty"
proof -
  obtain c' l r0 where v: "validate c = Inr c'" and l: "newLogWithSize (cfgStorage c') (MaxCommittedSizePerReady c') = Inr l"
      and b: "becomeFollower 0 0 r0 = Inr r"
      and r0: "r_Term r0 = 0" "r_Vote r0 = 0" "r_trk r0 = MakeProgressTracker (MaxInflightMsgs c') (cfgMaxInflightBytes c')"
    using assms unfolding newRaft_def
    by (cases "validate c") (auto simp: MakeProgressTracker_def)
  from b obtain s where s: "raft_reset 0 (r0\<lparr>r_step := stepFollowerF\<rparr>) = Inr s"
      and r: "r = s\<lparr>r_tick := tickElectionF, r_lead := 0, r_state := StateFollower\<rparr>"
    by (auto simp: becomeFollower_def)
  note sel = reset_rel_sel [OF raft_reset_rel [OF s]]
  have "fmdom (trkProgress (r_trk s)) = {||}" using sel(12) r0 by (simp add: MakeProgressTracker_def)
  then have "trkProgress (r_trk s) = fmempty" by (metis fmrestrict_fset_dom fmrestrict_fset_null)
  moreover have "VoterNodes (r_trk s) = []"
    using sel(10) r0 by (simp add: VoterNodes_def MakeProgressTracker_def zeroConfig_def Joint_IDs_def
        sorted_list_of_fset.rep_eq)
  ultimately show ?thesis using sel r0 by (simp add: r)
qed

definition sample_config :: RaftConfig where
  "sample_config = \<lparr>cfgID = 1, ElectionTick = 10, HeartbeatTick = 1,
     cfgStorage = Some (NewMemoryStorage\<lparr>ms_hardState := \<lparr>hsTerm = 5, hsVote = 2, hsCommit = 0\<rparr>\<rparr>),
     AsyncStorageWrites = False, MaxSizePerMsg = 1, MaxCommittedSizePerReady = 0,
     MaxUncommittedEntriesSize = 0, MaxInflightMsgs = 1, cfgMaxInflightBytes = 0, CheckQuorum = False,
     PreVote = False\<rparr>"

theorem restart_forgets_hard_state_witness:
  "\<exists>r. newRaft (\<lambda>k. 0) sample_config = Inr r \<and> r_Term r = 0 \<and> r_Vote r = 0"
proof -
  obtain r where r: "newRaft (\<lambda>k. 0) sample_config = Inr r"
    by (simp add: newRaft_def validate_def sample_config_def IsLocalMsgTarget_def LocalAppendThread_def
        LocalApplyThread_def noLimit_def newLogWithSize_def Storage_FirstIndex_def Storage_firstIndex_def
        becomeFollower_def raft_reset_def resetRandomizedElectionTimeout_def Intn_def ResetVotes_def Visit_def
        Visit_ids sorted_list_of_fset.rep_eq lastTerm_def log_term_def maybeTerm_def maybeFirstIndex_def
        log_firstIndex_def Storage_Term_def solo_log MakeProgressTracker_def)
  show ?thesis using restart_forgets_hard_state [OF r] r by blast
qed

end
