(* ===== verification/Raft_Acks.thy ===== *)
theory Raft_Acks
  imports Raft_Frame
begin

text \<open>
  The handling of an acknowledgement by the leader (\<open>stepLeader\<close> of \<open>src/raft/core/raft.go\<close>, case
  \<open>MsgAppResp\<close>), which ends in the loop \<open>for r.maybeSendAppend(m.From, false) {}\<close>: when that loop ends, and
  that the acknowledgement always leaves the peer in a state in which it does.
\<close>

section \<open>Calls that come to an end\<close>

text \<open>A result or a panic, and not a loop without end.\<close>

definition ends :: "'a go \<Rightarrow> bool" where
  "ends x \<longleftrightarrow> x \<noteq> Inl NotReturning"

lemma ends_Inr [simp]: "ends (Inr x)"
  by (simp add: ends_def)

lemma ends_bind [intro!]: "\<lbrakk>ends m; \<And>x. m = Inr x \<Longrightarrow> ends (f x)\<rbrakk> \<Longrightarrow> ends (go_bind m f)"
  by (cases m) (simp_all add: ends_def)

lemma ends_index [simp]: "ends (go_index xs i)" and ends_slice [simp]: "ends (go_slice xs i j)"
  by (simp_all add: ends_def go_index_def go_slice_def)

lemma ends_panic [simp]: "ends (Inl (ExplicitPanic s))" "ends (Inl NilDereference)"
  by (simp_all add: ends_def)

lemma ends_firstIndex [simp]: "ends (log_firstIndex l)"
  by (auto simp: log_firstIndex_def Storage_FirstIndex_def Storage_firstIndex_def Let_def split: option.split)

lemma ends_lastIndex [simp]: "ends (log_lastIndex l)"
  by (auto simp: log_lastIndex_def Storage_LastIndex_def Storage_lastIndex_def Let_def split: option.split)

lemma ends_unstable_slice [simp]: "ends (unstable_slice lo hi u)"
  by (auto simp: unstable_slice_def unstable_mustCheckOutOfBounds_def Let_def)

lemma ends_term [simp]: "ends (log_term i l)"
proof -
  have "ends (maybeTerm i (l_unstable l))" by (auto simp: maybeTerm_def split: option.split)
  moreover have "ends (Storage_Term i (l_storage l))" unfolding Storage_Term_def Let_def by (intro ends_bind) auto
  ultimately show ?thesis by (auto simp: log_term_def split: option.split sum.split)
qed

lemma ends_entries [simp]: "ends (log_entries i ms l)"
proof -
  have "ends (log_slice lo hi ms l)" for lo hi
    by (auto simp: log_slice_def log_mustCheckOutOfBounds_def Storage_Entries_def Let_def split: option.split)
  then show ?thesis by (auto simp: log_entries_def)
qed

lemma ends_send [simp]: "ends (send m r)"
  by (simp add: send_unfold)

lemma ends_maybeSendAppend [simp]: "ends (maybeSendAppend to b r)"
  by (auto simp: maybeSendAppend_def Let_def split: option.split prod.split bool.split)

section \<open>When the loop ends\<close>

text \<open>Where the term of an index is not known, the log has no entry behind it.\<close>

lemma no_term_no_entries:
  assumes sh: "log_shape l" and t: "log_term i l = Inr (Inl e)" and es: "log_entries (i + 1) ms l = Inr (Inr es)"
  shows "es = []"
proof -
  let ?n = "log_base l + length (log_items l)"
  have b: "0 < length (log_items l)" "?n < 2 ^ 63"
    using log_items_run [OF sh] contiguous_bound by (auto simp: contiguous_def)
  have first: "unat (of_nat (log_base l + 1) :: uint64) = log_base l + 1" using b by (intro unat_of_nat_small) simp
  have last: "unat (of_nat (?n - 1) :: uint64) = ?n - 1" using b by (intro unat_of_nat_small) simp
  have "\<not> (log_base l \<le> unat i \<and> unat i < ?n)" using rlog.term_present [OF sh, of i] t by auto
  then consider "i + 1 < of_nat (log_base l + 1)" | "i + 1 > of_nat (?n - 1)"
  proof (cases "i + 1 = 0")
    case True
    then show ?thesis using that(1) first by (simp add: word_less_nat_alt)
  next
    case False
    then have u: "unat (i + 1) = unat i + 1" by (simp add: unatSuc add.commute)
    assume "\<not> (log_base l \<le> unat i \<and> unat i < ?n)"
    then show ?thesis using that u first last b unfolding word_less_nat_alt by linarith
  qed
  then show ?thesis
  proof cases
    case 1
    then show ?thesis using es log_first [OF sh] log_last [OF sh]
      by (auto simp: log_entries_def log_slice_def log_mustCheckOutOfBounds_def split: if_splits)
  next
    case 2
    then show ?thesis using es log_last [OF sh] by (simp add: log_entries_def)
  qed
qed

text \<open>For a peer that is not being probed one iteration sends nothing, so it is the last.\<close>

lemma unprobed_sends_nothing:
  assumes p: "progress_of to r = Some pr" "State pr \<noteq> StateProbe" and sh: "log_shape (r_raftLog r)"
    and s: "maybeSendAppend to False r = Inr (r', again)"
  shows "r' = r \<and> \<not> again"
proof (cases "State pr = StateReplicate")
  case True
  then show ?thesis using p s by (auto simp: maybeSendAppend_def Let_def)
next
  case False
  then have snap: "State pr = StateSnapshot" using p(2) by (cases "State pr") simp_all
  obtain t e where t: "log_term (Next pr - 1) (r_raftLog r) = Inr t"
      and e: "log_entries (Next pr) (r_maxMsgSize r) (r_raftLog r) = Inr e"
    using p False s by (auto simp: maybeSendAppend_def Let_def)
  have "isl t \<Longrightarrow> (case e of Inr es \<Rightarrow> es | Inl _ \<Rightarrow> []) = []"
    using no_term_no_entries [OF sh, of "Next pr - 1" _ "r_maxMsgSize r"] t e by (cases t; cases e) auto
  then show ?thesis using p(1) snap s t e
    by (cases e) (auto simp: maybeSendAppend_def Let_def UpdateOnEntriesSend_def split: if_splits)
qed

lemma send_loop_first:
  assumes "\<And>r' again. maybeSendAppend to False r = Inr (r', again) \<Longrightarrow> r' = r \<and> \<not> again"
  shows "send_loop to r = go_bind (maybeSendAppend to False r) (\<lambda>_. Inr r)"
proof (cases "maybeSendAppend to False r")
  case (Inl p)
  then show ?thesis by (simp add: send_loop_def while_option_unfold)
next
  case (Inr x)
  then obtain r' again where "maybeSendAppend to False r = Inr (r', again)" by (cases x) simp
  then show ?thesis using assms by (auto simp: send_loop_def while_option_unfold)
qed

lemma send_loop_ends:
  assumes "progress_of to r = Some pr" and "State pr \<noteq> StateProbe" and "log_shape (r_raftLog r)"
  shows "ends (send_loop to r)"
proof -
  have "send_loop to r = go_bind (maybeSendAppend to False r) (\<lambda>_. Inr r)"
    by (rule send_loop_first) (rule unprobed_sends_nothing [OF assms])
  then show ?thesis by auto
qed

section \<open>The acknowledgement\<close>

lemma raft_maybeCommit_same: "raft_maybeCommit r = Inr (r, False)"
  by (simp add: raft_maybeCommit_def maybeCommit_def Tracker_Committed_def Let_def)

text \<open>Sending to a peer changes neither its state nor the log.\<close>

lemma sendAppend_keeps:
  assumes "sendAppend to r = Inr r'" and "progress_of to r = Some pr"
  shows "r_raftLog r' = r_raftLog r \<and> (\<exists>pr'. progress_of to r' = Some pr' \<and> State pr' = State pr)"
proof -
  obtain s where s: "maybeSendAppend to True r = Inr (r', s)" using assms(1) by (auto simp: sendAppend_def)
  have sent: "r_raftLog y = r_raftLog x \<and> r_trk y = r_trk x" if "send m x = Inr y" for m x y
    using that unfolding send_unfold by (auto split: if_splits)
  have up: "State (fst (UpdateOnEntriesSend n b i pr)) = State pr" for n b i
    by (simp add: UpdateOnEntriesSend_def split: StateType.split)
  show ?thesis
  proof (cases "r' = r")
    case False
    then obtain m pr' where "send m (set_progress to pr' r) = Inr r'" "State pr' = State pr"
      using s assms(2) up by (auto simp: maybeSendAppend_def Let_def UpdateOnEntriesSend_def split: if_splits StateType.splits)
    then show ?thesis using sent [of m "set_progress to pr' r" r'] by (auto simp: progress_of_def set_progress_def)
  qed (use assms(2) in simp)
qed

section \<open>Properties\<close>

text \<open>C40: the handling of an acknowledgement comes to an end, whatever it acknowledges and whatever state the
  peer is in: it makes a probed peer a replicating one, so the loop that goes on sending to the peer as long
  as something is sent finds it replicating, which is sent no more, or waiting for a snapshot, for which
  there is nothing to send or the call panics.  Without that change a probed peer for which there is an
  entry would be sent the same message for ever.\<close>

theorem leader_ack_ends:
  assumes "log_shape (r_raftLog r)"
  shows "leader_ack m pr r \<noteq> Inl NotReturning"
proof -
  let ?from = "mFrom m"
  have loop: "ends (if r_id s \<noteq> ?from then send_loop ?from s else Inr s)"
    if "progress_of ?from s = Some q" "State q \<noteq> StateProbe" "r_raftLog s = r_raftLog r" for s q
    using send_loop_ends [OF that(1,2)] that(3) assms by simp
  have rest: "ends (go_bind (if b then sendAppend ?from (set_progress ?from q r) else Inr (set_progress ?from q r))
      (\<lambda>s. if r_id s \<noteq> ?from then send_loop ?from s else Inr s))"
    if q: "State q \<noteq> StateProbe" for q b
  proof -
    have q0: "progress_of ?from (set_progress ?from q r) = Some q" "r_raftLog (set_progress ?from q r) = r_raftLog r"
      by (simp_all add: progress_of_def set_progress_def)
    show ?thesis
    proof (cases b)
      case True
      have "ends (sendAppend ?from (set_progress ?from q r))" by (auto simp: sendAppend_def)
      moreover have "ends (if r_id s \<noteq> ?from then send_loop ?from s else Inr s)"
        if s: "sendAppend ?from (set_progress ?from q r) = Inr s" for s
      proof -
        obtain q' where "progress_of ?from s = Some q'" "State q' = State q" "r_raftLog s = r_raftLog r"
          using sendAppend_keeps [OF s q0(1)] q0(2) by auto
        then show ?thesis using loop [of s q'] q by simp
      qed
      ultimately show ?thesis using True by (simp only: if_True) (rule ends_bind)
    next
      case False
      then show ?thesis using loop [OF q0(1) q q0(2)] by simp
    qed
  qed
  have repl: "State (BecomeReplicate q) \<noteq> StateProbe" for q by (simp add: BecomeReplicate_def ResetState_def Let_def)
  have "ends (leader_ack m pr r)"
  proof (cases "mReject m")
    case False
    obtain q u where q: "MaybeUpdate (mIndex m) (pr\<lparr>RecentActive := True\<rparr>) = (q, u)" by fastforce
    have tail: "ends (go_bind (raft_maybeCommit (set_progress ?from q' r)) (\<lambda>(s, committed).
        go_bind (if committed then bcastAppend s else if b then sendAppend ?from s else Inr s)
          (\<lambda>s. if r_id s \<noteq> ?from then send_loop ?from s else Inr s)))" if "State q' \<noteq> StateProbe" for q' b
      using rest [OF that, of b] by (simp add: raft_maybeCommit_same)
    show ?thesis
    proof (cases "u \<or> Match q = mIndex m \<and> State q = StateProbe")
      case True
      have "ends (leader_ack m pr r)" if s: "State q = StateProbe"
        using True q False s tail [OF repl] by (simp add: leader_ack_def Let_def)
      moreover have "ends (leader_ack m pr r)" if s: "State q = StateReplicate"
        using True q False s tail [of q] by (simp add: leader_ack_def Let_def)
      moreover have "ends (leader_ack m pr r)" if s: "State q = StateSnapshot"
      proof -
        obtain fi where fi: "log_firstIndex (r_raftLog r) = Inr fi" using log_first [OF assms] by blast
        show ?thesis
          using True q False s fi tail [OF repl] tail [of q] by (simp add: leader_ack_def Let_def)
      qed
      ultimately show ?thesis by (cases "State q") simp_all
    next
      case unmoved: False
      have "leader_ack m pr r = Inr (set_progress ?from q r)"
        unfolding leader_ack_def Let_def using q False unmoved by (simp only: if_False prod.case)
      then show ?thesis by simp
    qed
  qed (simp add: leader_ack_def Let_def)
  then show ?thesis by (simp add: ends_def)
qed

text \<open>A peer that is probed acknowledges the first index.\<close>

lemma solo_log_shape: "log_shape (r_raftLog (solo_raft i))"
  by (simp add: solo_state solo_log log_shape_def log_base_def log_items_def storage_ok_def storage_base_def contiguous_def
      Let_def)

theorem leader_ack_ends_witness:
  "leader_ack (set_mIndex 1 (set_mFrom 2 (set_mType MsgAppResp zeroMessage)))
     (zeroProgress\<lparr>Next := 1\<rparr>) (set_progress 2 (zeroProgress\<lparr>Next := 1\<rparr>) (solo_raft 1)) \<noteq> Inl NotReturning"
proof -
  have "log_shape (r_raftLog (set_progress 2 p (solo_raft 1)))" for p
    using solo_log_shape by (simp add: set_progress_def)
  then show ?thesis by (rule leader_ack_ends)
qed

end
