(* ===== verification/Raft_Votes.thy ===== *)
theory Raft_Votes
  imports Raft_Frame
begin

text \<open>
  A node's term never goes back and in each term it votes for at most one candidate: every
  operation of \<open>raft.go\<close> satisfies \<open>votes_kept\<close>, a preorder on states.
\<close>

section \<open>The relation\<close>

definition grant :: "Message \<Rightarrow> bool" where
  "grant m \<longleftrightarrow> mType m = MsgVoteResp \<and> \<not> mReject m"

definition new_grants :: "raft \<Rightarrow> raft \<Rightarrow> Message set \<Rightarrow> bool" where
  "new_grants r r' A \<longleftrightarrow>
     (\<forall>m \<in> A. grant m \<longrightarrow> mFrom m = r_id r \<and> mTo m \<noteq> 0 \<and> mTerm m \<noteq> 0 \<and> r_Term r \<le> mTerm m \<and> mTerm m \<le> r_Term r' \<and>
        (mTerm m = r_Term r' \<longrightarrow> r_Vote r' = mTo m) \<and>
        (mTerm m = r_Term r \<and> r_Vote r \<noteq> 0 \<longrightarrow> mTo m = r_Vote r)) \<and>
     (\<forall>m \<in> A. \<forall>m' \<in> A. grant m \<and> grant m' \<and> mTerm m = mTerm m' \<longrightarrow> mTo m = mTo m')"

definition votes_kept :: "raft \<Rightarrow> raft \<Rightarrow> bool" where
  "votes_kept r r' \<longleftrightarrow>
     r_id r' = r_id r \<and> r_Term r \<le> r_Term r' \<and>
     (r_Term r' = r_Term r \<and> r_Vote r \<noteq> 0 \<longrightarrow> r_Vote r' = r_Vote r) \<and>
     (\<exists>ms as. r_msgs r' = r_msgs r @ ms \<and> r_msgsAfterAppend r' = r_msgsAfterAppend r @ as \<and>
        (\<forall>m \<in> set ms. \<not> grant m) \<and> new_grants r r' (set as))"

lemma votes_keptI:
  assumes "r_id r' = r_id r" and "r_Term r \<le> r_Term r'"
    and "r_Term r' = r_Term r \<Longrightarrow> r_Vote r \<noteq> 0 \<Longrightarrow> r_Vote r' = r_Vote r"
    and "r_msgs r' = r_msgs r @ ms" and "r_msgsAfterAppend r' = r_msgsAfterAppend r @ as"
    and "\<And>m. m \<in> set ms \<Longrightarrow> \<not> grant m" and "new_grants r r' (set as)"
  shows "votes_kept r r'"
  unfolding votes_kept_def using assms by blast

lemma no_new_grants: "(\<And>m. m \<in> A \<Longrightarrow> \<not> grant m) \<Longrightarrow> new_grants r r' A"
  by (simp add: new_grants_def)

lemma new_grants_empty [simp]: "new_grants r r' {}"
  by (simp add: new_grants_def)

lemma new_grants_single: "\<not> grant m \<Longrightarrow> new_grants r r' {m}"
  by (simp add: new_grants_def)

lemma votes_kept_same:
  assumes "r_id r' = r_id r" and "r_Term r \<le> r_Term r'"
    and "r_Term r' = r_Term r \<Longrightarrow> r_Vote r \<noteq> 0 \<Longrightarrow> r_Vote r' = r_Vote r"
    and "r_msgs r' = r_msgs r" and "r_msgsAfterAppend r' = r_msgsAfterAppend r"
  shows "votes_kept r r'"
  by (rule votes_keptI [where ms = "[]" and as = "[]"]) (simp_all add: assms)

lemma votes_kept_refl [simp]: "votes_kept r r"
  by (rule votes_kept_same) simp_all

lemma new_grants_trans:
  assumes 1: "new_grants r s A" and 2: "new_grants s t B"
    and rs: "r_id s = r_id r" "r_Term r \<le> r_Term s" "r_Term s = r_Term r \<and> r_Vote r \<noteq> 0 \<longrightarrow> r_Vote s = r_Vote r"
    and st: "r_Term s \<le> r_Term t" "r_Term t = r_Term s \<and> r_Vote s \<noteq> 0 \<longrightarrow> r_Vote t = r_Vote s"
  shows "new_grants r t (A \<union> B)"
proof -
  have a: "mFrom m = r_id r" "mTo m \<noteq> 0" "mTerm m \<noteq> 0" "r_Term r \<le> mTerm m" "mTerm m \<le> r_Term s"
      "mTerm m = r_Term s \<Longrightarrow> r_Vote s = mTo m"
      "mTerm m = r_Term r \<Longrightarrow> r_Vote r \<noteq> 0 \<Longrightarrow> mTo m = r_Vote r" if "m \<in> A" "grant m" for m
    using 1 that unfolding new_grants_def by blast+
  have b: "mFrom m = r_id s" "mTo m \<noteq> 0" "mTerm m \<noteq> 0" "r_Term s \<le> mTerm m" "mTerm m \<le> r_Term t"
      "mTerm m = r_Term t \<Longrightarrow> r_Vote t = mTo m"
      "mTerm m = r_Term s \<Longrightarrow> r_Vote s \<noteq> 0 \<Longrightarrow> mTo m = r_Vote s" if "m \<in> B" "grant m" for m
    using 2 that unfolding new_grants_def by blast+
  have ab: "mTo m = mTo m'" if "m \<in> A" "grant m" "m' \<in> B" "grant m'" "mTerm m = mTerm m'" for m m'
    using a [OF that(1,2)] b [OF that(3,4)] that(5) by (metis order_antisym)
  show ?thesis
    unfolding new_grants_def
  proof (intro conjI ballI impI, goal_cases)
    case (1 m) then show ?case using a(1) b(1) rs(1) by auto
  next
    case (2 m) then show ?case using a(2) b(2) by auto
  next
    case (3 m) then show ?case using a(3) b(3) by auto
  next
    case (4 m) then show ?case using a(4) b(4) rs(2) by (auto intro: order_trans)
  next
    case (5 m) then show ?case using a(5) b(5) st(1) by (auto intro: order_trans)
  next
    case (6 m)
    then show ?case using a(2,5,6) b(6) st by (metis UnE order_antisym)
  next
    case (7 m)
    then show ?case using a(7) b(4,7) rs by (metis UnE order_antisym)
  next
    case (8 m m')
    then show ?case
      using ab 1 2 \<open>new_grants r s A\<close> \<open>new_grants s t B\<close> unfolding new_grants_def by (metis UnE)
  qed
qed

lemma votes_kept_trans:
  assumes "votes_kept r s" and "votes_kept s t"
  shows "votes_kept r t"
proof -
  from assms(1) obtain ms as where 1: "r_msgs s = r_msgs r @ ms"
      "r_msgsAfterAppend s = r_msgsAfterAppend r @ as" "\<forall>m \<in> set ms. \<not> grant m" "new_grants r s (set as)"
      "r_id s = r_id r" "r_Term r \<le> r_Term s" "r_Term s = r_Term r \<and> r_Vote r \<noteq> 0 \<longrightarrow> r_Vote s = r_Vote r"
    unfolding votes_kept_def by blast
  from assms(2) obtain ms' as' where 2: "r_msgs t = r_msgs s @ ms'"
      "r_msgsAfterAppend t = r_msgsAfterAppend s @ as'" "\<forall>m \<in> set ms'. \<not> grant m" "new_grants s t (set as')"
      "r_id t = r_id s" "r_Term s \<le> r_Term t" "r_Term t = r_Term s \<and> r_Vote s \<noteq> 0 \<longrightarrow> r_Vote t = r_Vote s"
    unfolding votes_kept_def by blast
  show ?thesis
  proof (rule votes_keptI)
    show "r_id t = r_id r" using 1 2 by simp
    show "r_Term r \<le> r_Term t" using 1 2 by simp
    show "r_Vote t = r_Vote r" if "r_Term t = r_Term r" "r_Vote r \<noteq> 0"
      using 1(6,7) 2(6,7) that by (metis order_antisym)
    show "r_msgs t = r_msgs r @ (ms @ ms')" using 1 2 by simp
    show "r_msgsAfterAppend t = r_msgsAfterAppend r @ (as @ as')" using 1 2 by simp
    show "\<not> grant m" if "m \<in> set (ms @ ms')" for m using 1 2 that by auto
    show "new_grants r t (set (as @ as'))"
      using new_grants_trans [OF 1(4) 2(4) 1(5-7) 2(6,7)] by simp
  qed
qed

lemma votes_kept_quiet: "quiet r r' \<Longrightarrow> votes_kept r r'"
proof -
  assume "quiet r r'"
  then obtain ms as p where q: "r' = r\<lparr>r_msgs := r_msgs r @ ms, r_msgsAfterAppend := r_msgsAfterAppend r @ as,
            r_trk := (r_trk r)\<lparr>trkProgress := p\<rparr>\<rparr>"
     "\<forall>m \<in> set ms. mType m \<noteq> MsgVoteResp" "\<forall>m \<in> set as. mType m = MsgAppResp"
    unfolding quiet_def by blast
  show ?thesis
    by (rule votes_keptI [where ms = ms and as = as])
      (use q(2,3) in \<open>auto simp: q(1) grant_def intro!: no_new_grants\<close>)
qed

section \<open>The operations that change the term or the vote\<close>

lemma votes_kept_reset: "\<lbrakk>reset_rel t r r'; r_Term r \<le> t\<rbrakk> \<Longrightarrow> votes_kept r r'"
  by (rule votes_kept_same) (simp_all add: reset_rel_sel)

lemma votes_kept_fields:
  "votes_kept r s \<Longrightarrow> r_id t = r_id s \<Longrightarrow> r_Term t = r_Term s \<Longrightarrow> r_Vote t = r_Vote s \<Longrightarrow>
     r_msgs t = r_msgs s \<Longrightarrow> r_msgsAfterAppend t = r_msgsAfterAppend s \<Longrightarrow> votes_kept r t"
  by (rule votes_kept_trans, assumption, rule votes_kept_same) simp_all

lemma votes_kept_fields':
  "votes_kept s r \<Longrightarrow> r_id t = r_id s \<Longrightarrow> r_Term t = r_Term s \<Longrightarrow> r_Vote t = r_Vote s \<Longrightarrow>
     r_msgs t = r_msgs s \<Longrightarrow> r_msgsAfterAppend t = r_msgsAfterAppend s \<Longrightarrow> votes_kept t r"
  by (rule votes_kept_trans [rotated], assumption, rule votes_kept_same) simp_all

lemma becomeFollower_votes:
  assumes "becomeFollower t lead r = Inr r'" and "r_Term r \<le> t"
  shows "votes_kept r r'" and "r_Term r' = t" and "r_id r' = r_id r"
proof -
  from assms(1) obtain s where s: "raft_reset t (r\<lparr>r_step := stepFollowerF\<rparr>) = Inr s"
      and r': "r' = s\<lparr>r_tick := tickElectionF, r_lead := lead, r_state := StateFollower\<rparr>"
    by (auto simp: becomeFollower_def)
  note rel = raft_reset_rel [OF s]
  have "votes_kept (r\<lparr>r_step := stepFollowerF\<rparr>) s" using rel assms(2) by (intro votes_kept_reset) simp_all
  then have "votes_kept r s" by (rule votes_kept_fields') simp_all
  then show "votes_kept r r'" by (rule votes_kept_fields) (simp_all add: r')
  show "r_Term r' = t" "r_id r' = r_id r" using reset_rel_sel [OF rel] by (simp_all add: r')
qed

lemma becomeCandidate_votes:
  assumes "becomeCandidate r = Inr r'" and "r_Term r \<noteq> - 1"
  shows "votes_kept r r'" and "r_Term r' = r_Term r + 1" and "r_id r' = r_id r" and "r_Vote r' = r_id r'"
proof -
  from assms(1) obtain s where s: "raft_reset (r_Term r + 1) (r\<lparr>r_step := stepCandidateF\<rparr>) = Inr s"
      and r': "r' = s\<lparr>r_tick := tickElectionF, r_Vote := r_id s, r_state := StateCandidate\<rparr>"
    by (auto simp: becomeCandidate_def split: if_splits)
  note sel = reset_rel_sel [OF raft_reset_rel [OF s], simplified]
  show "votes_kept r r'"
    by (rule votes_kept_same) (use less_plus_one [OF assms(2)] in \<open>simp_all add: r' sel\<close>)
  show "r_Term r' = r_Term r + 1" "r_id r' = r_id r" "r_Vote r' = r_id r'" by (simp_all add: r' sel)
qed

lemma becomePreCandidate_votes:
  assumes "becomePreCandidate r = Inr r'"
  shows "votes_kept r r'" and "r_Term r' = r_Term r" and "r_id r' = r_id r"
  using assms by (auto simp: becomePreCandidate_def split: if_splits intro!: votes_kept_same)

lemma appendEntry_votes: "appendEntry es r = Inr (r', b) \<Longrightarrow> votes_kept r r'"
proof -
  assume "appendEntry es r = Inr (r', b)"
  then obtain l li where
    "send (set_mTo (r_id r) (set_mType MsgAppResp (set_mIndex li zeroMessage))) (r\<lparr>r_raftLog := l\<rparr>) = Inr r'"
    by (auto simp: appendEntry_def)
  then have "quiet (r\<lparr>r_raftLog := l\<rparr>) r'" by (rule quiet_send) simp_all
  then show ?thesis by (rule votes_kept_fields' [OF votes_kept_quiet]) simp_all
qed

lemma becomeLeader_votes: "becomeLeader r = Inr r' \<Longrightarrow> votes_kept r r'"
proof -
  assume a: "becomeLeader r = Inr r'"
  then obtain s where s: "raft_reset (r_Term r) (r\<lparr>r_step := stepLeaderF\<rparr>) = Inr s"
    by (auto simp: becomeLeader_def split: if_splits)
  let ?s = "s\<lparr>r_tick := tickHeartbeatF, r_lead := r_id s, r_state := StateLeader\<rparr>"
  obtain pr li where "progress_of (r_id ?s) ?s = Some pr" and
    app: "appendEntry [zeroEntry]
      ((set_progress (r_id ?s) ((BecomeReplicate pr)\<lparr>RecentActive := True\<rparr>) ?s)\<lparr>r_pendingConfIndex := li\<rparr>) =
      Inr (r', True)"
    using a s by (auto simp: becomeLeader_def Let_def split: if_splits option.splits bool.splits)
  have "votes_kept (r\<lparr>r_step := stepLeaderF\<rparr>) s"
    using raft_reset_rel [OF s] by (rule votes_kept_reset) simp
  then have "votes_kept r s" by (rule votes_kept_fields') simp_all
  moreover have "votes_kept s r'"
    by (rule votes_kept_fields' [OF appendEntry_votes [OF app]]) (simp_all add: set_progress_def)
  ultimately show ?thesis by (rule votes_kept_trans)
qed

lemma votes_kept_send_self:
  assumes "send m r = Inr r'" and "mType m = MsgVoteResp" and "\<not> mReject m" and "mFrom m = 0"
    and "mTerm m = r_Term r" and "r_Vote r = mTo m" and "mTo m \<noteq> 0"
  shows "votes_kept r r'"
proof -
  have r': "r' = r\<lparr>r_msgsAfterAppend := r_msgsAfterAppend r @ [sent m r]\<rparr>"
    and nz: "mTerm m \<noteq> 0"
    using assms(1,2) by (auto simp: send_unfold durable_type_def vote_type_def split: if_splits)
  have t: "mTerm (sent m r) = mTerm m" by (rule sent_sel) (simp add: vote_type_def assms(2))
  show ?thesis
    by (rule votes_keptI [where ms = "[]" and as = "[sent m r]"])
      (use assms nz in \<open>simp_all add: r' new_grants_def t del: MsgVoteResp_def\<close>)
qed

lemma votes_kept_send_other:
  assumes "send m r = Inr r'" and "\<not> grant m"
  shows "votes_kept r r'" and "r_id r' = r_id r \<and> r_Term r' = r_Term r \<and> r_Vote r' = r_Vote r"
proof -
  have g: "\<not> grant (sent m r)" using assms(2) by (simp add: grant_def)
  consider "r' = r\<lparr>r_msgsAfterAppend := r_msgsAfterAppend r @ [sent m r]\<rparr>"
    | "r' = r\<lparr>r_msgs := r_msgs r @ [sent m r]\<rparr>"
    using assms(1) unfolding send_unfold by (auto split: if_splits)
  then show "votes_kept r r'"
  proof cases
    case 1
    show ?thesis by (rule votes_keptI [where ms = "[]" and as = "[sent m r]"])
      (simp_all add: 1 g new_grants_single)
  next
    case 2
    show ?thesis by (rule votes_keptI [where ms = "[sent m r]" and as = "[]"])
      (simp_all add: 2 g new_grants_single)
  qed
  show "r_id r' = r_id r \<and> r_Term r' = r_Term r \<and> r_Vote r' = r_Vote r"
    using assms(1) unfolding send_unfold by (auto split: if_splits)
qed

section \<open>Elections\<close>

lemma campaign_to_votes:
  assumes "campaign_to t term voteMsg i r = Inr r'" and "voteMsg \<in> {MsgVote, MsgPreVote}"
    and "voteMsg = MsgVote \<Longrightarrow> term = r_Term r \<and> r_Vote r = r_id r" and "r_id r \<noteq> 0"
  shows "votes_kept r r' \<and> r_id r' = r_id r \<and> r_Term r' = r_Term r \<and> r_Vote r' = r_Vote r"
proof (cases "i = r_id r")
  case True
  then obtain ty where ty: "voteRespMsgType voteMsg = Inr ty"
      and s: "send (set_mTo i (set_mTerm term (set_mType ty zeroMessage))) r = Inr r'"
    using assms(1) by (auto simp: campaign_to_def)
  have id: "r_id r' = r_id r \<and> r_Term r' = r_Term r \<and> r_Vote r' = r_Vote r"
    using s unfolding send_unfold by (auto split: if_splits)
  show ?thesis
  proof (cases "voteMsg = MsgVote")
    case vote: True
    then have "ty = MsgVoteResp" using ty by (simp add: voteRespMsgType_def)
    then have "votes_kept r r'"
      using assms(3) [OF vote] assms(4) True by (intro votes_kept_send_self [OF s]) simp_all
    then show ?thesis using id by blast
  next
    case False
    then have "voteMsg = MsgPreVote" using assms(2) by blast
    then have "ty = MsgPreVoteResp" using ty by (simp add: voteRespMsgType_def)
    then have "votes_kept r r'" by (intro votes_kept_send_other [OF s]) (simp add: grant_def)
    then show ?thesis using id by blast
  qed
next
  case False
  let ?ctx = "if t = campaignTransfer then Some (string_bytes (campaign_name t)) else None"
  obtain li lt where s: "send (set_mTo i (set_mTerm term (set_mType voteMsg (set_mIndex li (set_mLogTerm lt
      (set_mContext ?ctx zeroMessage)))))) r = Inr r'"
    using assms(1) False unfolding campaign_to_def Let_def by (auto simp only: if_False go_bind_eq_Inr)
  have "\<not> grant (set_mTo i (set_mTerm term (set_mType voteMsg (set_mIndex li (set_mLogTerm lt
      (set_mContext ?ctx zeroMessage))))))"
    using assms(2) by (auto simp: grant_def)
  then show ?thesis using votes_kept_send_other [OF s] by blast
qed

lemma campaign_votes:
  assumes "campaign t r = Inr r'" and "r_Term r \<noteq> - 1" and "r_id r \<noteq> 0"
  shows "votes_kept r r'"
proof -
  obtain s voteMsg tm where s: "votes_kept r s" "r_id s = r_id r" "voteMsg \<in> {MsgVote, MsgPreVote}"
      "voteMsg = MsgVote \<Longrightarrow> tm = r_Term s \<and> r_Vote s = r_id s"
    and loop: "go_foldl (\<lambda>r i. campaign_to t tm voteMsg i r) s
           (sorted_list_of_fset (Joint_IDs (cfgVoters (trkConfig (r_trk s))))) = Inr r'"
  proof (cases "t = campaignPreElection")
    case True
    with assms(1) obtain s where b: "becomePreCandidate r = Inr s" and
      l: "go_foldl (\<lambda>r i. campaign_to t (r_Term s + 1) MsgPreVote i r) s
           (sorted_list_of_fset (Joint_IDs (cfgVoters (trkConfig (r_trk s))))) = Inr r'"
      unfolding campaign_def by (auto simp del: MsgPreVote_def)
    show ?thesis
      by (rule that [OF _ _ _ _ l]) (use becomePreCandidate_votes [OF b] in simp_all)
  next
    case False
    with assms(1) obtain s where b: "becomeCandidate r = Inr s" and
      l: "go_foldl (\<lambda>r i. campaign_to t (r_Term s) MsgVote i r) s
           (sorted_list_of_fset (Joint_IDs (cfgVoters (trkConfig (r_trk s))))) = Inr r'"
      unfolding campaign_def by (auto simp del: MsgVote_def)
    show ?thesis
      by (rule that [OF _ _ _ _ l]) (use becomeCandidate_votes [OF b assms(2)] in simp_all)
  qed
  let ?P = "\<lambda>x. votes_kept s x \<and> r_id x = r_id s \<and> r_Term x = r_Term s \<and> r_Vote x = r_Vote s"
  have "?P r'"
  proof (rule go_foldl_invariant [where P = ?P, OF loop])
    fix x i y
    assume x: "?P x" and y: "campaign_to t tm voteMsg i x = Inr y"
    have "votes_kept x y \<and> r_id y = r_id x \<and> r_Term y = r_Term x \<and> r_Vote y = r_Vote x"
      by (rule campaign_to_votes [OF y s(3)]) (use s x assms(3) in auto)
    then show "?P y" using x votes_kept_trans by auto
  qed simp
  then show ?thesis using s(1) votes_kept_trans by blast
qed

lemma hup_votes: "\<lbrakk>hup t r = Inr r'; r_Term r \<noteq> - 1; r_id r \<noteq> 0\<rbrakk> \<Longrightarrow> votes_kept r r'"
  by (auto simp: hup_def split: if_splits dest: campaign_votes)

lemma handle_vote_votes:
  assumes "handle_vote m r = Inr r'" and "mType m = MsgVote \<Longrightarrow> mTerm m = 0 \<or> mTerm m = r_Term r"
    and "mType m = MsgVote \<Longrightarrow> mFrom m \<noteq> 0" and "mType m = MsgVote \<or> mType m = MsgPreVote"
  shows "votes_kept r r'"
proof -
  let ?can = "r_Vote r = mFrom m \<or> r_Vote r = 0 \<and> r_lead r = 0 \<or> mType m = MsgPreVote \<and> mTerm m > r_Term r"
  from assms(1) obtain g ty where g: "(if ?can then isUpToDate (mIndex m) (mLogTerm m) (r_raftLog r) else Inr False) = Inr g"
    and ty: "voteRespMsgType (mType m) = Inr ty"
    and rest: "(if g then
          go_bind (send (set_mTo (mFrom m) (set_mTerm (mTerm m) (set_mType ty zeroMessage))) r) (\<lambda>r.
            Inr (if mType m = MsgVote then r\<lparr>r_electionElapsed := 0, r_Vote := mFrom m\<rparr> else r))
        else send (set_mTo (mFrom m) (set_mTerm (r_Term r) (set_mType ty (set_mReject True zeroMessage)))) r)
      = Inr r'"
    unfolding handle_vote_def Let_def go_bind_eq_Inr by blast
  show ?thesis
  proof (cases "g \<and> mType m = MsgVote")
    case True
    then obtain s where s: "send (set_mTo (mFrom m) (set_mTerm (mTerm m) (set_mType ty zeroMessage))) r = Inr s"
        and r': "r' = s\<lparr>r_electionElapsed := 0, r_Vote := mFrom m\<rparr>"
      using rest by auto
    have "?can" using g True by (auto split: if_splits)
    then have can: "r_Vote r = mFrom m \<or> r_Vote r = 0" using True by auto
    have ty': "ty = MsgVoteResp" using ty True by (simp add: voteRespMsgType_def)
    have s': "s = r\<lparr>r_msgsAfterAppend := r_msgsAfterAppend r @
        [sent (set_mTo (mFrom m) (set_mTerm (mTerm m) (set_mType ty zeroMessage))) r]\<rparr>"
      and nz: "mTerm m \<noteq> 0"
      using s ty' unfolding send_unfold by (auto simp: vote_type_def durable_type_def split: if_splits)
    then have t: "mTerm m = r_Term r" using assms(2) True by blast
    show ?thesis
      by (rule votes_keptI [where ms = "[]" and
          as = "[sent (set_mTo (mFrom m) (set_mTerm (mTerm m) (set_mType ty zeroMessage))) r]"])
        (use can t nz assms(3) True in \<open>auto simp: r' s' ty' new_grants_def vote_type_def\<close>)
  next
    case False
    then obtain x where x: "send x r = Inr r'" "\<not> grant x"
    proof (cases g)
      case True
      then have "mType m = MsgPreVote" using False assms(4) by blast
      then have "ty = MsgPreVoteResp" using ty by (simp add: voteRespMsgType_def)
      then show ?thesis
        using rest True False
        by (intro that [of "set_mTo (mFrom m) (set_mTerm (mTerm m) (set_mType ty zeroMessage))"])
          (auto simp: grant_def)
    next
      case False
      then show ?thesis using rest by (intro that) (auto simp: grant_def)
    qed
    then show ?thesis by (rule votes_kept_send_other(1))
  qed
qed

section \<open>Message handlers\<close>

lemma votes_kept_log: "votes_kept (r\<lparr>r_raftLog := l\<rparr>) r' \<Longrightarrow> votes_kept r r'"
  by (erule votes_kept_fields') simp_all

lemma handleAppendEntries_sends:
  assumes a: "handleAppendEntries m r = Inr r'"
  obtains l x where "send x (r\<lparr>r_raftLog := l\<rparr>) = Inr r'" "mType x = MsgAppResp" "l = r_raftLog r \<or>
    (\<exists>res. maybeAppend (mIndex m) (mLogTerm m) (mCommit m) (mEntries m) (r_raftLog r) = Inr (l, res))"
proof (cases "mIndex m < l_committed (r_raftLog r)")
  case True
  then have "send (set_mTo (mFrom m) (set_mType MsgAppResp (set_mIndex (l_committed (r_raftLog r)) zeroMessage))) r
      = Inr r'" using a by (simp add: handleAppendEntries_def)
  then show ?thesis
    by (intro that [of "set_mTo (mFrom m) (set_mType MsgAppResp (set_mIndex (l_committed (r_raftLog r)) zeroMessage))"
        "r_raftLog r"]) simp_all
next
  case False
  from a False obtain l res where m: "maybeAppend (mIndex m) (mLogTerm m) (mCommit m) (mEntries m) (r_raftLog r) = Inr (l, res)"
      and rest: "(case res of
            Some mlastIndex \<Rightarrow>
              send (set_mTo (mFrom m) (set_mType MsgAppResp (set_mIndex mlastIndex zeroMessage))) (r\<lparr>r_raftLog := l\<rparr>)
          | None \<Rightarrow>
              go_bind (log_term (mIndex m) l) (\<lambda>t.
              go_bind (zeroTermOnOutOfBounds t) (\<lambda>_.
              go_bind (log_lastIndex l) (\<lambda>li.
              go_bind (findConflictByTerm (min (mIndex m) li) (mLogTerm m) l) (\<lambda>(hintIndex, hintTerm).
                send (set_mTo (mFrom m) (set_mType MsgAppResp (set_mIndex (mIndex m) (set_mReject True
                  (set_mRejectHint hintIndex (set_mLogTerm hintTerm zeroMessage)))))) (r\<lparr>r_raftLog := l\<rparr>)))))) = Inr r'"
    unfolding handleAppendEntries_def Let_def by (auto simp only: if_False go_bind_eq_Inr split: prod.splits)
  have "\<exists>x. send x (r\<lparr>r_raftLog := l\<rparr>) = Inr r' \<and> mType x = MsgAppResp"
  proof (cases res)
    case None
    then obtain hi ht where "send (set_mTo (mFrom m) (set_mType MsgAppResp (set_mIndex (mIndex m)
        (set_mReject True (set_mRejectHint hi (set_mLogTerm ht zeroMessage)))))) (r\<lparr>r_raftLog := l\<rparr>) = Inr r'"
      using rest by (auto simp only: option.case go_bind_eq_Inr split: prod.splits)
    then show ?thesis by (intro exI conjI, assumption) simp
  next
    case (Some i)
    then have "send (set_mTo (mFrom m) (set_mType MsgAppResp (set_mIndex i zeroMessage))) (r\<lparr>r_raftLog := l\<rparr>) = Inr r'"
      using rest by simp
    then show ?thesis by (intro exI conjI, assumption) simp
  qed
  then obtain x where s: "send x (r\<lparr>r_raftLog := l\<rparr>) = Inr r'" and x: "mType x = MsgAppResp" by blast
  have "\<exists>res. maybeAppend (mIndex m) (mLogTerm m) (mCommit m) (mEntries m) (r_raftLog r) = Inr (l, res)"
    using m by (rule exI)
  then show ?thesis by (rule that [OF s x disjI2])
qed

lemma handleAppendEntries_quiet:
  assumes "handleAppendEntries m r = Inr r'"
  obtains l where "quiet (r\<lparr>r_raftLog := l\<rparr>) r'" "l = r_raftLog r \<or>
    (\<exists>res. maybeAppend (mIndex m) (mLogTerm m) (mCommit m) (mEntries m) (r_raftLog r) = Inr (l, res))"
  using assms
proof (rule handleAppendEntries_sends)
  fix l x assume s: "send x (r\<lparr>r_raftLog := l\<rparr>) = Inr r'" and x: "mType x = MsgAppResp"
    and l: "l = r_raftLog r \<or>
      (\<exists>res. maybeAppend (mIndex m) (mLogTerm m) (mCommit m) (mEntries m) (r_raftLog r) = Inr (l, res))"
  have "quiet (r\<lparr>r_raftLog := l\<rparr>) r'" by (rule quiet_send [OF s]) (simp_all add: x)
  then show ?thesis using l by (rule that)
qed

lemma handleAppendEntries_votes: "handleAppendEntries m r = Inr r' \<Longrightarrow> votes_kept r r'"
  by (erule handleAppendEntries_quiet) (erule votes_kept_log [OF votes_kept_quiet])

lemma stepFollower_votes:
  assumes "stepFollower m r = Inr (r', e)"
  shows "votes_kept r r'"
proof (cases "mType m = MsgVoteResp")
  case True
  then show ?thesis using assms by (simp add: stepFollower_def ok_step_def)
next
  case False
  have fwd: "votes_kept r s" if "send (set_mTo t m) r = Inr s" for s t
    using False by (intro votes_kept_send_other(1) [OF that]) (simp add: grant_def)
  have upd: "votes_kept r s" if "votes_kept (r\<lparr>r_electionElapsed := 0, r_lead := x\<rparr>) s" for s x
    using that by (rule votes_kept_fields') simp_all
  show ?thesis
    using assms unfolding stepFollower_def ok_step_def
    by (auto split: if_splits intro: fwd upd votes_kept_same
        dest!: handleAppendEntries_votes votes_kept_quiet [OF quiet_handleHeartbeat]
        simp del: MsgVoteResp_def)
qed

text \<open>What a candidate does with a message: nothing, or it follows the sender, or it counts the response to its
  own kind of campaign and acts on the result.\<close>

abbreviation with_vote :: "Message \<Rightarrow> raft \<Rightarrow> raft" where
  "with_vote m r \<equiv> r\<lparr>r_trk := RecordVote (mFrom m) (\<not> mReject m) (r_trk r)\<rparr>"

abbreviation response_type :: "raft \<Rightarrow> int32" where
  "response_type r \<equiv> (if r_state r = StatePreCandidate then MsgPreVoteResp else MsgVoteResp)"

lemma RecordVote_config [simp]: "trkConfig (RecordVote i v p) = trkConfig p"
  by (simp add: RecordVote_def split: option.split)

lemma stepCandidate_cases:
  assumes a: "stepCandidate m r = Inr (r', e)"
  obtains (ignored) "r' = r"
    | (down) "mType m = MsgApp \<or> mType m = MsgSnap" "becomeFollower (mTerm m) (mFrom m) r = Inr r'"
    | (beat) s where "mType m = MsgHeartbeat" "becomeFollower (mTerm m) (mFrom m) r = Inr s" "handleHeartbeat m s = Inr r'"
    | (pending) "mType m = response_type r" "r' = with_vote m r"
    | (lost) "mType m = response_type r" "becomeFollower (r_Term r) 0 (with_vote m r) = Inr r'"
    | (again) "mType m = response_type r" "r_state r = StatePreCandidate"
        "campaign campaignElection (with_vote m r) = Inr r'"
    | (won) u where "mType m = response_type r" "r_state r \<noteq> StatePreCandidate"
        "Joint_VoteResult (cfgVoters (trkConfig (r_trk r))) (trkVotes (RecordVote (mFrom m) (\<not> mReject m) (r_trk r))) = VoteWon"
        "becomeLeader (with_vote m r) = Inr u" "bcastAppend u = Inr r'"
proof (cases "mType m = response_type r")
  case False
  have "r' = r \<or> (mType m = MsgApp \<or> mType m = MsgSnap) \<and> becomeFollower (mTerm m) (mFrom m) r = Inr r' \<or>
      (\<exists>s. mType m = MsgHeartbeat \<and> becomeFollower (mTerm m) (mFrom m) r = Inr s \<and> handleHeartbeat m s = Inr r')"
    using a False unfolding stepCandidate_def Let_def ok_step_def
    by (auto split: if_splits simp del: MsgPreVoteResp_def MsgVoteResp_def MsgApp_def MsgSnap_def MsgHeartbeat_def)
  then show ?thesis using ignored down beat by blast
next
  case True
  let ?r = "with_vote m r"
  have p: "poll (mFrom m) (mType m) (\<not> mReject m) r = (?r, TallyVotes (r_trk ?r))" by (simp add: poll_def Let_def)
  have ne: "mType m \<noteq> MsgProp" "mType m \<noteq> MsgApp" "mType m \<noteq> MsgHeartbeat" "mType m \<noteq> MsgSnap" using True by auto
  obtain gr rj res where tv: "TallyVotes (r_trk ?r) = (gr, rj, res)" by (cases "TallyVotes (r_trk ?r)")
  have res: "res = Joint_VoteResult (cfgVoters (trkConfig (r_trk r))) (trkVotes (RecordVote (mFrom m) (\<not> mReject m) (r_trk r)))"
    using TallyVotes_result [of "r_trk ?r"] unfolding tv by simp
  have c: "(case res of
           VoteWon \<Rightarrow>
             if r_state r = StatePreCandidate then go_bind (campaign campaignElection ?r) ok_step
             else go_bind (becomeLeader ?r) (\<lambda>r. go_bind (bcastAppend r) ok_step)
         | VoteLost \<Rightarrow> go_bind (becomeFollower (r_Term ?r) 0 ?r) ok_step
         | VotePending \<Rightarrow> ok_step ?r) = Inr (r', e)"
    using a unfolding stepCandidate_def Let_def p tv using ne True by (cases res) simp_all
  show ?thesis
  proof (cases res)
    case VotePending
    then show ?thesis using c pending [OF True] by (simp add: ok_step_def)
  next
    case VoteLost
    then show ?thesis using c lost [OF True] by (auto simp: ok_step_def)
  next
    case VoteWon
    then show ?thesis using c again [OF True] won [OF True] res by (auto simp: ok_step_def split: if_splits)
  qed
qed

lemma stepCandidate_votes:
  assumes a: "stepCandidate m r = Inr (r', e)" and id: "r_id r \<noteq> 0" and t: "r_Term r \<noteq> - 1"
    and m: "mType m \<in> {MsgApp, MsgHeartbeat, MsgSnap} \<Longrightarrow> r_Term r \<le> mTerm m"
  shows "votes_kept r r'"
proof -
  have start: "votes_kept r s" if "votes_kept (with_vote m r) s" for s
    using that by (rule votes_kept_fields') simp_all
  show ?thesis
    using a
  proof (cases rule: stepCandidate_cases)
    case down
    then show ?thesis using m by (intro becomeFollower_votes) auto
  next
    case (beat s)
    have "votes_kept r s" using m beat(1) by (intro becomeFollower_votes [OF beat(2)]) auto
    then show ?thesis using votes_kept_quiet [OF quiet_handleHeartbeat [OF beat(3)]] votes_kept_trans by blast
  next
    case lost
    have "votes_kept (with_vote m r) r'" using lost(2) by (rule becomeFollower_votes) simp
    then show ?thesis by (rule start)
  next
    case again
    have "votes_kept (with_vote m r) r'" using id t by (intro campaign_votes [OF again(3)]) simp_all
    then show ?thesis by (rule start)
  next
    case (won u)
    have "votes_kept (with_vote m r) r'"
      using becomeLeader_votes [OF won(4)] votes_kept_quiet [OF quiet_bcastAppend [OF won(5)]] by (rule votes_kept_trans)
    then show ?thesis by (rule start)
  qed (auto intro: votes_kept_same)
qed

lemma filter_changes_votes: "filter_changes es i r = Inr (r', es') \<Longrightarrow>
   r_msgs r' = r_msgs r \<and> r_msgsAfterAppend r' = r_msgsAfterAppend r \<and> r_id r' = r_id r \<and>
   r_Term r' = r_Term r \<and> r_Vote r' = r_Vote r \<and> r_raftLog r' = r_raftLog r \<and> r_trk r' = r_trk r \<and>
   r_state r' = r_state r \<and> r_step r' = r_step r \<and> r_tick r' = r_tick r \<and> r_lead r' = r_lead r \<and>
   r_electionTimeout r' = r_electionTimeout r \<and> length es' = length es"
proof (induction es i r arbitrary: r' es' rule: filter_changes.induct)
  case (2 e es i r)
  from "2.prems" obtain cc x where cc: "proposed_change e = Inr cc"
    and x: "(case cc of
          None \<Rightarrow> Inr (r, e)
        | Some cc \<Rightarrow>
            if refuse_change cc r then Inr (r, zeroEntry\<lparr>eType := EntryNormal\<rparr>)
            else go_bind (log_lastIndex (r_raftLog r)) (\<lambda>li.
              Inr (r\<lparr>r_pendingConfIndex := li + of_nat i + 1\<rparr>, e))) = Inr x"
    and rest: "(case x of (r, e) \<Rightarrow> go_bind (filter_changes es (Suc i) r) (\<lambda>(r, es). Inr (r, e # es)))
      = Inr (r', es')"
    by (auto simp only: filter_changes.simps go_bind_eq_Inr)
  obtain s e1 where xs: "x = (s, e1)" by (cases x)
  have s: "\<exists>pc. s = r\<lparr>r_pendingConfIndex := pc\<rparr>"
    using x unfolding xs
    by (cases cc) (auto split: if_splits intro: exI [of _ "r_pendingConfIndex r"])
  from rest xs obtain es1 where f: "filter_changes es (Suc i) s = Inr (r', es1)" "es' = e1 # es1"
    by auto
  show ?case using "2.IH" [OF cc x xs [symmetric] f(1)] s f(2) by auto
qed simp

text \<open>An acknowledgement either only updates the peer's progress or goes on to commit and send.\<close>

lemma leader_ack_cases:
  assumes "leader_ack m pr r = Inr r'"
  obtains (only) p where "r' = set_progress (mFrom m) p r"
    | (more) p s b u q where "raft_maybeCommit (set_progress (mFrom m) p r) = Inr (s, b)"
      "(if b then bcastAppend s else if q then sendAppend (mFrom m) s else Inr s) = Inr u"
      "(if r_id u \<noteq> mFrom m then send_loop (mFrom m) u else Inr u) = Inr r'"
proof -
  let ?pr = "pr\<lparr>RecentActive := True\<rparr>"
  obtain p0 upd where mu: "MaybeUpdate (mIndex m) ?pr = (p0, upd)" by (cases "MaybeUpdate (mIndex m) ?pr")
  show ?thesis
  proof (cases "mReject m \<or> \<not> (upd \<or> Match p0 = mIndex m \<and> State p0 = StateProbe)")
    case True
    then show ?thesis using assms that(1) by (auto simp: leader_ack_def Let_def mu split: if_splits)
  next
    case False
    then have "(mReject m) = False" "(upd \<or> Match p0 = mIndex m \<and> State p0 = StateProbe) = True" by blast+
    with assms show ?thesis
      unfolding leader_ack_def Let_def mu
      by (auto simp only: if_False if_True prod.case go_bind_eq_Inr split: prod.splits intro: that(2))
  qed
qed

lemma leader_ack_votes:
  assumes "leader_ack m pr r = Inr r'" and "progress_of (mFrom m) r = Some pr0"
  shows "votes_kept r r'"
  using assms(1)
proof (cases rule: leader_ack_cases)
  case (only p)
  then show ?thesis using votes_kept_quiet [OF quiet_set_progress [OF assms(2)]] by simp
next
  case (more p s b u q)
  have "votes_kept r (set_progress (mFrom m) p r)"
    by (rule votes_kept_quiet [OF quiet_set_progress [OF assms(2)]])
  then have "votes_kept r s"
    using more(1) by (auto simp: raft_maybeCommit_def Let_def intro: votes_kept_fields)
  moreover have "quiet s u"
    using more(2) by (auto split: if_splits dest: quiet_bcastAppend quiet_sendAppend)
  moreover have "quiet u r'" using more(3) by (auto split: if_splits dest: quiet_send_loop)
  ultimately show ?thesis using votes_kept_quiet votes_kept_trans by blast
qed

text \<open>A leader drops a proposal, or appends its entries and then may broadcast them.\<close>

lemma leader_propose_appends:
  assumes "leader_propose m r = Inr (r', e)"
  obtains (dropped) "r' = r"
    | (appended) s es u b where "filter_changes (mEntries m) 0 r = Inr (s, es)" "appendEntry es s = Inr (u, b)"
        "r' = u \<or> bcastAppend u = Inr r'"
proof (cases "progress_of (r_id r) r = None \<or> r_leadTransferee r \<noteq> 0")
  case True
  then show ?thesis using assms dropped by (auto simp: leader_propose_def split: if_splits)
next
  case False
  then have "(length (mEntries m) = 0) = False" "(progress_of (r_id r) r = None) = False"
      "(r_leadTransferee r \<noteq> 0) = False"
    using assms by (auto simp: leader_propose_def split: if_splits)
  with assms obtain x y where x: "filter_changes (mEntries m) 0 r = Inr x" "appendEntry (snd x) (fst x) = Inr y"
      and rest: "(if \<not> snd y then Inr (fst y, Some ErrProposalDropped)
        else go_bind (bcastAppend (fst y)) ok_step) = Inr (r', e)"
    unfolding leader_propose_def by (simp only: if_False go_bind_eq_Inr split_def) blast
  have "r' = fst y \<or> bcastAppend (fst y) = Inr r'" using rest by (auto simp: ok_step_def split: if_splits)
  then show ?thesis using x by (intro appended [of "fst x" "snd x" "fst y" "snd y"]) simp_all
qed

lemma leader_propose_votes:
  assumes "leader_propose m r = Inr (r', e)"
  shows "votes_kept r r'"
  using assms
proof (cases rule: leader_propose_appends)
  case (appended s es u b)
  have "votes_kept r s" using filter_changes_votes [OF appended(1)] by (intro votes_kept_same) simp_all
  moreover have "votes_kept s u" using appended(2) by (rule appendEntry_votes)
  moreover have "quiet u r'" using appended(3) quiet_bcastAppend by auto
  ultimately show ?thesis using votes_kept_quiet votes_kept_trans by blast
qed simp

lemma stepLeader_votes: "stepLeader m r = Inr (r', e) \<Longrightarrow> votes_kept r r'"
  unfolding stepLeader_def ok_step_def
  by (auto split: if_splits option.splits
      dest: quiet_bcastHeartbeat leader_propose_votes leader_ack_votes intro: votes_kept_quiet)

section \<open>Step, the clock and configuration changes\<close>

text \<open>What is assumed of a message: an append, heartbeat or snapshot carries its leader's term, a
  vote request its candidate, and terms stay below the last representable one.\<close>

definition wire_ok :: "Message \<Rightarrow> bool" where
  "wire_ok m \<longleftrightarrow> (mType m \<in> {MsgApp, MsgHeartbeat, MsgSnap} \<longrightarrow> mTerm m \<noteq> 0) \<and>
     (mType m = MsgVote \<longrightarrow> mFrom m \<noteq> 0) \<and> mTerm m \<noteq> - 1"

lemma dispatch_votes:
  assumes a: "dispatch m r = Inr (r', e)" and w: "wire_ok m" and id: "r_id r \<noteq> 0" and t: "r_Term r \<noteq> - 1"
    and fresh: "mTerm m = 0 \<or> mTerm m = r_Term r \<or> mType m = MsgPreVote \<or> mType m = MsgPreVoteResp"
  shows "votes_kept r r'"
proof -
  have v: "votes_kept r s" if "handle_vote m r = Inr s" "mType m = MsgVote \<or> mType m = MsgPreVote" for s
    by (rule handle_vote_votes [OF that(1) _ _ that(2)]) (use fresh w in \<open>auto simp: wire_ok_def\<close>)
  have c: "votes_kept r s" if "stepCandidate m r = Inr (s, e')" for s e'
    by (rule stepCandidate_votes [OF that id t]) (use fresh w in \<open>auto simp: wire_ok_def\<close>)
  have "votes_kept r s" if "call_step m r = Inr (s, e')" for s e'
    using that unfolding call_step_def
    by (cases "r_step r") (auto dest: stepFollower_votes stepLeader_votes c)
  then show ?thesis
    using a id t unfolding dispatch_def ok_step_def
    by (auto split: if_splits dest: hup_votes v)
qed

lemma check_term_votes:
  assumes a: "check_term m r = Inr (s, b)" and w: "wire_ok m" and t: "r_Term r \<noteq> - 1"
  shows "votes_kept r s \<and> r_Term s \<noteq> - 1 \<and>
    (b \<longrightarrow> mTerm m = 0 \<or> mTerm m = r_Term s \<or> mType m = MsgPreVote \<or> mType m = MsgPreVoteResp)"
proof -
  consider (local) "mTerm m = 0" | (higher) "mTerm m \<noteq> 0" "r_Term r < mTerm m"
    | (lower) "mTerm m \<noteq> 0" "mTerm m < r_Term r" | (same) "mTerm m = r_Term r" "mTerm m \<noteq> 0" by fastforce
  then show ?thesis
  proof cases
    case local then show ?thesis using a t by (simp add: check_term_def)
  next
    case same then show ?thesis using a t by (simp add: check_term_def)
  next
    case higher
    have bf: "votes_kept r s \<and> r_Term s = mTerm m" if "becomeFollower (mTerm m) lead r = Inr s" for lead
      using becomeFollower_votes [OF that] higher(2) by simp
    from higher have "s = r \<and> (mType m = MsgPreVote \<or> mType m = MsgPreVoteResp) \<or>
        (\<exists>lead. becomeFollower (mTerm m) lead r = Inr s)"
      using a unfolding check_term_def by (auto split: if_splits)
    then show ?thesis
    proof (elim disjE exE)
      fix lead assume "becomeFollower (mTerm m) lead r = Inr s"
      then show ?thesis using bf w by (simp add: wire_ok_def)
    qed (use t in auto)
  next
    case lower
    have snd: "votes_kept r s \<and> r_Term s = r_Term r" if "send x r = Inr s" "\<not> grant x" for x
      using votes_kept_send_other [OF that] by blast
    from lower have "s = r \<and> \<not> b \<or> (\<exists>x. send x r = Inr s \<and> \<not> grant x \<and> \<not> b)"
      using a unfolding check_term_def by (auto split: if_splits simp: grant_def; fastforce simp: grant_def)
    then show ?thesis using snd t by auto
  qed
qed

lemma Step_votes:
  assumes "Step m r = Inr (r', e)" and "wire_ok m" and "r_id r \<noteq> 0" and "r_Term r \<noteq> - 1"
  shows "votes_kept r r'"
proof -
  from assms(1) obtain s b where s: "check_term m r = Inr (s, b)"
      and d: "(if b then dispatch m s else ok_step s) = Inr (r', e)"
    by (auto simp: Step_def)
  note c = check_term_votes [OF s assms(2,4)]
  have "r_id s \<noteq> 0" using c assms(3) by (simp add: votes_kept_def)
  then have "votes_kept s r'"
    using d c by (cases b) (auto simp: ok_step_def intro: dispatch_votes [OF _ assms(2)])
  then show ?thesis using c votes_kept_trans by blast
qed

lemma Step_CheckQuorum:
  assumes "Step (set_mFrom i (set_mType MsgCheckQuorum zeroMessage)) r = Inr (r', e)"
  shows "r' = r"
  using assms
  by (cases "r_step r")
    (auto simp: Step_def check_term_def dispatch_def call_step_def stepFollower_def stepLeader_def
      stepCandidate_def ok_step_def Let_def split: if_splits)

text \<open>A tick counts, and then either nothing more happens or the node steps a message of its own.\<close>

lemma tick_cases:
  assumes "tick r = Inr r'"
  obtains (still) x y where "r' = r\<lparr>r_heartbeatElapsed := x, r_electionElapsed := y\<rparr>"
    | (steps) x y ty e where
        "Step (set_mFrom (r_id r) (set_mType ty zeroMessage)) (r\<lparr>r_heartbeatElapsed := x, r_electionElapsed := y\<rparr>) = Inr (r', e)"
        "ty = MsgHup \<or> ty = MsgBeat"
proof -
  have one: "r\<lparr>r_electionElapsed := y\<rparr> = r\<lparr>r_heartbeatElapsed := r_heartbeatElapsed r, r_electionElapsed := y\<rparr>" for y
    by (cases r) simp
  have both: "r\<lparr>r_heartbeatElapsed := x, r_electionElapsed := y\<rparr>\<lparr>r_electionElapsed := z\<rparr> =
      r\<lparr>r_heartbeatElapsed := x, r_electionElapsed := z\<rparr>"
    "r\<lparr>r_heartbeatElapsed := x, r_electionElapsed := y\<rparr>\<lparr>r_heartbeatElapsed := z\<rparr> =
      r\<lparr>r_heartbeatElapsed := z, r_electionElapsed := y\<rparr>" for x y z
    by simp_all
  show ?thesis
  proof (cases "r_tick r")
    case tickNil
    then show ?thesis using assms by (simp add: tick_def)
  next
    case tickElectionF
    define y where "y = int64 (r_electionElapsed r + 1)"
    have "r' = r\<lparr>r_electionElapsed := y\<rparr> \<or>
        (\<exists>e. Step (set_mFrom (r_id r) (set_mType MsgHup zeroMessage)) (r\<lparr>r_electionElapsed := 0\<rparr>) = Inr (r', e))"
      using assms tickElectionF unfolding y_def
      by (auto simp: tick_def tickElection_def Let_def simp del: MsgHup_def split: if_splits)
    then show ?thesis
    proof
      assume "r' = r\<lparr>r_electionElapsed := y\<rparr>"
      then show ?thesis unfolding one by (rule still)
    next
      assume "\<exists>e. Step (set_mFrom (r_id r) (set_mType MsgHup zeroMessage)) (r\<lparr>r_electionElapsed := 0\<rparr>) = Inr (r', e)"
      then show ?thesis unfolding one [of 0] by (elim exE) (rule steps, assumption, simp)
    qed
  next
    case tickHeartbeatF
    define h where "h = int64 (r_heartbeatElapsed r + 1)"
    define s0 where "s0 = r\<lparr>r_heartbeatElapsed := h, r_electionElapsed := int64 (r_electionElapsed r + 1)\<rparr>"
    have "tickHeartbeat r = Inr r'" using assms tickHeartbeatF by (simp add: tick_def)
    then obtain s where mid: "(if r_electionElapsed s0 \<ge> r_electionTimeout s0 then
             (if r_checkQuorum (s0\<lparr>r_electionElapsed := 0\<rparr>) then
                go_bind (Step (set_mFrom (r_id (s0\<lparr>r_electionElapsed := 0\<rparr>)) (set_mType MsgCheckQuorum zeroMessage))
                  (s0\<lparr>r_electionElapsed := 0\<rparr>)) (\<lambda>(r, _). Inr r)
              else Inr (s0\<lparr>r_electionElapsed := 0\<rparr>))
           else Inr s0) = Inr s" and rest: "(if r_state s \<noteq> StateLeader then Inr s
            else if r_heartbeatElapsed s \<ge> r_heartbeatTimeout s then
              go_bind (Step (set_mFrom (r_id s) (set_mType MsgBeat zeroMessage)) (s\<lparr>r_heartbeatElapsed := 0\<rparr>))
                (\<lambda>(r, _). Inr r)
            else Inr s) = Inr r'"
      unfolding tickHeartbeat_def Let_def h_def [symmetric] s0_def [symmetric] go_bind_eq_Inr
      by (elim exE conjE) (rule that)
    have "s = s0 \<or> s = s0\<lparr>r_electionElapsed := 0\<rparr>"
      using mid by (auto split: if_splits simp del: MsgCheckQuorum_def dest!: Step_CheckQuorum)
    then obtain y where s: "s = r\<lparr>r_heartbeatElapsed := h, r_electionElapsed := y\<rparr>"
      unfolding s0_def both by blast
    have id: "r_id s = r_id r" by (simp add: s)
    have "r' = s \<or> (\<exists>e. Step (set_mFrom (r_id r) (set_mType MsgBeat zeroMessage)) (s\<lparr>r_heartbeatElapsed := 0\<rparr>) = Inr (r', e))"
      using rest unfolding id by (auto split: if_splits simp del: MsgBeat_def)
    then show ?thesis
    proof
      assume "r' = s"
      then show ?thesis unfolding s by (rule still)
    next
      assume "\<exists>e. Step (set_mFrom (r_id r) (set_mType MsgBeat zeroMessage)) (s\<lparr>r_heartbeatElapsed := 0\<rparr>) = Inr (r', e)"
      then show ?thesis unfolding s both by (elim exE) (rule steps, assumption, simp)
    qed
  qed
qed

lemma tick_votes:
  assumes "tick r = Inr r'" and "r_id r \<noteq> 0" and "r_Term r \<noteq> - 1"
  shows "votes_kept r r'"
  using assms(1)
proof (cases rule: tick_cases)
  case (still x y)
  then show ?thesis by (simp add: votes_kept_same)
next
  case (steps x y ty e)
  have "wire_ok (set_mFrom (r_id r) (set_mType ty zeroMessage))" using steps(2) by (auto simp: wire_ok_def)
  from Step_votes [OF steps(1) this] show ?thesis
    by (rule votes_kept_fields') (use assms(2,3) in simp_all)
qed

text \<open>Adopting a configuration: the fields are set, and then nothing happens, or the node steps
  down, or the leader commits and sends.\<close>

definition adopt :: "Config \<Rightarrow> ProgressMap \<Rightarrow> raft \<Rightarrow> raft" where
  "adopt cfg trk r = r\<lparr>r_trk := (r_trk r)\<lparr>trkConfig := cfg, trkProgress := trk\<rparr>,
      r_isLearner := (case fmlookup trk (r_id r) of None \<Rightarrow> False | Some pr \<Rightarrow> IsLearner pr)\<rparr>"

lemma adopt_sel [simp]:
  "r_id (adopt cfg trk r) = r_id r" "r_Term (adopt cfg trk r) = r_Term r" "r_Vote (adopt cfg trk r) = r_Vote r"
  "r_msgs (adopt cfg trk r) = r_msgs r" "r_msgsAfterAppend (adopt cfg trk r) = r_msgsAfterAppend r"
  "r_state (adopt cfg trk r) = r_state r" "r_raftLog (adopt cfg trk r) = r_raftLog r"
  "trkConfig (r_trk (adopt cfg trk r)) = cfg" "trkProgress (r_trk (adopt cfg trk r)) = trk"
  "r_step (adopt cfg trk r) = r_step r" "r_tick (adopt cfg trk r) = r_tick r" "r_lead (adopt cfg trk r) = r_lead r"
  "r_electionTimeout (adopt cfg trk r) = r_electionTimeout r"
  by (simp_all add: adopt_def)

lemma switchToConfig_unfold:
  "switchToConfig cfg trk r =
     (let s = adopt cfg trk r; cs = Tracker_ConfState (r_trk s) in
      if (fmlookup trk (r_id r) = None \<or> r_isLearner s) \<and> r_state r = StateLeader then
        (if r_stepDownOnRemoval r then go_bind (becomeFollower (r_Term r) 0 s) (\<lambda>r. Inr (r, cs))
         else Inr (s, cs))
      else if r_state r \<noteq> StateLeader \<or> length (Voters cs) = 0 then Inr (s, cs)
      else
        go_bind (raft_maybeCommit s) (\<lambda>(r, committed).
        go_bind
          (if committed then bcastAppend r
           else Visit (\<lambda>i r. if i = r_id r then Inr r
               else go_bind (maybeSendAppend i False r) (\<lambda>(r, _). Inr r)) (trkProgress (r_trk r)) r)
          (\<lambda>r. Inr (r, cs))))"
  unfolding switchToConfig_def Let_def adopt_def progress_of_def by simp

lemma switchToConfig_cases:
  assumes "switchToConfig cfg trk r = Inr (r', cs)"
  obtains (same) "r' = adopt cfg trk r"
    | (down) "becomeFollower (r_Term r) 0 (adopt cfg trk r) = Inr r'"
    | (lead) l b where "maybeCommit (Tracker_Committed (r_trk (adopt cfg trk r))) (r_Term r) (r_raftLog r) = Inr (l, b)"
      "quiet ((adopt cfg trk r)\<lparr>r_raftLog := l\<rparr>) r'"
proof -
  define s where "s = adopt cfg trk r"
  have q: "quiet u r'" if "Visit (\<lambda>i r. if i = r_id r then Inr r
               else go_bind (maybeSendAppend i False r) (\<lambda>(r, _). Inr r)) (trkProgress (r_trk u)) u = Inr r'" for u
    using that by (rule quiet_Visit) (auto split: if_splits dest: quiet_maybeSendAppend)
  have "r' = s \<or> becomeFollower (r_Term r) 0 s = Inr r' \<or>
      (\<exists>u c. raft_maybeCommit s = Inr (u, c) \<and> quiet u r')"
    using assms unfolding switchToConfig_unfold Let_def s_def [symmetric]
    by (auto split: if_splits dest: q quiet_bcastAppend)
  then show ?thesis
    using that unfolding s_def [symmetric]
    by (auto simp: raft_maybeCommit_def Let_def s_def)
qed

lemma switchToConfig_votes:
  assumes "switchToConfig cfg trk r = Inr (r', cs)"
  shows "votes_kept r r'"
proof -
  have "votes_kept (adopt cfg trk r) r'"
    using assms
  proof (cases rule: switchToConfig_cases)
    case down
    then show ?thesis by (rule becomeFollower_votes) simp
  next
    case (lead l b)
    then show ?thesis using votes_kept_log [OF votes_kept_quiet] by blast
  qed simp
  then show ?thesis by (rule votes_kept_fields') simp_all
qed

lemma applyConfChange_switch:
  assumes "applyConfChange cc r = Inr (r', cs)"
  obtains cfg trk where "switchToConfig cfg trk r = Inr (r', cs)"
proof -
  from assms obtain res :: "change_err + change_state" where "(case res of
         Inl e \<Rightarrow> Inl (ExplicitPanic ''configuration change error'')
       | Inr (cfg, trk) \<Rightarrow> switchToConfig cfg trk r) = Inr (r', cs)"
    unfolding applyConfChange_def go_bind_eq_Inr by (elim exE conjE) (rule that)
  then show ?thesis using that by (cases res) auto
qed

lemma applyConfChange_votes: "applyConfChange cc r = Inr (r', cs) \<Longrightarrow> votes_kept r r'"
  by (erule applyConfChange_switch) (rule switchToConfig_votes)

section \<open>Properties\<close>

text \<open>C32: a node votes at most once per term: no message of the form that nodes send makes its term go back or
  changes a vote cast in the current term (\<open>wire_ok\<close>: an append, heartbeat or snapshot message has a term, a
  vote request a sender, and the term is not the last of 64 bits; the receiving side does not check it,
  see \<open>zero_term_append_resets\<close>); every vote it grants is for a term it has reached, names the candidate it
  has recorded when that is still its term, and two grants for one term name the same candidate.\<close>

theorem one_vote_per_term:
  assumes "Step m r = Inr (r', e)" and "wire_ok m" and "r_id r \<noteq> 0" and "r_Term r \<noteq> - 1"
  shows "r_Term r \<le> r_Term r' \<and> (r_Term r' = r_Term r \<and> r_Vote r \<noteq> 0 \<longrightarrow> r_Vote r' = r_Vote r) \<and>
    (\<exists>as. r_msgsAfterAppend r' = r_msgsAfterAppend r @ as \<and>
       (\<forall>x \<in> set as. mType x = MsgVoteResp \<and> \<not> mReject x \<longrightarrow>
          r_Term r \<le> mTerm x \<and> mTerm x \<le> r_Term r' \<and> (mTerm x = r_Term r' \<longrightarrow> r_Vote r' = mTo x) \<and>
          (mTerm x = r_Term r \<and> r_Vote r \<noteq> 0 \<longrightarrow> mTo x = r_Vote r)) \<and>
       (\<forall>x \<in> set as. \<forall>y \<in> set as. mType x = MsgVoteResp \<and> \<not> mReject x \<and> mType y = MsgVoteResp \<and>
          \<not> mReject y \<and> mTerm x = mTerm y \<longrightarrow> mTo x = mTo y))"
proof -
  have k: "votes_kept r r'" by (rule Step_votes [OF assms])
  then obtain as where as: "r_msgsAfterAppend r' = r_msgsAfterAppend r @ as" "new_grants r r' (set as)"
    unfolding votes_kept_def by blast
  have "r_Term r \<le> r_Term r' \<and> (r_Term r' = r_Term r \<and> r_Vote r \<noteq> 0 \<longrightarrow> r_Vote r' = r_Vote r)"
    using k unfolding votes_kept_def by iprover
  moreover have "\<forall>x \<in> set as. mType x = MsgVoteResp \<and> \<not> mReject x \<longrightarrow>
          r_Term r \<le> mTerm x \<and> mTerm x \<le> r_Term r' \<and> (mTerm x = r_Term r' \<longrightarrow> r_Vote r' = mTo x) \<and>
          (mTerm x = r_Term r \<and> r_Vote r \<noteq> 0 \<longrightarrow> mTo x = r_Vote r)"
    using as(2) unfolding new_grants_def grant_def by blast
  moreover have "\<forall>x \<in> set as. \<forall>y \<in> set as. mType x = MsgVoteResp \<and> \<not> mReject x \<and> mType y = MsgVoteResp \<and>
          \<not> mReject y \<and> mTerm x = mTerm y \<longrightarrow> mTo x = mTo y"
    using as(2) unfolding new_grants_def grant_def by blast
  ultimately show ?thesis using as(1) by blast
qed

theorem one_vote_per_term_witness:
  "r_Term (solo_raft 1) \<le> r_Term solo_candidate \<and> r_Vote solo_candidate = 1"
  using one_vote_per_term [OF solo_campaign]
  by (simp add: wire_ok_def) (simp add: solo_candidate_def solo_raft_def)

text \<open>The condition is needed: \<open>Step\<close> treats a message of term 0 as a local one, and a candidate that gets an
  append message of that kind goes back to term 0 and forgets its vote.\<close>

theorem zero_term_append_resets:
  "case Step (set_mType MsgApp zeroMessage) solo_candidate of
     Inl _ \<Rightarrow> False
   | Inr (r, _) \<Rightarrow> r_Term solo_candidate = 2 \<and> r_Vote solo_candidate = 1 \<and> r_Term r = 0 \<and> r_Vote r = 0"
  by code_simp

end
