(* ===== verification/Raft_Roles.thy ===== *)
theory Raft_Roles
  imports Raft_Votes
begin

text \<open>
  The roles of a node.  \<open>role_ok\<close> says that the installed \<open>step\<close> and \<open>tick\<close> functions are those of the
  current role.  \<open>step_role m r r'\<close> is what processing the message \<open>m\<close> can do to the role: only a
  candidate becomes leader, in its own term and with a vote count that wins the configuration, and
  only a vote response for its term adds to that count.
\<close>

section \<open>Operations that keep the role\<close>

definition calm :: "raft \<Rightarrow> raft \<Rightarrow> bool" where
  "calm r r' \<longleftrightarrow> r_id r' = r_id r \<and> r_Term r' = r_Term r \<and> r_state r' = r_state r \<and> r_step r' = r_step r \<and>
     r_tick r' = r_tick r \<and> trkConfig (r_trk r') = trkConfig (r_trk r) \<and>
     trkVotes (r_trk r') = trkVotes (r_trk r)"

lemma calm_refl [simp]: "calm r r"
  by (simp add: calm_def)

lemma calm_trans: "\<lbrakk>calm r s; calm s t\<rbrakk> \<Longrightarrow> calm r t"
  by (simp add: calm_def)

lemma calm_quiet: "quiet r r' \<Longrightarrow> calm r r'"
  by (simp add: calm_def quiet_sel)

lemma calm_fields [simp]:
  "calm r (s\<lparr>r_raftLog := l\<rparr>) = calm r s" "calm (r\<lparr>r_raftLog := l\<rparr>) s = calm r s"
  "calm (r\<lparr>r_electionElapsed := x\<rparr>) s = calm r s" "calm (r\<lparr>r_lead := y\<rparr>) s = calm r s"
  "calm (r\<lparr>r_heartbeatElapsed := x\<rparr>) s = calm r s" "calm r (s\<lparr>r_readStates := rs\<rparr>) = calm r s"
  "calm (r\<lparr>r_pendingConfIndex := y\<rparr>) s = calm r s" "calm (set_progress i pr r) s = calm r s"
  "calm r (set_progress i pr s) = calm r s" "calm r (s\<lparr>r_electionElapsed := x, r_Vote := y\<rparr>) = calm r s"
  by (auto simp: calm_def set_progress_def)

lemma calm_send: "send m r = Inr r' \<Longrightarrow> calm r r'"
  unfolding send_unfold by (auto simp: calm_def split: if_splits)

lemma calm_appendEntry: "appendEntry es r = Inr (r', b) \<Longrightarrow> calm r r'"
proof -
  assume "appendEntry es r = Inr (r', b)"
  then obtain l x where "send x (r\<lparr>r_raftLog := l\<rparr>) = Inr r'" by (auto simp: appendEntry_def)
  from calm_send [OF this] show ?thesis by simp
qed

lemma calm_handleAppendEntries: "handleAppendEntries m r = Inr r' \<Longrightarrow> calm r r'"
  by (erule handleAppendEntries_quiet) (drule calm_quiet, simp)

lemma calm_handle_vote: "handle_vote m r = Inr r' \<Longrightarrow> calm r r'"
  unfolding handle_vote_def Let_def by (auto split: if_splits dest!: calm_send)

lemma calm_stepFollower: "stepFollower m r = Inr (r', e) \<Longrightarrow> calm r r'"
  unfolding stepFollower_def ok_step_def
  by (auto split: if_splits
      dest!: calm_send calm_handleAppendEntries calm_quiet [OF quiet_handleHeartbeat])

lemma calm_raft_maybeCommit: "raft_maybeCommit r = Inr (r', b) \<Longrightarrow> calm r r'"
  by (auto simp: raft_maybeCommit_def Let_def)

lemma calm_leader_ack:
  assumes "leader_ack m pr r = Inr r'"
  shows "calm r r'"
  using assms
proof (cases rule: leader_ack_cases)
  case (more p s b u q)
  have "calm r s" using calm_raft_maybeCommit [OF more(1)] by simp
  moreover have "calm s u"
    using more(2) by (auto split: if_splits dest: calm_quiet [OF quiet_bcastAppend] calm_quiet [OF quiet_sendAppend])
  moreover have "calm u r'" using more(3) by (auto split: if_splits dest: calm_quiet [OF quiet_send_loop])
  ultimately show ?thesis using calm_trans by blast
qed simp

lemma calm_leader_propose:
  assumes "leader_propose m r = Inr (r', e)"
  shows "calm r r'"
  using assms
proof (cases rule: leader_propose_appends)
  case (appended s es u b)
  have "calm r s" using filter_changes_votes [OF appended(1)] by (simp add: calm_def)
  moreover have "calm u r'" using appended(3) calm_quiet [OF quiet_bcastAppend] by auto
  ultimately show ?thesis using calm_appendEntry [OF appended(2)] calm_trans by blast
qed simp

lemma calm_stepLeader: "stepLeader m r = Inr (r', e) \<Longrightarrow> calm r r'"
  unfolding stepLeader_def ok_step_def
  by (auto split: if_splits option.splits
      dest: calm_quiet [OF quiet_bcastHeartbeat] calm_leader_propose calm_leader_ack)

section \<open>Changes of role\<close>

definition role_ok :: "raft \<Rightarrow> bool" where
  "role_ok r \<longleftrightarrow>
     (r_step r, r_tick r) =
       (case r_state r of
          StateFollower \<Rightarrow> (stepFollowerF, tickElectionF)
        | StateLeader \<Rightarrow> (stepLeaderF, tickHeartbeatF)
        | _ \<Rightarrow> (stepCandidateF, tickElectionF))"

lemma role_ok_calm: "calm r r' \<Longrightarrow> role_ok r' = role_ok r"
  by (simp add: calm_def role_ok_def)

text \<open>\<open>same_conf\<close>: neither the identity nor the configuration changed.\<close>

definition same_conf :: "raft \<Rightarrow> raft \<Rightarrow> bool" where
  "same_conf r r' \<longleftrightarrow> r_id r' = r_id r \<and> trkConfig (r_trk r') = trkConfig (r_trk r)"

lemma becomeFollower_role:
  assumes "becomeFollower t lead r = Inr r'"
  shows "role_ok r'" "r_state r' = StateFollower" "r_Term r' = t" "same_conf r r'"
proof -
  from assms obtain s where s: "raft_reset t (r\<lparr>r_step := stepFollowerF\<rparr>) = Inr s"
      and r': "r' = s\<lparr>r_tick := tickElectionF, r_lead := lead, r_state := StateFollower\<rparr>"
    by (auto simp: becomeFollower_def)
  note sel = reset_rel_sel [OF raft_reset_rel [OF s]]
  show "role_ok r'" "r_state r' = StateFollower" "r_Term r' = t" "same_conf r r'"
    by (simp_all add: r' role_ok_def same_conf_def sel)
qed

lemma becomeCandidate_role:
  assumes "becomeCandidate r = Inr r'"
  shows "role_ok r'" "r_state r' = StateCandidate" "same_conf r r'" "trkVotes (r_trk r') = fmempty"
proof -
  from assms obtain s where s: "raft_reset (r_Term r + 1) (r\<lparr>r_step := stepCandidateF\<rparr>) = Inr s"
      and r': "r' = s\<lparr>r_tick := tickElectionF, r_Vote := r_id s, r_state := StateCandidate\<rparr>"
    by (auto simp: becomeCandidate_def split: if_splits)
  note sel = reset_rel_sel [OF raft_reset_rel [OF s]]
  show "role_ok r'" "r_state r' = StateCandidate" "same_conf r r'" "trkVotes (r_trk r') = fmempty"
    by (simp_all add: r' role_ok_def same_conf_def sel)
qed

lemma becomePreCandidate_role:
  assumes "becomePreCandidate r = Inr r'"
  shows "role_ok r'" "r_state r' = StatePreCandidate" "same_conf r r'"
  using assms by (auto simp: becomePreCandidate_def role_ok_def same_conf_def ResetVotes_def split: if_splits)

lemma becomeLeader_role:
  assumes "becomeLeader r = Inr r'"
  shows "role_ok r'" "r_state r' = StateLeader" "r_Term r' = r_Term r" "same_conf r r'"
proof -
  from assms obtain s where s: "raft_reset (r_Term r) (r\<lparr>r_step := stepLeaderF\<rparr>) = Inr s"
    by (auto simp: becomeLeader_def split: if_splits)
  let ?s = "s\<lparr>r_tick := tickHeartbeatF, r_lead := r_id s, r_state := StateLeader\<rparr>"
  obtain pr li where "progress_of (r_id ?s) ?s = Some pr" and
    app: "appendEntry [zeroEntry]
      ((set_progress (r_id ?s) ((BecomeReplicate pr)\<lparr>RecentActive := True\<rparr>) ?s)\<lparr>r_pendingConfIndex := li\<rparr>) =
      Inr (r', True)"
    using assms s by (auto simp: becomeLeader_def Let_def split: if_splits option.splits bool.splits)
  have "calm ?s r'" using calm_appendEntry [OF app] by simp
  then have c: "r_id r' = r_id s" "r_Term r' = r_Term s" "r_state r' = StateLeader" "r_step r' = r_step s"
      "r_tick r' = tickHeartbeatF" "trkConfig (r_trk r') = trkConfig (r_trk s)"
    by (simp_all add: calm_def)
  note sel = reset_rel_sel [OF raft_reset_rel [OF s]]
  show "role_ok r'" "r_state r' = StateLeader" "r_Term r' = r_Term r" "same_conf r r'"
    by (simp_all add: role_ok_def same_conf_def c sel)
qed

lemma calm_campaign_to: "campaign_to t tm ty i r = Inr r' \<Longrightarrow> calm r r'"
  by (auto simp: campaign_to_def Let_def split: if_splits dest: calm_send)

lemma campaign_role:
  assumes "campaign t r = Inr r'"
  shows "role_ok r' \<and> same_conf r r' \<and>
    (r_state r' = StatePreCandidate \<or> r_state r' = StateCandidate \<and> trkVotes (r_trk r') = fmempty)"
proof -
  from assms obtain s tm ty where
      s: "(if t = campaignPreElection then becomePreCandidate r else becomeCandidate r) = Inr s"
      and loop: "go_foldl (\<lambda>r i. campaign_to t tm ty i r) s
        (sorted_list_of_fset (Joint_IDs (cfgVoters (trkConfig (r_trk s))))) = Inr r'"
    unfolding campaign_def by (cases "t = campaignPreElection") auto
  have "calm s r'" by (rule go_foldl_invariant [where P = "calm s", OF loop])
    (auto intro: calm_trans dest: calm_campaign_to)
  moreover have "role_ok s \<and> same_conf r s \<and>
      (r_state s = StatePreCandidate \<or> r_state s = StateCandidate \<and> trkVotes (r_trk s) = fmempty)"
    using s by (auto split: if_splits dest: becomePreCandidate_role becomeCandidate_role)
  ultimately show ?thesis by (simp add: role_ok_calm) (simp add: calm_def same_conf_def)
qed

section \<open>The effect of a message\<close>

text \<open>A vote response that a candidate in the state \<open>r\<close> counts, and the count with it.\<close>

definition counted :: "Message \<Rightarrow> raft \<Rightarrow> bool" where
  "counted m r \<longleftrightarrow> r_state r = StateCandidate \<and> mType m = MsgVoteResp \<and> (mTerm m = 0 \<or> mTerm m = r_Term r)"

definition votes_with :: "Message \<Rightarrow> raft \<Rightarrow> votes" where
  "votes_with m r = trkVotes (RecordVote (mFrom m) (\<not> mReject m) (r_trk r))"

definition step_role :: "Message \<Rightarrow> raft \<Rightarrow> raft \<Rightarrow> bool" where
  "step_role m r r' \<longleftrightarrow> role_ok r' \<and> same_conf r r' \<and>
     (r_state r' = StateLeader \<longrightarrow> r_Term r' = r_Term r \<and>
        (r_state r = StateLeader \<or>
         counted m r \<and> Joint_VoteResult (cfgVoters (trkConfig (r_trk r))) (votes_with m r) = VoteWon)) \<and>
     (r_state r' = StateCandidate \<longrightarrow> trkVotes (r_trk r') = fmempty \<or>
        r_state r = StateCandidate \<and> r_Term r' = r_Term r \<and>
          (trkVotes (r_trk r') = trkVotes (r_trk r) \<or> counted m r \<and> trkVotes (r_trk r') = votes_with m r))"

lemma step_role_calm: "\<lbrakk>role_ok r; calm r r'\<rbrakk> \<Longrightarrow> step_role m r r'"
  using role_ok_calm [of r r'] by (auto simp: step_role_def same_conf_def calm_def)

lemma step_role_down:
  "\<lbrakk>role_ok r'; same_conf r r'; r_state r' = StateFollower \<or> r_state r' = StatePreCandidate \<or>
     r_state r' = StateCandidate \<and> trkVotes (r_trk r') = fmempty\<rbrakk> \<Longrightarrow> step_role m r r'"
  by (auto simp: step_role_def)

lemma step_role_calm_after: "\<lbrakk>step_role m r s; calm s r'\<rbrakk> \<Longrightarrow> step_role m r r'"
  using role_ok_calm [of s r'] by (auto simp: step_role_def same_conf_def calm_def)

lemma becomeFollower_step_role: "becomeFollower t lead r = Inr r' \<Longrightarrow> step_role m r r'"
  by (rule step_role_down) (auto dest: becomeFollower_role)

lemma campaign_step_role: "campaign t r = Inr r' \<Longrightarrow> step_role m r r'"
  by (rule step_role_down) (auto dest: campaign_role)

lemma same_conf_votes: "same_conf (r\<lparr>r_trk := RecordVote i v (r_trk r)\<rparr>) r' = same_conf r r'"
  by (simp add: same_conf_def RecordVote_def split: option.split)

lemma stepCandidate_role:
  assumes a: "stepCandidate m r = Inr (r', e)" and ok: "role_ok r"
    and st: "r_state r = StateCandidate \<or> r_state r = StatePreCandidate"
    and fresh: "mType m = MsgVoteResp \<Longrightarrow> mTerm m = 0 \<or> mTerm m = r_Term r"
  shows "step_role m r r'"
  using a
proof (cases rule: stepCandidate_cases)
  case ignored
  then show ?thesis using ok by (simp add: step_role_calm)
next
  case down
  then show ?thesis by (intro becomeFollower_step_role)
next
  case (beat s)
  show ?thesis
    using becomeFollower_step_role [OF beat(2)] calm_quiet [OF quiet_handleHeartbeat [OF beat(3)]]
    by (rule step_role_calm_after)
next
  case pending
  have "role_ok r'" "same_conf r r'" using ok pending(2) by (simp_all add: role_ok_def same_conf_def)
  then show ?thesis
    using pending st fresh by (auto simp: step_role_def counted_def votes_with_def split: if_splits)
next
  case lost
  show ?thesis using becomeFollower_role [OF lost(2)] by (intro step_role_down) (auto simp: same_conf_votes)
next
  case again
  show ?thesis using campaign_role [OF again(3)] by (intro step_role_down) (auto simp: same_conf_votes)
next
  case (won u)
  have "counted m r" using won(1,2) st fresh by (simp add: counted_def)
  then have "step_role m r u"
    using becomeLeader_role [OF won(4)] won(3) unfolding step_role_def by (auto simp: same_conf_votes votes_with_def)
  then show ?thesis using calm_quiet [OF quiet_bcastAppend [OF won(5)]] by (rule step_role_calm_after)
qed

lemma dispatch_role:
  assumes a: "dispatch m r = Inr (r', e)" and ok: "role_ok r"
    and fresh: "mType m = MsgVoteResp \<Longrightarrow> mTerm m = 0 \<or> mTerm m = r_Term r"
  shows "step_role m r r'"
proof -
  have h: "step_role m r s" if "hup t r = Inr s" for s t
    using that ok by (auto simp: hup_def split: if_splits intro: campaign_step_role step_role_calm)
  have v: "step_role m r s" if "handle_vote m r = Inr s" for s
    using step_role_calm [OF ok calm_handle_vote [OF that]] .
  have c: "step_role m r s" if "call_step m r = Inr (s, x)" for s x
  proof (cases "r_state r")
    case StateFollower
    then have "stepFollower m r = Inr (s, x)" using that ok by (simp add: call_step_def role_ok_def)
    then show ?thesis using step_role_calm [OF ok calm_stepFollower] by blast
  next
    case StateLeader
    then have "stepLeader m r = Inr (s, x)" using that ok by (simp add: call_step_def role_ok_def)
    then show ?thesis using step_role_calm [OF ok calm_stepLeader] by blast
  next
    case StateCandidate
    then have "stepCandidate m r = Inr (s, x)" using that ok by (simp add: call_step_def role_ok_def)
    then show ?thesis by (rule stepCandidate_role) (use ok fresh StateCandidate in auto)
  next
    case StatePreCandidate
    then have "stepCandidate m r = Inr (s, x)" using that ok by (simp add: call_step_def role_ok_def)
    then show ?thesis by (rule stepCandidate_role) (use ok fresh StatePreCandidate in auto)
  qed
  show ?thesis
    using a ok unfolding dispatch_def ok_step_def
    by (auto split: if_splits intro: h v c step_role_calm)
qed

lemma check_term_role:
  assumes a: "check_term m r = Inr (s, b)"
  shows "calm r s \<and> (b \<longrightarrow> s = r \<and> (mType m = MsgVoteResp \<longrightarrow> mTerm m = 0 \<or> mTerm m = r_Term r)) \<or>
    role_ok s \<and> same_conf r s \<and> r_state s = StateFollower \<and> r_Term s = mTerm m"
proof -
  consider (local) "mTerm m = 0" | (higher) "mTerm m \<noteq> 0" "r_Term r < mTerm m"
    | (lower) "mTerm m \<noteq> 0" "mTerm m < r_Term r" | (same) "mTerm m = r_Term r" "mTerm m \<noteq> 0" by fastforce
  then show ?thesis
  proof cases
    case local then show ?thesis using a by (simp add: check_term_def)
  next
    case same then show ?thesis using a by (simp add: check_term_def)
  next
    case lower
    then have "\<not> b \<and> (s = r \<or> (\<exists>x. send x r = Inr s))"
      using a unfolding check_term_def by (auto split: if_splits)
    then show ?thesis using calm_send by auto
  next
    case higher
    then have "s = r \<and> (mType m = MsgPreVote \<or> mType m = MsgPreVoteResp) \<or>
        (\<exists>lead. becomeFollower (mTerm m) lead r = Inr s)"
      using a unfolding check_term_def by (auto split: if_splits)
    then show ?thesis
    proof (elim disjE exE)
      fix lead assume "becomeFollower (mTerm m) lead r = Inr s"
      from becomeFollower_role [OF this] show ?thesis by simp
    qed auto
  qed
qed

lemma step_role_after_down:
  assumes "role_ok s" "same_conf r s" "r_state s = StateFollower" "step_role m s r'"
  shows "step_role m r r'"
  using assms unfolding step_role_def by (auto simp: same_conf_def counted_def)

text \<open>The whole of \<open>Step\<close>.\<close>

theorem Step_role:
  assumes "Step m r = Inr (r', e)" and "role_ok r"
  shows "step_role m r r'"
proof -
  from assms(1) obtain s b where s: "check_term m r = Inr (s, b)"
      and d: "(if b then dispatch m s else ok_step s) = Inr (r', e)"
    by (auto simp: Step_def)
  show ?thesis
    using check_term_role [OF s]
  proof
    assume c: "calm r s \<and> (b \<longrightarrow> s = r \<and> (mType m = MsgVoteResp \<longrightarrow> mTerm m = 0 \<or> mTerm m = r_Term r))"
    show ?thesis
    proof (cases b)
      case True
      then show ?thesis using c d assms(2) by (auto intro: dispatch_role)
    next
      case False
      then show ?thesis using c d step_role_calm [OF assms(2)] by (auto simp: ok_step_def)
    qed
  next
    assume c: "role_ok s \<and> same_conf r s \<and> r_state s = StateFollower \<and> r_Term s = mTerm m"
    have "step_role m s r'"
      using d c by (cases b) (auto simp: ok_step_def intro: dispatch_role step_role_calm)
    then show ?thesis using c step_role_after_down by blast
  qed
qed

section \<open>The clock and configuration changes\<close>

lemma step_role_fields:
  assumes "step_role m s r'" and "r_id s = r_id r" "r_Term s = r_Term r" "r_state s = r_state r" "r_trk s = r_trk r"
  shows "step_role m r r'"
  using assms unfolding step_role_def by (simp add: same_conf_def counted_def votes_with_def)

text \<open>A tick acts like a local message that carries no vote.\<close>

lemma tick_role:
  assumes "tick r = Inr r'" and ok: "role_ok r"
  shows "\<exists>m. mType m \<noteq> MsgVoteResp \<and> step_role m r r'"
  using assms(1)
proof (cases rule: tick_cases)
  case (still x y)
  let ?m = zeroMessage
  have "step_role ?m r r'" using ok by (rule step_role_calm) (simp add: still calm_def)
  moreover have "mType ?m \<noteq> MsgVoteResp" by simp
  ultimately show ?thesis by blast
next
  case (steps x y ty e)
  let ?m = "set_mFrom (r_id r) (set_mType ty zeroMessage)"
  have "step_role ?m (r\<lparr>r_heartbeatElapsed := x, r_electionElapsed := y\<rparr>) r'"
    by (rule Step_role [OF steps(1)]) (use ok in \<open>simp add: role_ok_def\<close>)
  then have "step_role ?m r r'" by (rule step_role_fields) simp_all
  moreover have "mType ?m \<noteq> MsgVoteResp" using steps(2) by auto
  ultimately show ?thesis by blast
qed

text \<open>Adopting a configuration keeps the role or makes the node a follower.\<close>

lemma switchToConfig_role:
  assumes "switchToConfig cfg trk r = Inr (r', cs)" and "role_ok r"
  shows "role_ok r'" "r_id r' = r_id r" "r_Term r' = r_Term r" "trkConfig (r_trk r') = cfg"
    "r_state r' = StateFollower \<or> r_state r' = r_state r \<and> trkVotes (r_trk r') = trkVotes (r_trk r)"
proof -
  let ?a = "adopt cfg trk r"
  have ok: "role_ok ?a" using assms(2) by (simp add: role_ok_def)
  have v: "trkVotes (r_trk ?a) = trkVotes (r_trk r)" by (simp add: adopt_def)
  have "role_ok r' \<and> r_id r' = r_id r \<and> r_Term r' = r_Term r \<and> trkConfig (r_trk r') = cfg \<and>
    (r_state r' = StateFollower \<or> r_state r' = r_state r \<and> trkVotes (r_trk r') = trkVotes (r_trk r))"
    using assms(1)
  proof (cases rule: switchToConfig_cases)
    case same
    then show ?thesis using ok v by simp
  next
    case down
    note b = becomeFollower_role [OF down]
    then show ?thesis by (auto simp: same_conf_def)
  next
    case (lead l b)
    then have "calm ?a r'" using calm_quiet by fastforce
    then show ?thesis using role_ok_calm [OF \<open>calm ?a r'\<close>] ok v by (auto simp: calm_def)
  qed
  then show "role_ok r'" "r_id r' = r_id r" "r_Term r' = r_Term r" "trkConfig (r_trk r') = cfg"
    "r_state r' = StateFollower \<or> r_state r' = r_state r \<and> trkVotes (r_trk r') = trkVotes (r_trk r)"
    by blast+
qed

section \<open>Properties\<close>

text \<open>C33: nobody becomes leader without winning: a message that makes a node leader is a vote response for
  its own candidacy, and with that response counted the votes win the configuration.\<close>

theorem leader_needs_votes:
  assumes "Step m r = Inr (r', e)" and "role_ok r" and "r_state r \<noteq> StateLeader" and "r_state r' = StateLeader"
  shows "r_state r = StateCandidate \<and> mType m = MsgVoteResp \<and> (mTerm m = 0 \<or> mTerm m = r_Term r) \<and>
    r_Term r' = r_Term r \<and> role_ok r' \<and>
    Joint_VoteResult (cfgVoters (trkConfig (r_trk r)))
      (trkVotes (RecordVote (mFrom m) (\<not> mReject m) (r_trk r))) = VoteWon"
  using Step_role [OF assms(1,2)] assms(3,4)
  unfolding step_role_def counted_def votes_with_def by iprover

theorem leader_needs_votes_witness:
  "\<exists>r'. Step solo_self_vote solo_stored = Inr (r', None) \<and> role_ok r' \<and> r_Term r' = r_Term solo_stored"
proof -
  obtain r' where r': "Step solo_self_vote solo_stored = Inr (r', None)" "r_state r' = StateLeader"
    using solo_wins by blast
  have "role_ok solo_stored" "r_state solo_stored \<noteq> StateLeader"
    by (simp_all add: solo_stored_def solo_candidate_def role_ok_def solo_raft_def)
  from leader_needs_votes [OF r'(1) this r'(2)] r'(1) show ?thesis by blast
qed

text \<open>C34: a message of an older term changes nothing but the outgoing queues: not the term, the vote, the
  role, the log, the counted votes or the configuration.\<close>

theorem stale_message_ignored:
  assumes "Step m r = Inr (r', e)" and "mTerm m \<noteq> 0" and "mTerm m < r_Term r"
  shows "e = None \<and> (\<exists>ms as. r' = r\<lparr>r_msgs := r_msgs r @ ms, r_msgsAfterAppend := r_msgsAfterAppend r @ as\<rparr>)"
proof -
  from assms(1) obtain s b where s: "check_term m r = Inr (s, b)"
      and d: "(if b then dispatch m s else ok_step s) = Inr (r', e)"
    by (auto simp: Step_def)
  have "\<not> b \<and> (s = r \<or> (\<exists>x. send x r = Inr s))"
    using s assms(2,3) unfolding check_term_def by (auto split: if_splits)
  moreover have "\<exists>ms as. s = r\<lparr>r_msgs := r_msgs r @ ms, r_msgsAfterAppend := r_msgsAfterAppend r @ as\<rparr>"
    if "send x r = Inr s" for x
  proof (cases "durable_type (mType x)")
    case True
    then have "s = r\<lparr>r_msgs := r_msgs r @ [], r_msgsAfterAppend := r_msgsAfterAppend r @ [sent x r]\<rparr>"
      using that by (simp add: send_unfold split: if_splits)
    then show ?thesis by blast
  next
    case False
    then have "s = r\<lparr>r_msgs := r_msgs r @ [sent x r], r_msgsAfterAppend := r_msgsAfterAppend r @ []\<rparr>"
      using that by (simp add: send_unfold split: if_splits)
    then show ?thesis by blast
  qed
  moreover have "\<exists>ms as. r = r\<lparr>r_msgs := r_msgs r @ ms, r_msgsAfterAppend := r_msgsAfterAppend r @ as\<rparr>"
    by (intro exI [of _ "[]"]) simp
  ultimately show ?thesis using d by (auto simp: ok_step_def)
qed

theorem stale_message_ignored_witness:
  "\<exists>ms as. fst (case Step (set_mFrom 2 (set_mTerm 1 (set_mType MsgApp zeroMessage))) solo_candidate of
       Inr x \<Rightarrow> x | Inl _ \<Rightarrow> (solo_raft 1, None)) =
     solo_candidate\<lparr>r_msgs := r_msgs solo_candidate @ ms, r_msgsAfterAppend := r_msgsAfterAppend solo_candidate @ as\<rparr>"
proof -
  let ?m = "set_mFrom 2 (set_mTerm 1 (set_mType MsgApp zeroMessage))"
  obtain r' where r': "Step ?m solo_candidate = Inr (r', None)"
    by (simp add: Step_def check_term_def ok_step_def solo_candidate_def solo_raft_def)
  have "mTerm ?m \<noteq> 0" "mTerm ?m < r_Term solo_candidate" by (simp_all add: solo_candidate_def)
  from stale_message_ignored [OF r' this] show ?thesis using r' by simp
qed

text \<open>C35: a campaign moves to the next term, votes for itself and asks every other voter of both halves of
  the configuration exactly once, in increasing order, for its vote in that term; its own vote
  waits until it is stored.\<close>

theorem campaign_asks_every_voter:
  assumes "campaign campaignElection r = Inr r'" and "r_Term r \<noteq> - 1"
  shows "r_state r' = StateCandidate \<and> r_Term r' = r_Term r + 1 \<and> r_Vote r' = r_id r \<and>
    (let voters = sorted_list_of_fset (Joint_IDs (cfgVoters (trkConfig (r_trk r)))) in
     \<exists>ms. r_msgs r' = r_msgs r @ ms \<and> map mTo ms = filter (\<lambda>i. i \<noteq> r_id r) voters \<and>
       (\<forall>m \<in> set ms. mType m = MsgVote \<and> mTerm m = r_Term r + 1) \<and>
       map mTo (drop (length (r_msgsAfterAppend r)) (r_msgsAfterAppend r')) = filter (\<lambda>i. i = r_id r) voters)"
proof -
  let ?t = "r_Term r + 1"
  from assms(1) obtain s where b: "becomeCandidate r = Inr s" and
    l: "go_foldl (\<lambda>r i. campaign_to campaignElection (r_Term s) MsgVote i r) s
           (sorted_list_of_fset (Joint_IDs (cfgVoters (trkConfig (r_trk s))))) = Inr r'"
    unfolding campaign_def by (auto simp del: MsgVote_def)
  note bv = becomeCandidate_votes [OF b assms(2)] and br = becomeCandidate_role [OF b]
  have q: "r_msgs s = r_msgs r" "r_msgsAfterAppend s = r_msgsAfterAppend r"
  proof -
    from b obtain u where u: "raft_reset ?t (r\<lparr>r_step := stepCandidateF\<rparr>) = Inr u"
        "s = u\<lparr>r_tick := tickElectionF, r_Vote := r_id u, r_state := StateCandidate\<rparr>"
      by (auto simp: becomeCandidate_def split: if_splits)
    show "r_msgs s = r_msgs r" "r_msgsAfterAppend s = r_msgsAfterAppend r"
      using reset_rel_sel [OF raft_reset_rel [OF u(1)]] by (simp_all add: u(2))
  qed
  have loop: "\<exists>ms as. x' = x\<lparr>r_msgs := r_msgs x @ ms, r_msgsAfterAppend := r_msgsAfterAppend x @ as\<rparr> \<and>
      map mTo ms = filter (\<lambda>i. i \<noteq> r_id x) vs \<and> (\<forall>m \<in> set ms. mType m = MsgVote \<and> mTerm m = tm) \<and>
      map mTo as = filter (\<lambda>i. i = r_id x) vs"
    if "go_foldl (\<lambda>r i. campaign_to campaignElection tm MsgVote i r) x vs = Inr x'" for x x' vs tm
    using that
  proof (induction vs arbitrary: x)
    case Nil
    then show ?case by (intro exI [of _ "[]"]) simp
  next
    case (Cons v vs)
    then obtain y where y: "campaign_to campaignElection tm MsgVote v x = Inr y"
      and rest: "go_foldl (\<lambda>r i. campaign_to campaignElection tm MsgVote i r) y vs = Inr x'" by auto
    from Cons.IH [OF rest] obtain ms as where ih:
      "x' = y\<lparr>r_msgs := r_msgs y @ ms, r_msgsAfterAppend := r_msgsAfterAppend y @ as\<rparr>"
      "map mTo ms = filter (\<lambda>i. i \<noteq> r_id y) vs" "\<forall>m \<in> set ms. mType m = MsgVote \<and> mTerm m = tm"
      "map mTo as = filter (\<lambda>i. i = r_id y) vs" by blast
    show ?case
    proof (cases "v = r_id x")
      case True
      then obtain m where m: "y = x\<lparr>r_msgsAfterAppend := r_msgsAfterAppend x @ [m]\<rparr>" "mTo m = v"
        using y by (auto simp: campaign_to_def voteRespMsgType_def send_unfold durable_type_def vote_type_def
            split: if_splits)
      then show ?thesis using ih True by (intro exI [of _ ms] exI [of _ "m # as"]) auto
    next
      case False
      then obtain m where m: "y = x\<lparr>r_msgs := r_msgs x @ [m]\<rparr>" "mTo m = v" "mType m = MsgVote" "mTerm m = tm"
        using y by (auto simp: campaign_to_def Let_def send_unfold durable_type_def vote_type_def split: if_splits)
      then show ?thesis using ih False by (intro exI [of _ "m # ms"] exI [of _ as]) auto
    qed
  qed
  have conf: "trkConfig (r_trk s) = trkConfig (r_trk r)" using br by (simp add: same_conf_def)
  from loop [OF l] obtain ms as where
    "r' = s\<lparr>r_msgs := r_msgs s @ ms, r_msgsAfterAppend := r_msgsAfterAppend s @ as\<rparr>"
    "map mTo ms = filter (\<lambda>i. i \<noteq> r_id s) (sorted_list_of_fset (Joint_IDs (cfgVoters (trkConfig (r_trk r)))))"
    "\<forall>m \<in> set ms. mType m = MsgVote \<and> mTerm m = r_Term s"
    "map mTo as = filter (\<lambda>i. i = r_id s) (sorted_list_of_fset (Joint_IDs (cfgVoters (trkConfig (r_trk r)))))"
    unfolding conf by blast
  then show ?thesis using bv br q by (auto simp: Let_def)
qed

theorem campaign_asks_every_voter_witness:
  "\<exists>r'. campaign campaignElection (solo_raft 1) = Inr r' \<and> r_state r' = StateCandidate \<and> r_Term r' = 2"
proof -
  have "campaign campaignElection (solo_raft 1) = Inr solo_candidate"
    using solo_campaign by (simp add: Step_def check_term_def dispatch_def hup_def ok_step_def promotable_def
        progress_of_def solo_raft_def zeroProgress_def)
  from campaign_asks_every_voter [OF this] this show ?thesis by (simp add: solo_raft_def)
qed

end
