(* ===== verification/Raw_Node.thy ===== *)
theory Raw_Node
  imports Raft_Roles
begin

text \<open>
  \<open>src/raft/core/rawnode.go\<close>, \<open>bootstrap.go\<close> and \<open>status.go\<close>: the interface between the raft state
  machine and the loop that drives it.  A \<open>Ready\<close> hands the queued messages and the entries to the
  application, \<open>Advance\<close> steps the responses the node owes itself, \<open>Bootstrap\<close> gives a fresh node its
  initial members.
\<close>

section \<open>The types\<close>

record SoftState =
  Lead :: uint64
  RaftState :: RoleType

definition zeroSoftState :: SoftState where
  "zeroSoftState = \<lparr>Lead = 0, RaftState = StateFollower\<rparr>"

definition SoftState_equal :: "SoftState \<Rightarrow> SoftState \<Rightarrow> bool" where
  "SoftState_equal a b = (Lead a = Lead b \<and> RaftState a = RaftState b)"

record Ready =
  rdSoftState :: "SoftState option"
  rdHardState :: HardState
  rdEntries :: "Entry list"
  rdCommittedEntries :: "Entry list"
  rdMessages :: "Message list"

definition zeroReady :: Ready where
  "zeroReady = \<lparr>rdSoftState = None, rdHardState = zeroHardState, rdEntries = [],
     rdCommittedEntries = [], rdMessages = []\<rparr>"

record RawNode =
  rn_raft :: raft
  rn_async :: bool
  rn_prevSoftSt :: "SoftState option"
  rn_prevHardSt :: HardState
  rn_stepsOnAdvance :: "Message list"

datatype rawnode_err = ErrStepLocalMsg | ErrStepPeerNotFound | ErrStep step_err

section \<open>Operations\<close>

definition NewRawNode :: "(nat \<Rightarrow> nat) \<Rightarrow> RaftConfig \<Rightarrow> RawNode go" where
  "NewRawNode rnd config =
     go_bind (newRaft rnd config) (\<lambda>r.
       Inr \<lparr>rn_raft = r, rn_async = AsyncStorageWrites config, rn_prevSoftSt = None,
            rn_prevHardSt = zeroHardState, rn_stepsOnAdvance = []\<rparr>)"

definition RawNode_Tick :: "RawNode \<Rightarrow> RawNode go" where
  "RawNode_Tick rn = go_bind (tick (rn_raft rn)) (\<lambda>r. Inr (rn\<lparr>rn_raft := r\<rparr>))"

definition HasReady :: "RawNode \<Rightarrow> bool" where
  "HasReady rn =
     (let r = rn_raft rn in
      if length (r_msgs r) > 0 \<or> length (r_msgsAfterAppend r) > 0 then True
      else if length (r_readStates r) \<noteq> 0 then True
      else False)"

text \<open>Only messages and read states make a node ready: neither entries that wait to be stored or applied nor a
  change of the hard or soft state do.\<close>

lemma ready_ignores_log_and_state:
  "HasReady (rn\<lparr>rn_raft := (rn_raft rn)\<lparr>r_raftLog := l, r_Term := t, r_Vote := v, r_lead := i, r_state := s\<rparr>\<rparr>) = HasReady rn"
  by (simp add: HasReady_def Let_def)

text \<open>Whether a response is dropped because its sender has no progress entry; the run loop of
  \<open>node.go\<close> has the same condition.\<close>

definition unknown_response :: "Message \<Rightarrow> raft \<Rightarrow> bool go" where
  "unknown_response m r =
     go_bind (IsResponseMsg (mType m)) (\<lambda>resp.
       Inr (resp \<and> \<not> IsLocalMsgTarget (mFrom m) \<and> progress_of (mFrom m) r = None))"

definition RawNode_Step :: "Message \<Rightarrow> RawNode \<Rightarrow> (RawNode \<times> rawnode_err option) go" where
  "RawNode_Step m rn =
     go_bind (IsLocalMsg (mType m)) (\<lambda>loc.
       if loc \<and> \<not> IsLocalMsgTarget (mFrom m) then Inr (rn, Some ErrStepLocalMsg)
       else go_bind (unknown_response m (rn_raft rn)) (\<lambda>unknown.
         if unknown then Inr (rn, Some ErrStepPeerNotFound)
         else go_bind (Step m (rn_raft rn)) (\<lambda>(r, e). Inr (rn\<lparr>rn_raft := r\<rparr>, map_option ErrStep e))))"

definition applyUnstableEntries :: "RawNode \<Rightarrow> bool" where
  "applyUnstableEntries rn = (\<not> rn_async rn)"

definition readyWithoutAccept :: "RawNode \<Rightarrow> Ready go" where
  "readyWithoutAccept rn =
     (let r = rn_raft rn in
      go_bind (nextUnstableEnts (r_raftLog r)) (\<lambda>ents.
      go_bind (nextCommittedEnts (applyUnstableEntries rn) (r_raftLog r)) (\<lambda>committed.
        let rd = zeroReady\<lparr>rdEntries := ents, rdCommittedEntries := committed, rdMessages := r_msgs r\<rparr> in
        Inr (if rn_async rn then rd
             else rd\<lparr>rdMessages := rdMessages rd @ filter (\<lambda>m. mTo m \<noteq> r_id r) (r_msgsAfterAppend r)\<rparr>))))"

definition acceptReady :: "Ready \<Rightarrow> RawNode \<Rightarrow> RawNode go" where
  "acceptReady rd rn =
     (let r = rn_raft rn in
      go_bind
        (if \<not> rn_async rn then
           (if length (rn_stepsOnAdvance rn) \<noteq> 0
            then Inl (ExplicitPanic ''two accepted Ready structs without call to Advance'')
            else Inr (rn\<lparr>rn_stepsOnAdvance := rn_stepsOnAdvance rn @
              filter (\<lambda>m. mTo m = r_id r) (r_msgsAfterAppend r)\<rparr>))
         else Inr rn)
        (\<lambda>rn. Inr (rn\<lparr>rn_raft := (rn_raft rn)\<lparr>r_msgs := [], r_msgsAfterAppend := []\<rparr>\<rparr>)))"

definition RawNode_Ready :: "RawNode \<Rightarrow> (Ready \<times> RawNode) go" where
  "RawNode_Ready rn = go_bind (readyWithoutAccept rn) (\<lambda>rd. go_bind (acceptReady rd rn) (\<lambda>rn. Inr (rd, rn)))"

text \<open>The errors of the steps are ignored; the slots are cleared and the slice is cut to length 0.\<close>

definition RawNode_Advance :: "RawNode \<Rightarrow> RawNode go" where
  "RawNode_Advance rn =
     (if rn_async rn then Inl (ExplicitPanic ''Advance must not be called when using AsyncStorageWrites'')
      else go_bind (go_foldl (\<lambda>r m. go_bind (Step m r) (\<lambda>(r, _). Inr r)) (rn_raft rn) (rn_stepsOnAdvance rn))
        (\<lambda>r. Inr (rn\<lparr>rn_raft := r, rn_stepsOnAdvance := []\<rparr>)))"

section \<open>Bootstrap\<close>

record Peer =
  peerID :: uint64
  peerContext :: bytes

datatype bootstrap_err = NoPeers | NonemptyStorage

definition bootstrap_entry :: "nat \<Rightarrow> Peer \<Rightarrow> Entry go" where
  "bootstrap_entry i peer =
     go_bind (ConfChange_Marshal (zeroConfChange\<lparr>ccType := ConfChangeAddNode, ccNodeID := peerID peer,
         ccContext := peerContext peer\<rparr>)) (\<lambda>data.
       Inr (zeroEntry\<lparr>eType := EntryConfChange, eTerm := 1, eIndex := of_nat (i + 1), eData := Some data\<rparr>))"

fun bootstrap_entries :: "nat \<Rightarrow> Peer list \<Rightarrow> Entry list go" where
  "bootstrap_entries i [] = Inr []"
| "bootstrap_entries i (p # ps) =
     go_bind (bootstrap_entry i p) (\<lambda>e. go_bind (bootstrap_entries (Suc i) ps) (\<lambda>es. Inr (e # es)))"

definition bootstrap_change :: "Peer \<Rightarrow> ConfChangeV2" where
  "bootstrap_change peer =
     AsV2 (CCV1 (zeroConfChange\<lparr>ccNodeID := peerID peer, ccType := ConfChangeAddNode\<rparr>))"

definition Bootstrap :: "Peer list \<Rightarrow> RawNode \<Rightarrow> (RawNode \<times> bootstrap_err option) go" where
  "Bootstrap peers rn =
     (if length peers = 0 then Inr (rn, Some NoPeers)
      else
        go_bind (Storage_LastIndex (l_storage (r_raftLog (rn_raft rn)))) (\<lambda>(lastIndex, st).
          let r = (rn_raft rn)\<lparr>r_raftLog := (r_raftLog (rn_raft rn))\<lparr>l_storage := st\<rparr>\<rparr>; rn = rn\<lparr>rn_raft := r\<rparr> in
          if lastIndex \<noteq> 0 then Inr (rn, Some NonemptyStorage)
          else
            (let rn = rn\<lparr>rn_prevHardSt := zeroHardState\<rparr> in
             go_bind (becomeFollower 1 0 r) (\<lambda>r.
             go_bind (bootstrap_entries 0 peers) (\<lambda>ents.
             go_bind (log_append ents (r_raftLog r)) (\<lambda>(l, _).
               let r = r\<lparr>r_raftLog := l\<lparr>l_committed := of_nat (length ents)\<rparr>\<rparr> in
               go_bind (go_foldl (\<lambda>r p. go_bind (applyConfChange (bootstrap_change p) r) (\<lambda>(r, _). Inr r)) r peers)
                 (\<lambda>r. Inr (rn\<lparr>rn_raft := r\<rparr>, None))))))))"

section \<open>Status\<close>

record BasicStatus =
  bsID :: uint64
  bsHardState :: HardState
  bsSoftState :: SoftState
  bsApplied :: uint64
  bsLeadTransferee :: uint64

record Status =
  stBasic :: BasicStatus
  stConfig :: Config
  stProgress :: "ProgressMap option"

definition getProgressCopy :: "raft \<Rightarrow> ProgressMap go" where
  "getProgressCopy r =
     Visit (\<lambda>i m. case progress_of i r of None \<Rightarrow> Inl NilDereference | Some p \<Rightarrow> Inr (fmupd i p m))
       (trkProgress (r_trk r)) fmempty"

definition getBasicStatus :: "raft \<Rightarrow> BasicStatus" where
  "getBasicStatus r = \<lparr>bsID = r_id r, bsHardState = zeroHardState, bsSoftState = zeroSoftState,
     bsApplied = l_applied (r_raftLog r), bsLeadTransferee = r_leadTransferee r\<rparr>"

definition getStatus :: "raft \<Rightarrow> Status go" where
  "getStatus r =
     (let b = getBasicStatus r in
      go_bind (if RaftState (bsSoftState b) = StateLeader then go_bind (getProgressCopy r) (\<lambda>p. Inr (Some p))
               else Inr None) (\<lambda>p.
        Inr \<lparr>stBasic = b, stConfig = Config_Clone (trkConfig (r_trk r)), stProgress = p\<rparr>))"

section \<open>Facts\<close>

lemma acceptReady_Inr:
  "acceptReady rd rn = Inr rn' \<longleftrightarrow>
     (rn_async rn \<or> rn_stepsOnAdvance rn = []) \<and>
     rn' = rn\<lparr>rn_raft := (rn_raft rn)\<lparr>r_msgs := [], r_msgsAfterAppend := []\<rparr>,
       rn_stepsOnAdvance := (if rn_async rn then rn_stepsOnAdvance rn
         else filter (\<lambda>m. mTo m = r_id (rn_raft rn)) (r_msgsAfterAppend (rn_raft rn)))\<rparr>"
  by (auto simp: acceptReady_def Let_def)

lemma readyWithoutAccept_messages:
  "readyWithoutAccept rn = Inr rd \<Longrightarrow> rdMessages rd = r_msgs (rn_raft rn) @
     (if rn_async rn then [] else filter (\<lambda>m. mTo m \<noteq> r_id (rn_raft rn)) (r_msgsAfterAppend (rn_raft rn)))"
  by (auto simp: readyWithoutAccept_def Let_def zeroReady_def)

lemma getProgressCopy_total: "getProgressCopy r = Inr (trkProgress (r_trk r))"
proof -
  let ?p = "trkProgress (r_trk r)"
  let ?f = "\<lambda>m i. case progress_of i r of None \<Rightarrow> Inl NilDereference | Some p \<Rightarrow> Inr (fmupd i p m)"
  have "\<exists>m'. go_foldl ?f m xs = Inr m' \<and>
      (\<forall>i. fmlookup m' i = (if i \<in> set xs then fmlookup ?p i else fmlookup m i))"
    if "set xs \<subseteq> fset (fmdom ?p)" for m xs
    using that
  proof (induction xs arbitrary: m)
    case (Cons x xs)
    then obtain y where y: "fmlookup ?p x = Some y" by (auto simp: fmlookup_dom_iff)
    from Cons obtain m' where "go_foldl ?f (fmupd x y m) xs = Inr m'"
        "\<forall>i. fmlookup m' i = (if i \<in> set xs then fmlookup ?p i else fmlookup (fmupd x y m) i)"
      by fastforce
    then show ?case using y by (auto simp: progress_of_def)
  qed simp
  from this [of "Visit_ids ?p" fmempty] obtain m' where m': "getProgressCopy r = Inr m'"
      "\<forall>i. fmlookup m' i = (if i |\<in>| fmdom ?p then fmlookup ?p i else None)"
    by (auto simp: getProgressCopy_def Visit_def)
  have "m' = ?p" using m'(2) by (intro fmap_ext) (simp add: fmdom_notD)
  then show ?thesis using m'(1) by simp
qed

section \<open>A sample\<close>

text \<open>The \<open>Ready\<close> that the sample candidate offers: its entry, also as committed, and no message.\<close>

definition solo_ready :: Ready where
  "solo_ready = zeroReady\<lparr>rdEntries := [solo_entry], rdCommittedEntries := [solo_entry]\<rparr>"

definition solo_rawnode :: "raft \<Rightarrow> RawNode" where
  "solo_rawnode r = \<lparr>rn_raft = r, rn_async = False, rn_prevSoftSt = None,
     rn_prevHardSt = zeroHardState, rn_stepsOnAdvance = []\<rparr>"

lemma solo_offers: "readyWithoutAccept (solo_rawnode solo_candidate) = Inr solo_ready"
  by (simp add: readyWithoutAccept_def nextUnstableEnts_def nextEntries_def nextCommittedEnts_def
    maxAppliableIndex_def applyUnstableEntries_def log_slice_def log_mustCheckOutOfBounds_def log_firstIndex_def
    maybeFirstIndex_def Storage_FirstIndex_def Storage_firstIndex_def unstable_slice_def
    unstable_mustCheckOutOfBounds_def go_slice_def limitSize_def limit_loop.simps [of "[_]"] solo_log
    zeroReady_def solo_ready_def solo_rawnode_def solo_candidate_def solo_raft_def solo_self_vote_def Let_def)
    (simp add: word_le_nat_alt)

section \<open>Properties\<close>

text \<open>Accepting a \<open>Ready\<close> loses no message: the messages queued for others, those to be sent at once
  before those that wait for the entries to be stored, are handed to the application in order,
  the responses the node owes itself wait for \<open>Advance\<close>, and both queues are empty afterwards.\<close>

theorem ready_hands_over_messages:
  assumes "RawNode_Ready rn = Inr (rd, rn')" and "\<not> rn_async rn"
  shows "rdMessages rd = r_msgs (rn_raft rn) @
      filter (\<lambda>m. mTo m \<noteq> r_id (rn_raft rn)) (r_msgsAfterAppend (rn_raft rn)) \<and>
    rn_stepsOnAdvance rn' = filter (\<lambda>m. mTo m = r_id (rn_raft rn)) (r_msgsAfterAppend (rn_raft rn)) \<and>
    r_msgs (rn_raft rn') = [] \<and> r_msgsAfterAppend (rn_raft rn') = []"
  using assms readyWithoutAccept_messages [of rn rd]
  by (auto simp: RawNode_Ready_def acceptReady_Inr)

theorem ready_hands_over_messages_witness:
  "\<exists>rd rn. RawNode_Ready (solo_rawnode solo_candidate) = Inr (rd, rn) \<and>
     rdMessages rd = [] \<and> rn_stepsOnAdvance rn = [solo_self_vote]"
proof -
  obtain rd rn where r: "RawNode_Ready (solo_rawnode solo_candidate) = Inr (rd, rn)"
    using solo_offers by (simp add: RawNode_Ready_def acceptReady_def solo_rawnode_def)
  show ?thesis using ready_hands_over_messages [OF r] r
    by (simp add: solo_rawnode_def solo_candidate_def solo_raft_def solo_self_vote_def)
qed

text \<open>The status never reports the replication progress, not even on the leader: the soft state it
  consults is never filled in.\<close>

theorem status_hides_progress:
  "\<exists>s. getStatus r = Inr s \<and> stProgress s = None \<and> RaftState (bsSoftState (stBasic s)) = StateFollower"
  by (simp add: getStatus_def getBasicStatus_def zeroSoftState_def Let_def)

end
