(* ===== verification/Raft_Commit.thy ===== *)
theory Raft_Commit
  imports Raw_Node
begin

text \<open>
  What every node keeps once it has been set up by \<open>Bootstrap\<close>: its log starts with the bootstrap entries
  and its commit mark stays behind the last of them.  The leader asks for an index that is always 0,
  a follower is only told marks that were there from the start, and \<open>append\<close> refuses to go below the
  mark.  The invariant \<open>settled\<close> also says of every queued message what its receiver relies on.  It is
  shown for each operation of \<open>raft.go\<close>.
\<close>

section \<open>Runs of entries\<close>

text \<open>Consecutive indices from \<open>i\<close> on, as the machine counts them.\<close>

definition indexed :: "uint64 \<Rightarrow> Entry list \<Rightarrow> bool" where
  "indexed i es \<longleftrightarrow> (\<forall>k < length es. eIndex (es ! k) = i + of_nat k)"

lemma indexed_Nil [simp]: "indexed i []"
  by (simp add: indexed_def)

lemma indexed_append: "\<lbrakk>indexed i xs; indexed (i + of_nat (length xs)) ys\<rbrakk> \<Longrightarrow> indexed i (xs @ ys)"
  by (auto simp: indexed_def nth_append)

lemma indexed_take: "indexed i es \<Longrightarrow> indexed i (take n es)"
  by (simp add: indexed_def)

lemma indexed_drop: "indexed i es \<Longrightarrow> indexed (i + of_nat n) (drop n es)"
  by (simp add: indexed_def)

lemma limit_loop_take: "\<exists>k. limit_loop es m limit sz = take k es"
proof (induction es m limit sz rule: limit_loop.induct)
  case (1 es m limit sz)
  show ?case
  proof (cases "limit < length es")
    case True
    then show ?thesis using "1.IH" by (subst limit_loop.simps) (auto simp: Let_def)
  next
    case False
    then show ?thesis by (subst limit_loop.simps) (auto intro: exI [of _ "length es"])
  qed
qed

lemma limitSize_take: "\<exists>k. limitSize es m = take k es"
  using limit_loop_take by (auto simp: limitSize_def intro: exI [of _ 0])

section \<open>The log of a node that was set up\<close>

abbreviation entries_of :: "raftLog \<Rightarrow> Entry list" where
  "entries_of l \<equiv> u_entries (l_unstable l)"

abbreviation ulog :: "raft \<Rightarrow> Entry list" where
  "ulog r \<equiv> entries_of (r_raftLog r)"

definition boot_log :: "Entry list \<Rightarrow> raftLog \<Rightarrow> bool" where
  "boot_log B l \<longleftrightarrow> B \<noteq> [] \<and> length B < 2 ^ 62 \<and> l_committed l = of_nat (length B) \<and>
     u_snapshot (l_unstable l) = None \<and> u_offset (l_unstable l) = 1 \<and>
     indexed 1 (u_entries (l_unstable l)) \<and> take (length B) (u_entries (l_unstable l)) = B"

lemma boot_log_unstable: "boot_log B l \<Longrightarrow> l_unstable l' = l_unstable l \<Longrightarrow> l_committed l' = l_committed l \<Longrightarrow> boot_log B l'"
  by (simp add: boot_log_def)

lemma boot_length: "boot_log B l \<Longrightarrow> length B \<le> length (u_entries (l_unstable l))"
  unfolding boot_log_def by (metis length_take min.cobounded1)

lemma boot_mark:
  assumes "boot_log B l"
  shows "unat (of_nat (length B) :: uint64) = length B" "0 < (of_nat (length B) :: uint64)"
proof -
  show u: "unat (of_nat (length B) :: uint64) = length B"
    using assms by (intro unat_of_nat_small) (simp add: boot_log_def)
  show "0 < (of_nat (length B) :: uint64)"
    using assms u by (simp add: word_less_nat_alt boot_log_def)
qed

lemma boot_last: "boot_log B l \<Longrightarrow> log_lastIndex l = Inr (of_nat (length (u_entries (l_unstable l))))"
  using boot_length [of B l] by (auto simp: log_lastIndex_def maybeLastIndex_def boot_log_def Let_def)

lemma boot_truncate:
  assumes b: "boot_log B l" and es: "es \<noteq> []" "indexed (eIndex (es ! 0)) es"
    and i: "eIndex (es ! 0) = 1 + of_nat (length (u_entries (l_unstable l))) \<or>
      eIndex (es ! 0) \<noteq> 0 \<and> of_nat (length B) \<le> eIndex (es ! 0) - 1"
    and t: "truncateAndAppend es (l_unstable l) = Inr u"
  shows "boot_log B (l\<lparr>l_unstable := u\<rparr>)"
proof -
  let ?u = "l_unstable l"
  let ?i = "eIndex (es ! 0)"
  have off: "u_offset ?u = 1" and ix: "indexed 1 (u_entries ?u)" and pre: "take (length B) (u_entries ?u) = B"
    using b by (simp_all add: boot_log_def)
  have t': "(if ?i = 1 + of_nat (length (u_entries ?u)) then Inr (?u\<lparr>u_entries := u_entries ?u @ es\<rparr>)
       else if ?i \<le> 1 then Inr (?u\<lparr>u_entries := es, u_offset := ?i, u_offsetInProgress := ?i\<rparr>)
       else go_bind (unstable_slice 1 ?i ?u) (\<lambda>keep.
         Inr (?u\<lparr>u_entries := keep @ es, u_offsetInProgress := min (u_offsetInProgress ?u) ?i\<rparr>))) = Inr u"
    using t es(1) unfolding truncateAndAppend_def Let_def off by simp
  show ?thesis
  proof (cases "?i = 1 + of_nat (length (u_entries ?u))")
    case True
    then have u: "u = ?u\<lparr>u_entries := u_entries ?u @ es\<rparr>" using t' by simp
    have "indexed 1 (u_entries ?u @ es)" using ix es(2) True by (intro indexed_append) simp_all
    then show ?thesis using b boot_length [OF b] pre by (simp add: boot_log_def u)
  next
    case False
    then have nz: "?i \<noteq> 0" and le: "of_nat (length B) \<le> ?i - 1" using i by simp_all
    have "\<not> ?i \<le> 1"
    proof
      assume "?i \<le> 1"
      then have "?i = 1" using nz by (simp add: word_le_nat_alt) (metis One_nat_def le_Suc_eq le_zero_eq unat_1 unat_eq_zero word_unat_eq_iff)
      then show False using le boot_mark(2) [OF b] by simp
    qed
    then obtain keep where k: "unstable_slice 1 ?i ?u = Inr keep"
        and u: "u_entries u = keep @ es" "u_offset u = 1" "u_snapshot u = u_snapshot ?u"
      using t' False off by auto
    have keep: "keep = take (unat (?i - 1)) (u_entries ?u)" "unat (?i - 1) \<le> length (u_entries ?u)"
      using k by (auto simp: unstable_slice_def go_slice_def off split: if_splits)
    have "length B \<le> unat (?i - 1)" using le boot_mark(1) [OF b] by (simp add: word_le_nat_alt)
    then have "take (length B) keep = B" using pre keep(1) by (simp add: min_absorb1)
    moreover from this have "length B \<le> length keep" by (metis length_take min.cobounded1)
    moreover have "indexed 1 (keep @ es)"
      using ix es(2) keep by (intro indexed_append) (simp_all add: indexed_take)
    ultimately show ?thesis using b u by (simp add: boot_log_def)
  qed
qed

lemma boot_append:
  assumes b: "boot_log B l" and es: "es = [] \<or> indexed (eIndex (es ! 0)) es"
    and i: "es \<noteq> [] \<Longrightarrow> eIndex (es ! 0) = 1 + of_nat (length (u_entries (l_unstable l))) \<or> eIndex (es ! 0) \<noteq> 0"
    and a: "log_append es l = Inr (l', li)"
  shows "boot_log B l'"
proof (cases "es = []")
  case True
  then show ?thesis using a b by (auto simp: log_append_def)
next
  case False
  then obtain u where u: "truncateAndAppend es (l_unstable l) = Inr u" "l' = l\<lparr>l_unstable := u\<rparr>"
      "\<not> eIndex (es ! 0) - 1 < l_committed l"
    using a by (auto simp: log_append_def Let_def split: if_splits)
  have "of_nat (length B) \<le> eIndex (es ! 0) - 1" using u(3) b by (simp add: boot_log_def not_less)
  then have "boot_log B (l\<lparr>l_unstable := u\<rparr>)" using es i False by (intro boot_truncate [OF b _ _ _ u(1)]) auto
  then show ?thesis by (simp add: u(2))
qed

lemma boot_commitTo: "\<lbrakk>boot_log B l; t \<le> of_nat (length B); commitTo t l = Inr l'\<rbrakk> \<Longrightarrow> l' = l"
  by (auto simp: commitTo_def boot_log_def split: if_splits)

lemma findConflict_index: "findConflict es l = Inr ci \<Longrightarrow> ci = 0 \<or> (\<exists>k < length es. ci = eIndex (es ! k))"
proof (induction es l rule: findConflict.induct)
  case (2 ne es l)
  then obtain m where m: "matchTerm (eIndex ne) (eTerm ne) l = Inr m" by auto
  show ?case
  proof (cases m)
    case True
    then have "findConflict es l = Inr ci" using "2.prems" m by simp
    then have "ci = 0 \<or> (\<exists>k < length es. ci = eIndex (es ! k))" using "2.IH" [OF m True] by simp
    then show ?thesis by (auto intro: exI [of _ "Suc _"])
  next
    case False
    then have "ci = eIndex ne" using "2.prems" m by (auto split: if_splits)
    then show ?thesis by auto
  qed
qed simp

text \<open>\<open>maybeAppend\<close> changes nothing, or appends what follows the first conflict and then raises the mark.\<close>

lemma maybeAppend_cases:
  assumes "maybeAppend index t committed es l = Inr (l', res)"
  obtains (same) "l' = l"
    | (matched) ci l1 where "matchTerm index t l = Inr True" "findConflict es l = Inr ci"
        "commitTo (min committed (index + of_nat (length es))) l1 = Inr l'"
        "ci = 0 \<and> l1 = l \<or> ci \<noteq> 0 \<and> l_committed l < ci \<and>
           (\<exists>li. log_append (drop (unat (ci - (index + 1))) es) l = Inr (l1, li))"
proof -
  obtain m where m: "matchTerm index t l = Inr m" using assms unfolding maybeAppend_def go_bind_eq_Inr by blast
  show ?thesis
  proof (cases m)
    case True
    with assms obtain ci l1 where c: "findConflict es l = Inr ci"
        "commitTo (min committed (index + of_nat (length es))) l1 = Inr l'"
      and w: "(if ci = 0 then Inr l
             else if ci \<le> l_committed l then Inl (ExplicitPanic ''entry conflict with committed entry'')
             else
               (let offset = index + 1 in
                if ci - offset > of_nat (length es) then Inl (ExplicitPanic ''index is out of range'')
                else go_bind (go_slice es (unat (ci - offset)) (length es)) (\<lambda>es.
                  go_bind (log_append es l) (\<lambda>(l, _). Inr l)))) = Inr l1"
      unfolding maybeAppend_def Let_def m
      by (simp only: go_bind_simps not_True_eq_False if_False go_bind_eq_Inr prod.inject sum.inject) blast
    have "matchTerm index t l = Inr True" using m True by simp
    moreover have "ci = 0 \<and> l1 = l \<or> ci \<noteq> 0 \<and> l_committed l < ci \<and>
        (\<exists>li. log_append (drop (unat (ci - (index + 1))) es) l = Inr (l1, li))"
      using w by (auto simp: Let_def go_slice_def not_le split: if_splits)
    ultimately show ?thesis by (rule matched [OF _ c])
  next
    case False
    then show ?thesis using assms same by (simp add: maybeAppend_def m)
  qed
qed

lemma boot_maybeAppend:
  assumes b: "boot_log B l" and es: "indexed (index + 1) es" and c: "committed \<le> of_nat (length B)"
    and a: "maybeAppend index t committed es l = Inr (l', res)"
  shows "boot_log B l'"
  using a
proof (cases rule: maybeAppend_cases)
  case same then show ?thesis using b by simp
next
  case (matched ci l1)
  let ?n = "unat (ci - (index + 1))"
  have "boot_log B l1"
    using matched(4)
  proof
    assume ci: "ci \<noteq> 0 \<and> l_committed l < ci \<and> (\<exists>li. log_append (drop ?n es) l = Inr (l1, li))"
    define x where "x = drop ?n es"
    obtain li where ap: "log_append x l = Inr (l1, li)" using ci by (auto simp: x_def)
    have "eIndex (x ! 0) = ci" if "x \<noteq> []" using that es by (simp add: x_def indexed_def)
    moreover have "indexed ci x" using indexed_drop [OF es, of ?n] by (simp add: x_def)
    ultimately show ?thesis using ci by (intro boot_append [OF b _ _ ap]) auto
  qed (use b in simp)
  moreover from this have "l' = l1" using matched(3) c by (intro boot_commitTo) (auto simp: min_def)
  ultimately show ?thesis by simp
qed

text \<open>What can be read from such a log: consecutive entries of the unstable part.\<close>

lemma boot_slice:
  assumes b: "boot_log B l" and s: "log_slice lo hi mx l = Inr (Inr es)"
  shows "es = [] \<or> lo < hi \<and> 1 \<le> lo \<and> (\<exists>k. es = take k (take (unat (hi - 1) - unat (lo - 1)) (drop (unat (lo - 1)) (u_entries (l_unstable l)))))"
proof -
  from b have off: "u_offset (l_unstable l) = 1" by (simp add: boot_log_def)
  from s obtain err where err: "log_mustCheckOutOfBounds lo hi l = Inr err" and r: "(case err of
         Some e \<Rightarrow> Inr (Inl e)
       | None \<Rightarrow>
           if lo = hi then Inr (Inr [])
           else if lo \<ge> 1 then
             go_bind (unstable_slice lo hi (l_unstable l)) (\<lambda>ents. Inr (Inr (limitSize ents mx)))
           else Inl (ExplicitPanic ''implement me'')) = Inr (Inr es :: storage_err + Entry list)"
    unfolding log_slice_def off Let_def Storage_Entries_def go_bind_eq_Inr by (auto split: option.splits if_splits)
  show ?thesis
  proof (cases "err = None \<and> lo \<noteq> hi \<and> 1 \<le> lo")
    case True
    then obtain x where x: "unstable_slice lo hi (l_unstable l) = Inr x" "es = limitSize x mx"
      using r by auto
    have "lo \<le> hi" "x = take (unat (hi - 1) - unat (lo - 1)) (drop (unat (lo - 1)) (u_entries (l_unstable l)))"
      using x(1) by (auto simp: unstable_slice_def unstable_mustCheckOutOfBounds_def go_slice_def off split: if_splits)
    then show ?thesis using True x(2) limitSize_take [of x mx] by auto
  next
    case False
    then show ?thesis using r by (auto split: option.splits if_splits)
  qed
qed

lemma boot_entries:
  assumes b: "boot_log B l" and s: "log_entries i mx l = Inr (Inr es)"
  shows "indexed i es"
proof -
  have ix: "indexed 1 (u_entries (l_unstable l))" using b by (simp add: boot_log_def)
  from s have "es = [] \<or> (\<exists>hi. log_slice i hi mx l = Inr (Inr es))"
    by (auto simp: log_entries_def split: if_splits)
  then have "es = [] \<or> 1 \<le> i \<and> (\<exists>k n. es = take k (take n (drop (unat (i - 1)) (u_entries (l_unstable l)))))"
    using boot_slice [OF b] by blast
  then show ?thesis using indexed_drop [OF ix, of "unat (i - 1)"] by (auto simp: indexed_take)
qed

text \<open>What is offered as committed is a part of the bootstrap entries.\<close>

definition window :: "Entry list \<Rightarrow> Entry list \<Rightarrow> bool" where
  "window log ents \<longleftrightarrow> (\<exists>a n. ents = take n (drop a log))"

lemma window_Nil [simp]: "window log []"
  unfolding window_def by (intro exI [of _ 0]) simp

lemma boot_committed:
  assumes b: "boot_log B l" and n: "nextCommittedEnts u l = Inr es"
  shows "window B es"
proof (cases "es = []")
  case False
  let ?lo = "l_applying l + 1" and ?hi = "maxAppliableIndex u l + 1"
  obtain mx x where x: "log_slice ?lo ?hi mx l = Inr x"
      "(case x of Inl e \<Rightarrow> Inl (ExplicitPanic ''unexpected error when getting unapplied entries'') | Inr es \<Rightarrow> Inr es) = Inr es"
    using n False by (auto simp: nextCommittedEnts_def Let_def split: if_splits)
  then have "log_slice ?lo ?hi mx l = Inr (Inr es)" by (cases x) simp_all
  from boot_slice [OF b this] False obtain k where
    es: "es = take k (take (unat (?hi - 1) - unat (?lo - 1)) (drop (unat (?lo - 1)) (u_entries (l_unstable l))))"
    by blast
  define a where "a = unat (?lo - 1)"
  have "?hi - 1 \<le> of_nat (length B)" using b by (simp add: maxAppliableIndex_def boot_log_def Let_def)
  then have h: "unat (?hi - 1) \<le> length B" using boot_mark(1) [OF b] by (metis word_le_nat_alt)
  have "drop a B = take (length B - a) (drop a (u_entries (l_unstable l)))"
    using b by (metis boot_log_def drop_take)
  then have "take (unat (?hi - 1) - a) (drop a (u_entries (l_unstable l))) = take (unat (?hi - 1) - a) (drop a B)"
    using h by (simp add: min_absorb1)
  then have "es = take (min k (unat (?hi - 1) - a)) (drop a B)" using es unfolding a_def [symmetric] by simp
  then show ?thesis unfolding window_def by blast
qed simp

section \<open>What an operation may rely on\<close>

text \<open>What a node may rely on in a message: an append or heartbeat carries its leader's term, a vote request
  its candidate, an append consecutive entries and a mark not above \<open>K\<close>, and it is no snapshot.\<close>

definition sound_msg :: "uint64 \<Rightarrow> Message \<Rightarrow> bool" where
  "sound_msg K m \<longleftrightarrow> (mType m \<in> {MsgApp, MsgHeartbeat} \<longrightarrow> mTerm m \<noteq> 0) \<and>
     (mType m = MsgVote \<longrightarrow> mFrom m \<noteq> 0) \<and> mType m \<noteq> MsgSnap \<and>
     (mType m = MsgApp \<longrightarrow> mCommit m \<le> K \<and> indexed (mIndex m + 1) (mEntries m))"

lemma sound_other:
  "mType m \<notin> {MsgApp, MsgHeartbeat, MsgSnap, MsgVote} \<Longrightarrow> sound_msg K m"
  by (auto simp: sound_msg_def)

lemma sound_term: "\<lbrakk>sound_msg K m; mType m \<in> {MsgApp, MsgHeartbeat, MsgSnap}\<rbrakk> \<Longrightarrow> mTerm m \<noteq> 0"
  by (auto simp: sound_msg_def)

text \<open>What an append message carries: the entries from the next index of its receiver on, or none.\<close>

lemma maybeSendAppend_sends:
  assumes "maybeSendAppend to b r = Inr (r', s)"
  obtains (nothing) "r' = r"
    | (append) pr :: Progress and pr' t es where "log_term (Next pr - 1) (r_raftLog r) = Inr (Inr t)"
        "es = [] \<or> log_entries (Next pr) (r_maxMsgSize r) (r_raftLog r) = Inr (Inr es)"
        "send (set_mTo to (set_mType MsgApp (set_mIndex (Next pr - 1) (set_mLogTerm t
           (set_mEntries es (set_mCommit (l_committed (r_raftLog r)) zeroMessage)))))) (set_progress to pr' r) = Inr r'"
proof -
  let ?log = "r_raftLog r"
  obtain pr where pr: "progress_of to r = Some pr"
    using assms by (auto simp: maybeSendAppend_def split: option.splits)
  let ?m = "\<lambda>t es. set_mTo to (set_mType MsgApp (set_mIndex (Next pr - 1) (set_mLogTerm t
    (set_mEntries es (set_mCommit (l_committed ?log) zeroMessage)))))"
  from assms obtain t :: "storage_err + uint64" and e :: "storage_err + Entry list" where
    t: "log_term (Next pr - 1) ?log = Inr t" and
    e: "(if State pr \<noteq> StateReplicate then log_entries (Next pr) (r_maxMsgSize r) ?log else Inr (Inr [])) = Inr e" and
    rest: "(let ents = (case e of Inr es \<Rightarrow> es | Inl _ \<Rightarrow> []) in
       if length ents = 0 \<and> \<not> b then Inr (r, False)
       else if isl t \<or> isl e then (if \<not> RecentActive pr then Inr (r, False) else Inr (r, True))
       else (case UpdateOnEntriesSend (length ents) (payloadsSize ents) (Next pr) pr of
          (_, True) \<Rightarrow> Inl (ExplicitPanic ''sending append in unhandled state'')
        | (pr', False) \<Rightarrow> go_bind (send (?m (case t of Inr t \<Rightarrow> t | Inl _ \<Rightarrow> 0) ents) (set_progress to pr' r))
            (\<lambda>r. Inr (r, True)))) = Inr (r', s)"
    unfolding maybeSendAppend_def pr option.case Let_def go_bind_eq_Inr
    by (elim exE conjE) (rule that, assumption, assumption, unfold Let_def, assumption)
  show ?thesis
  proof (cases "isl t \<or> isl e")
    case True
    then have "r' = r" using rest by (auto simp: Let_def split: if_splits)
    then show ?thesis by (rule nothing)
  next
    case False
    then obtain x es where x: "t = Inr x" "e = Inr es" by (cases t; cases e) auto
    have es: "es = [] \<or> log_entries (Next pr) (r_maxMsgSize r) ?log = Inr (Inr es)"
      using e x by (auto split: if_splits)
    have "r' = r \<or> (\<exists>pr'. send (?m x es) (set_progress to pr' r) = Inr r')"
      using rest by (auto simp: x split: if_splits prod.splits bool.splits simp del: MsgApp_def)
    then show ?thesis
    proof (elim disjE exE)
      assume "r' = r"
      then show ?thesis by (rule nothing)
    next
      fix pr' assume "send (?m x es) (set_progress to pr' r) = Inr r'"
      then show ?thesis by (rule append [OF t [unfolded x(1)] es])
    qed
  qed
qed

text \<open>The leader's rule asks for the index 0, which is never above the mark.\<close>

lemma raft_maybeCommit_nothing: "raft_maybeCommit r = Inr (r, False)"
  by (simp add: raft_maybeCommit_def Let_def Tracker_Committed_def maybeCommit_def word_gt_0)

section \<open>Predicates that the operations keep\<close>

text \<open>A predicate of a node that depends only on its log, term, identity and queues, and that sending keeps,
  is kept by every operation that does not write the log.\<close>

locale kept_by_sending =
  fixes P :: "raft \<Rightarrow> bool"
  assumes term_set: "P r \<Longrightarrow> r_Term r \<noteq> 0"
    and same: "\<lbrakk>P r; r_raftLog s = r_raftLog r; r_Term s = r_Term r; r_id s = r_id r; r_msgs s = r_msgs r;
      r_msgsAfterAppend s = r_msgsAfterAppend r\<rbrakk> \<Longrightarrow> P s"
    and reset: "\<lbrakk>reset_rel t r s; P r; t \<noteq> 0\<rbrakk> \<Longrightarrow> P s"
    and sends: "\<lbrakk>send m r = Inr s; P r; mType m \<notin> {MsgApp, MsgSnap}\<rbrakk> \<Longrightarrow> P s"
    and sends_append: "\<lbrakk>maybeSendAppend i b r = Inr (s, x); P r\<rbrakk> \<Longrightarrow> P s"
begin

lemma keep_Visit:
  assumes "Visit f p r = Inr r'" and "P r" and "\<And>i s s'. f i s = Inr s' \<Longrightarrow> P s \<Longrightarrow> P s'"
  shows "P r'"
  using assms(1,2) unfolding Visit_def by (rule go_foldl_invariant) (rule assms(3))

lemma keep_progress: "P r \<Longrightarrow> P (set_progress i pr r)"
  by (erule same) (simp_all add: set_progress_def)

lemma keep_sendAppend: "\<lbrakk>sendAppend to r = Inr r'; P r\<rbrakk> \<Longrightarrow> P r'"
  by (auto simp: sendAppend_def dest: sends_append)

lemma keep_bcastAppend: "\<lbrakk>bcastAppend r = Inr r'; P r\<rbrakk> \<Longrightarrow> P r'"
  unfolding bcastAppend_def by (erule keep_Visit) (auto split: if_splits dest: keep_sendAppend)

lemma keep_sendHeartbeat: "\<lbrakk>sendHeartbeat to ctx r = Inr r'; P r\<rbrakk> \<Longrightarrow> P r'"
  by (auto simp: sendHeartbeat_def Let_def split: option.splits dest!: sends)

lemma keep_bcastHeartbeat: "\<lbrakk>bcastHeartbeat r = Inr r'; P r\<rbrakk> \<Longrightarrow> P r'"
  unfolding bcastHeartbeat_def bcastHeartbeatWithCtx_def
  by (simp, erule keep_Visit) (auto split: if_splits dest: keep_sendHeartbeat)

lemma keep_handleHeartbeat: "\<lbrakk>handleHeartbeat m r = Inr r'; P r\<rbrakk> \<Longrightarrow> P r'"
  unfolding handleHeartbeat_def by (erule sends) simp_all

lemma keep_send_loop:
  assumes a: "send_loop to r = Inr r'" and r: "P r"
  shows "P r'"
proof -
  let ?b = "\<lambda>s :: (raft \<times> bool) go. case s of Inr (_, b) \<Rightarrow> b | Inl _ \<Rightarrow> False"
  let ?c = "\<lambda>s. go_bind s (\<lambda>(r, _). maybeSendAppend to False r)"
  let ?P = "\<lambda>s :: (raft \<times> bool) go. case s of Inr (r', _) \<Rightarrow> P r' | Inl _ \<Rightarrow> True"
  obtain s where s: "while_option ?b ?c (maybeSendAppend to False r) = Some s"
      and r': "go_bind s (\<lambda>(r, _). Inr r) = Inr r'"
    using a by (auto simp: send_loop_def split: option.splits)
  have "?P s"
  proof (rule while_option_rule [where P = ?P, OF _ s])
    show "?P (maybeSendAppend to False r)"
      using r by (auto split: sum.split dest: sends_append)
    fix s assume "?P s" "?b s"
    then show "?P (?c s)" by (auto split: sum.splits dest: sends_append)
  qed
  then show ?thesis using r' by auto
qed

lemma keep_becomeFollower:
  assumes "becomeFollower t lead r = Inr r'" and "P r" and "t \<noteq> 0"
  shows "P r'"
proof -
  obtain s where s: "raft_reset t (r\<lparr>r_step := stepFollowerF\<rparr>) = Inr s"
      and r': "r' = s\<lparr>r_tick := tickElectionF, r_lead := lead, r_state := StateFollower\<rparr>"
    using assms(1) by (auto simp: becomeFollower_def)
  have "P (r\<lparr>r_step := stepFollowerF\<rparr>)" using assms(2) by (rule same) simp_all
  then have "P s" using reset [OF raft_reset_rel [OF s]] assms(3) by blast
  then show ?thesis by (rule same) (simp_all add: r')
qed

lemma keep_becomeCandidate:
  assumes "becomeCandidate r = Inr r'" and "P r" and "r_Term r \<noteq> - 1"
  shows "P r'"
proof -
  obtain s where s: "raft_reset (r_Term r + 1) (r\<lparr>r_step := stepCandidateF\<rparr>) = Inr s"
      and r': "r' = s\<lparr>r_tick := tickElectionF, r_Vote := r_id s, r_state := StateCandidate\<rparr>"
    using assms(1) by (auto simp: becomeCandidate_def split: if_splits)
  have "P (r\<lparr>r_step := stepCandidateF\<rparr>)" using assms(2) by (rule same) simp_all
  moreover have "r_Term r + 1 \<noteq> 0" using assms(3) by (metis add_eq_0_iff2)
  ultimately have "P s" using reset [OF raft_reset_rel [OF s]] by blast
  then show ?thesis by (rule same) (simp_all add: r')
qed

lemma keep_becomePreCandidate: "\<lbrakk>becomePreCandidate r = Inr r'; P r\<rbrakk> \<Longrightarrow> P r'"
  by (auto simp: becomePreCandidate_def split: if_splits intro: same)

lemma keep_campaign_to:
  assumes "campaign_to t term voteMsg i r = Inr r'" and "voteMsg \<in> {MsgVote, MsgPreVote}" and r: "P r"
  shows "P r'"
proof -
  have "\<exists>m. send m r = Inr r' \<and> mType m \<notin> {MsgApp, MsgSnap}"
  proof (cases "i = r_id r")
    case True
    then obtain ty where ty: "voteRespMsgType voteMsg = Inr ty"
        and s: "send (set_mTo i (set_mTerm term (set_mType ty zeroMessage))) r = Inr r'"
      using assms(1) by (auto simp: campaign_to_def)
    have "ty \<notin> {MsgApp, MsgSnap}" using ty assms(2) by (auto simp: voteRespMsgType_def)
    then show ?thesis using s by - (intro exI conjI, assumption, simp)
  next
    case False
    let ?ctx = "if t = campaignTransfer then Some (string_bytes (campaign_name t)) else None"
    obtain li lt where "send (set_mTo i (set_mTerm term (set_mType voteMsg (set_mIndex li (set_mLogTerm lt
        (set_mContext ?ctx zeroMessage)))))) r = Inr r'"
      using assms(1) False unfolding campaign_to_def Let_def by (auto simp only: if_False go_bind_eq_Inr)
    then show ?thesis using assms(2) by - (intro exI conjI, assumption, auto)
  qed
  then show ?thesis using r sends by blast
qed

lemma keep_campaign:
  assumes "campaign t r = Inr r'" and "r_Term r \<noteq> - 1" and r: "P r"
  shows "P r'"
proof -
  obtain s voteMsg tm where s: "P s" "voteMsg \<in> {MsgVote, MsgPreVote}"
    and loop: "go_foldl (\<lambda>r i. campaign_to t tm voteMsg i r) s
           (sorted_list_of_fset (Joint_IDs (cfgVoters (trkConfig (r_trk s))))) = Inr r'"
  proof (cases "t = campaignPreElection")
    case True
    with assms(1) obtain s where b: "becomePreCandidate r = Inr s" and
      l: "go_foldl (\<lambda>r i. campaign_to t (r_Term s + 1) MsgPreVote i r) s
           (sorted_list_of_fset (Joint_IDs (cfgVoters (trkConfig (r_trk s))))) = Inr r'"
      unfolding campaign_def by (auto simp del: MsgPreVote_def)
    show ?thesis using keep_becomePreCandidate [OF b r] by (rule that [OF _ _ l]) simp
  next
    case False
    with assms(1) obtain s where b: "becomeCandidate r = Inr s" and
      l: "go_foldl (\<lambda>r i. campaign_to t (r_Term s) MsgVote i r) s
           (sorted_list_of_fset (Joint_IDs (cfgVoters (trkConfig (r_trk s))))) = Inr r'"
      unfolding campaign_def by (auto simp del: MsgVote_def)
    show ?thesis using keep_becomeCandidate [OF b r assms(2)] by (rule that [OF _ _ l]) simp
  qed
  show ?thesis
    by (rule go_foldl_invariant [where P = P, OF loop s(1)]) (rule keep_campaign_to [OF _ s(2)])
qed

lemma keep_hup: "\<lbrakk>hup t r = Inr r'; r_Term r \<noteq> - 1; P r\<rbrakk> \<Longrightarrow> P r'"
  by (auto simp: hup_def split: if_splits dest: keep_campaign)

lemma keep_handle_vote:
  assumes "handle_vote m r = Inr r'" and r: "P r" and m: "mType m = MsgVote \<or> mType m = MsgPreVote"
  shows "P r'"
proof -
  from assms(1) obtain g ty where ty: "voteRespMsgType (mType m) = Inr ty"
    and rest: "(if g then
          go_bind (send (set_mTo (mFrom m) (set_mTerm (mTerm m) (set_mType ty zeroMessage))) r) (\<lambda>r.
            Inr (if mType m = MsgVote then r\<lparr>r_electionElapsed := 0, r_Vote := mFrom m\<rparr> else r))
        else send (set_mTo (mFrom m) (set_mTerm (r_Term r) (set_mType ty (set_mReject True zeroMessage)))) r)
      = Inr r'"
    unfolding handle_vote_def Let_def go_bind_eq_Inr by blast
  have ty: "ty \<notin> {MsgApp, MsgSnap}" using ty m by (auto simp: voteRespMsgType_def)
  have voted: "P (s\<lparr>r_electionElapsed := 0, r_Vote := v\<rparr>)" if "P s" for s v
    using that by (rule same) simp_all
  show ?thesis
    using rest r ty by (auto split: if_splits dest!: sends intro: voted simp del: MsgApp_def MsgSnap_def)
qed

text \<open>A follower writes its log only for an append.\<close>

lemma keep_stepFollower:
  assumes a: "stepFollower m r = Inr (r', e)" and r: "P r"
  obtains (kept) "P r'"
    | (append) x where "mType m = MsgApp" "P (r\<lparr>r_electionElapsed := 0, r_lead := x\<rparr>)"
        "handleAppendEntries m (r\<lparr>r_electionElapsed := 0, r_lead := x\<rparr>) = Inr r'"
proof -
  have upd: "P (r\<lparr>r_electionElapsed := 0, r_lead := x\<rparr>)" "P (r\<lparr>r_readStates := y\<rparr>)" for x y
    using r by (rule same; simp)+
  have beat': "P s" if "handleHeartbeat m (r\<lparr>r_electionElapsed := 0, r_lead := x\<rparr>) = Inr s" for s x
    using keep_handleHeartbeat [OF that upd(1)] .
  consider (app) "mType m = MsgApp" | (beat) "mType m = MsgHeartbeat"
    | (forward) "mType m \<in> {MsgProp, MsgTransferLeader, MsgReadIndex}"
    | (other) "mType m \<notin> {MsgApp, MsgHeartbeat, MsgProp, MsgTransferLeader, MsgReadIndex}" by blast
  then show ?thesis
  proof cases
    case app
    then show ?thesis using a append upd by (auto simp: stepFollower_def ok_step_def)
  next
    case beat
    then have "P r'" using a beat' by (auto simp: stepFollower_def ok_step_def)
    then show ?thesis by (rule kept)
  next
    case forward
    then have "r' = r \<or> send (set_mTo (r_lead r) m) r = Inr r'" "mType (set_mTo (r_lead r) m) \<notin> {MsgApp, MsgSnap}"
      using a by (auto simp: stepFollower_def ok_step_def split: if_splits)
    then have "P r'" using sends [OF _ r] r by blast
    then show ?thesis by (rule kept)
  next
    case other
    then have "r' = r \<or> (\<exists>y. r' = r\<lparr>r_readStates := y\<rparr>)"
      using a by (auto simp: stepFollower_def ok_step_def split: if_splits)
    then have "P r'" using upd r by blast
    then show ?thesis by (rule kept)
  qed
qed

text \<open>A candidate writes its log only when it has won.\<close>

lemma keep_stepCandidate:
  assumes a: "stepCandidate m r = Inr (r', e)" and r: "P r" and m: "sound_msg K m" and t: "r_Term r \<noteq> - 1"
  obtains (kept) "P r'" | (won) s u where "P s" "s = with_vote m r" "becomeLeader s = Inr u" "bcastAppend u = Inr r'"
proof -
  have v: "P (with_vote m r)" using r by (rule same) simp_all
  have follow: "P s" if "becomeFollower (mTerm m) (mFrom m) r = Inr s" "mType m \<in> {MsgApp, MsgHeartbeat, MsgSnap}" for s
    by (rule keep_becomeFollower [OF that(1) r]) (rule sound_term [OF m that(2)])
  show ?thesis
    using a
  proof (cases rule: stepCandidate_cases)
    case ignored then show ?thesis using r kept by simp
  next
    case down then show ?thesis using follow kept by blast
  next
    case (beat s) then show ?thesis using keep_handleHeartbeat [OF beat(3) follow [OF beat(2)]] kept by blast
  next
    case pending then show ?thesis using v kept by simp
  next
    case lost show ?thesis by (rule kept [OF keep_becomeFollower [OF lost(2) v term_set [OF r]]])
  next
    case again show ?thesis by (rule kept [OF keep_campaign [OF again(3) _ v]]) (use t in simp)
  next
    case (won u) then show ?thesis using v that(2) by blast
  qed
qed

lemma keep_leader_ack:
  assumes "leader_ack m pr r = Inr r'" and r: "P r"
  shows "P r'"
  using assms(1)
proof (cases rule: leader_ack_cases)
  case (only p)
  then show ?thesis using keep_progress [OF r] by simp
next
  case (more p s b u q)
  have "s = set_progress (mFrom m) p r" "b = False" using more(1) by (simp_all add: raft_maybeCommit_nothing)
  then have "P u"
    using more(2) keep_progress [OF r] by (auto split: if_splits dest: keep_sendAppend)
  then show ?thesis using more(3) by (auto split: if_splits dest: keep_send_loop)
qed

text \<open>A leader writes its log only for a proposal.\<close>

lemma keep_stepLeader:
  assumes "stepLeader m r = Inr (r', e)" and "P r"
  obtains (kept) "P r'" | (proposed) "mType m = MsgProp" "leader_propose m r = Inr (r', e)"
proof (cases "mType m = MsgProp")
  case True
  then have "leader_propose m r = Inr (r', e)" using assms(1) by (simp add: stepLeader_def)
  then show ?thesis using True by (intro proposed)
next
  case False
  then have "P r'" using assms unfolding stepLeader_def ok_step_def
    by (auto split: if_splits option.splits dest: keep_bcastHeartbeat keep_leader_ack)
  then show ?thesis by (rule kept)
qed

lemma keep_dispatch:
  assumes a: "dispatch m r = Inr (r', e)" and r: "P r" and t: "r_Term r \<noteq> - 1"
  obtains (kept) "P r'" | (called) "call_step m r = Inr (r', e)"
proof (cases "mType m \<in> {MsgHup, MsgStorageAppendResp, MsgStorageApplyResp, MsgVote, MsgPreVote}")
  case True
  then have "P r'" using a r t unfolding dispatch_def ok_step_def
    by (auto split: if_splits dest: keep_hup keep_handle_vote)
  then show ?thesis by (rule kept)
next
  case False
  then have "call_step m r = Inr (r', e)" using a unfolding dispatch_def by (auto split: if_splits)
  then show ?thesis by (rule called)
qed

lemma keep_check_term:
  assumes a: "check_term m r = Inr (s, b)" and r: "P r"
  shows "P s"
proof -
  have "s = r \<or> (\<exists>lead. mTerm m \<noteq> 0 \<and> becomeFollower (mTerm m) lead r = Inr s) \<or>
      (\<exists>x. send x r = Inr s \<and> mType x \<notin> {MsgApp, MsgSnap})"
    using a unfolding check_term_def by (auto split: if_splits; fastforce)
  then show ?thesis using r keep_becomeFollower sends by blast
qed

lemma keep_switchToConfig:
  assumes a: "switchToConfig cfg trk r = Inr (r', cs)" and r: "P r"
  shows "P r'"
proof -
  define s where "s = adopt cfg trk r"
  have s: "P s" using r by (rule same) (simp_all add: s_def)
  have t: "r_Term r \<noteq> 0" using r by (rule term_set)
  have v: "P r'" if "Visit (\<lambda>i r. if i = r_id r then Inr r
               else go_bind (maybeSendAppend i False r) (\<lambda>(r, _). Inr r)) p s = Inr r'" for p
    using that s by (rule keep_Visit) (auto split: if_splits dest: sends_append)
  show ?thesis
    using a s v t unfolding switchToConfig_unfold Let_def s_def [symmetric] raft_maybeCommit_nothing
    by (auto split: if_splits intro: keep_becomeFollower)
qed

lemma keep_applyConfChange: "\<lbrakk>applyConfChange cc r = Inr (r', cs); P r\<rbrakk> \<Longrightarrow> P r'"
  by (erule applyConfChange_switch) (rule keep_switchToConfig)

end

lemma check_term_bound:
  assumes a: "check_term m r = Inr (s, b)" and "r_Term r \<noteq> - 1" and "mTerm m \<noteq> - 1"
  shows "r_Term s \<noteq> - 1"
proof -
  have f: "r_Term s = mTerm m" if "becomeFollower (mTerm m) lead r = Inr s" "r_Term r < mTerm m" for lead
    using becomeFollower_votes(2) [OF that(1)] that(2) by simp
  have "s = r \<or> (\<exists>lead. r_Term r < mTerm m \<and> becomeFollower (mTerm m) lead r = Inr s) \<or>
      (\<exists>x. send x r = Inr s \<and> \<not> grant x)"
    using a unfolding check_term_def by (auto split: if_splits simp: grant_def; fastforce simp: grant_def)
  then show ?thesis using assms(2,3) f votes_kept_send_other(2) by metis
qed

text \<open>The entries a leader appends, and what it sends itself about them.\<close>

lemma becomeLeader_appends:
  assumes "becomeLeader r = Inr r'"
  obtains s u where "raft_reset (r_Term r) (r\<lparr>r_step := stepLeaderF\<rparr>) = Inr s" "appendEntry [zeroEntry] u = Inr (r', True)"
    "r_raftLog u = r_raftLog s" "r_Term u = r_Term s" "r_id u = r_id s" "r_msgs u = r_msgs s"
    "r_msgsAfterAppend u = r_msgsAfterAppend s" "r_state u = StateLeader"
proof -
  obtain s where s: "raft_reset (r_Term r) (r\<lparr>r_step := stepLeaderF\<rparr>) = Inr s"
    using assms by (auto simp: becomeLeader_def split: if_splits)
  let ?s = "s\<lparr>r_tick := tickHeartbeatF, r_lead := r_id s, r_state := StateLeader\<rparr>"
  obtain pr li where
    "appendEntry [zeroEntry]
      ((set_progress (r_id ?s) ((BecomeReplicate pr)\<lparr>RecentActive := True\<rparr>) ?s)\<lparr>r_pendingConfIndex := li\<rparr>) =
      Inr (r', True)"
    using assms s by (auto simp: becomeLeader_def Let_def split: if_splits option.splits bool.splits)
  then show ?thesis by (rule that [OF s]) (simp_all add: set_progress_def)
qed

text \<open>A predicate that also appending keeps, on either side, is kept by everything a node does.\<close>

locale kept_by_appending = kept_by_sending +
  fixes K :: uint64
  assumes appends: "\<lbrakk>appendEntry es r = Inr (s, b); P r\<rbrakk> \<Longrightarrow> P s"
    and follows: "\<lbrakk>handleAppendEntries m r = Inr s; P r; mType m = MsgApp; sound_msg K m\<rbrakk> \<Longrightarrow> P s"
begin

lemma keep_becomeLeader:
  assumes a: "becomeLeader r = Inr r'" and r: "P r"
  shows "P r'"
proof -
  obtain s u where s: "raft_reset (r_Term r) (r\<lparr>r_step := stepLeaderF\<rparr>) = Inr s" "appendEntry [zeroEntry] u = Inr (r', True)"
      and u: "r_raftLog u = r_raftLog s" "r_Term u = r_Term s" "r_id u = r_id s" "r_msgs u = r_msgs s"
        "r_msgsAfterAppend u = r_msgsAfterAppend s"
    using a by (rule becomeLeader_appends)
  have "P (r\<lparr>r_step := stepLeaderF\<rparr>)" using r by (rule same) simp_all
  then have "P s" using reset [OF raft_reset_rel [OF s(1)]] term_set [OF r] by blast
  then have "P u" using u by (rule same)
  then show ?thesis by (rule appends [OF s(2)])
qed

lemma keep_leader_propose:
  assumes "leader_propose m r = Inr (r', e)" and r: "P r"
  shows "P r'"
  using assms(1)
proof (cases rule: leader_propose_appends)
  case (appended s es u b)
  have "P s" using r by (rule same) (use filter_changes_votes [OF appended(1)] in simp_all)
  then have "P u" by (rule appends [OF appended(2)])
  then show ?thesis using appended(3) keep_bcastAppend by blast
qed (use r in simp)

lemma keep_call_step:
  assumes "call_step m r = Inr (r', e)" and r: "P r" and m: "sound_msg K m" and t: "r_Term r \<noteq> - 1"
  shows "P r'"
proof (cases "r_step r")
  case stepFollowerF
  then have "stepFollower m r = Inr (r', e)" using assms(1) by (simp add: call_step_def)
  then show ?thesis using r by (rule keep_stepFollower) (use m follows in blast)+
next
  case stepCandidateF
  then have "stepCandidate m r = Inr (r', e)" using assms(1) by (simp add: call_step_def)
  then show ?thesis using r m t
    by (rule keep_stepCandidate) (use keep_becomeLeader keep_bcastAppend in blast)+
next
  case stepLeaderF
  then have "stepLeader m r = Inr (r', e)" using assms(1) by (simp add: call_step_def)
  then show ?thesis using r by (rule keep_stepLeader) (use keep_leader_propose r in blast)+
qed (use assms(1) in \<open>simp add: call_step_def\<close>)

lemma keep_Step:
  assumes "Step m r = Inr (r', e)" and r: "P r" and m: "sound_msg K m" and t: "r_Term r \<noteq> - 1" "mTerm m \<noteq> - 1"
  shows "P r'"
proof -
  from assms(1) obtain s b where s: "check_term m r = Inr (s, b)"
      and d: "(if b then dispatch m s else ok_step s) = Inr (r', e)"
    by (auto simp: Step_def)
  have p: "P s" and fin: "r_Term s \<noteq> - 1" using keep_check_term [OF s r] check_term_bound [OF s t] .
  show ?thesis
  proof (cases b)
    case True
    then have "dispatch m s = Inr (r', e)" using d by simp
    then show ?thesis using p fin by (rule keep_dispatch) (use keep_call_step p m fin in blast)+
  next
    case False
    then show ?thesis using d p by (simp add: ok_step_def)
  qed
qed

text \<open>The messages a node steps by itself.\<close>

lemma keep_local:
  assumes "Step (set_mFrom i (set_mType ty zeroMessage)) r = Inr (r', e)" and "P r" and "r_Term r \<noteq> - 1"
    and "ty \<notin> {MsgApp, MsgHeartbeat, MsgSnap, MsgVote}"
  shows "P r'"
  by (rule keep_Step [OF assms(1,2) _ assms(3)]) (use assms(4) in \<open>auto intro: sound_other\<close>)

lemma keep_tick:
  assumes "tick r = Inr r'" and r: "P r" and t: "r_Term r \<noteq> - 1"
  shows "P r'"
  using assms(1)
proof (cases rule: tick_cases)
  case (still x y)
  show ?thesis using r by (rule same) (simp_all add: still)
next
  case (steps x y ty e)
  have "P (r\<lparr>r_heartbeatElapsed := x, r_electionElapsed := y\<rparr>)" using r by (rule same) simp_all
  then show ?thesis by (rule keep_local [OF steps(1)]) (use t steps(2) in auto)
qed

end

section \<open>The state of a node that was set up\<close>

definition settled :: "Entry list \<Rightarrow> raft \<Rightarrow> bool" where
  "settled B r \<longleftrightarrow> boot_log B (r_raftLog r) \<and> r_Term r \<noteq> 0 \<and> r_id r \<noteq> 0 \<and>
     (\<forall>m \<in> set (r_msgs r) \<union> set (r_msgsAfterAppend r). sound_msg (of_nat (length B)) m)"

lemma settledD:
  assumes "settled B r"
  shows "boot_log B (r_raftLog r)" "r_Term r \<noteq> 0" "r_id r \<noteq> 0"
  using assms by (simp_all add: settled_def)

lemma settled_same:
  assumes "settled B r" and "r_raftLog s = r_raftLog r" and "r_Term s = r_Term r" and "r_id s = r_id r"
    and "r_msgs s = r_msgs r" and "r_msgsAfterAppend s = r_msgsAfterAppend r"
  shows "settled B s"
  using assms by (simp add: settled_def)

lemma settled_log: "\<lbrakk>settled B r; boot_log B l\<rbrakk> \<Longrightarrow> settled B (r\<lparr>r_raftLog := l\<rparr>)"
  by (simp add: settled_def)

lemma settled_send:
  assumes s: "send m r = Inr r'" and r: "settled B r"
    and m: "mType m = MsgApp \<Longrightarrow> mCommit m \<le> of_nat (length B) \<and> indexed (mIndex m + 1) (mEntries m)"
      "mType m \<noteq> MsgSnap"
  shows "settled B r'"
proof -
  have "mTerm (sent m r) \<noteq> 0" if "mType m \<in> {MsgApp, MsgHeartbeat}"
    using that settledD(2) [OF r] by (auto simp: sent_def Let_def vote_type_def)
  then have "sound_msg (of_nat (length B)) (sent m r)"
    using m settledD(3) [OF r] by (auto simp: sound_msg_def simp del: MsgApp_def MsgHeartbeat_def MsgSnap_def MsgVote_def)
  moreover have "r' = r\<lparr>r_msgsAfterAppend := r_msgsAfterAppend r @ [sent m r]\<rparr> \<or>
      r' = r\<lparr>r_msgs := r_msgs r @ [sent m r]\<rparr>"
    using s unfolding send_unfold by (auto split: if_splits)
  ultimately show ?thesis using r by (auto simp: settled_def)
qed

text \<open>The messages other than appends.\<close>

lemma settled_send_other: "\<lbrakk>send m r = Inr r'; settled B r; mType m \<notin> {MsgApp, MsgSnap}\<rbrakk> \<Longrightarrow> settled B r'"
  by (erule settled_send) (auto simp del: MsgApp_def MsgSnap_def)

lemma settled_maybeSendAppend:
  assumes a: "maybeSendAppend to b r = Inr (r', s)" and r: "settled B r"
  shows "settled B r'"
  using a
proof (cases rule: maybeSendAppend_sends)
  case nothing
  then show ?thesis using r by simp
next
  case (append pr pr' t es)
  have "indexed (Next pr) es" using append(2) boot_entries [OF settledD(1) [OF r]] by auto
  moreover have "settled B (set_progress to pr' r)" using r by (rule settled_same) (simp_all add: set_progress_def)
  ultimately show ?thesis
    using settledD(1) [OF r] by (intro settled_send [OF append(3)]) (simp_all add: boot_log_def)
qed

lemma settled_appendEntry:
  assumes a: "appendEntry es r = Inr (r', b)" and r: "settled B r"
  shows "settled B r'"
proof -
  let ?n = "of_nat (length (u_entries (l_unstable (r_raftLog r)))) :: uint64"
  from a obtain l li where l: "log_append (stamp_entries (r_Term r) ?n es) (r_raftLog r) = Inr (l, li)"
    and s: "send (set_mTo (r_id r) (set_mType MsgAppResp (set_mIndex li zeroMessage))) (r\<lparr>r_raftLog := l\<rparr>) = Inr r'"
    by (auto simp: appendEntry_def boot_last [OF settledD(1) [OF r]])
  have ix: "indexed (?n + 1) (stamp_entries (r_Term r) ?n es)"
    by (simp add: indexed_def stamp_entries_def enumerate_eq_zip)
  have "stamp_entries (r_Term r) ?n es = [] \<or> eIndex (stamp_entries (r_Term r) ?n es ! 0) = 1 + ?n"
    by (cases es) (simp_all add: stamp_entries_def enumerate_eq_zip upt_conv_Cons del: upt_Suc)
  then have "boot_log B l" using ix by (intro boot_append [OF settledD(1) [OF r] _ _ l]) (auto simp: add.commute)
  then have "settled B (r\<lparr>r_raftLog := l\<rparr>)" using r by (rule settled_log [rotated])
  then show ?thesis by (rule settled_send_other [OF s]) simp
qed

lemma settled_handleAppendEntries:
  assumes a: "handleAppendEntries m r = Inr r'" and r: "settled B r"
    and m: "mType m = MsgApp" "sound_msg (of_nat (length B)) m"
  shows "settled B r'"
  using a
proof (rule handleAppendEntries_sends)
  fix l x assume s: "send x (r\<lparr>r_raftLog := l\<rparr>) = Inr r'" "mType x = MsgAppResp" and l: "l = r_raftLog r \<or>
    (\<exists>res. maybeAppend (mIndex m) (mLogTerm m) (mCommit m) (mEntries m) (r_raftLog r) = Inr (l, res))"
  have "boot_log B l" using l settledD(1) [OF r] m by (auto simp: sound_msg_def intro: boot_maybeAppend)
  then have "settled B (r\<lparr>r_raftLog := l\<rparr>)" using r by (rule settled_log [rotated])
  then show ?thesis by (intro settled_send_other [OF s(1)]) (simp_all add: s(2))
qed

interpretation settled: kept_by_appending "settled B" "of_nat (length B)" for B
proof unfold_locales
  show "settled B r \<Longrightarrow> r_Term r \<noteq> 0" for r by (rule settledD(2))
  show "\<lbrakk>reset_rel t r s; settled B r; t \<noteq> 0\<rbrakk> \<Longrightarrow> settled B s" for t r s by (simp add: settled_def reset_rel_sel)
qed (fact settled_same settled_send_other settled_maybeSendAppend settled_appendEntry settled_handleAppendEntries)+

text \<open>Handing over the queues, and storing entries.\<close>

lemma settled_handed: "settled B r \<Longrightarrow> settled B (r\<lparr>r_msgs := [], r_msgsAfterAppend := []\<rparr>)"
  by (simp add: settled_def)

lemma settled_storage: "settled B r \<Longrightarrow> settled B (r\<lparr>r_raftLog := (r_raftLog r)\<lparr>l_storage := st\<rparr>\<rparr>)"
  by (simp add: settled_def boot_log_def)

lemma settled_ready:
  assumes "readyWithoutAccept rn = Inr rd" and "settled B (rn_raft rn)"
  shows "window B (rdCommittedEntries rd)"
proof -
  obtain es where "nextCommittedEnts (applyUnstableEntries rn) (r_raftLog (rn_raft rn)) = Inr es"
      "rdCommittedEntries rd = es"
    using assms(1) by (auto simp: readyWithoutAccept_def Let_def)
  then show ?thesis using boot_committed settledD(1) [OF assms(2)] by metis
qed

end
