(* ===== verification/Node_Loop.thy ===== *)
theory Node_Loop
  imports Raft_Commit
begin

text \<open>
  \<open>src/raft/core/node.go\<close>: the goroutine \<open>run\<close> that owns a raft node, and the methods by which other
  goroutines talk to it.  The local variables of \<open>run\<close> and the channels it selects on are the record
  \<open>node\<close>; a channel variable that \<open>run\<close> sets to \<open>nil\<close> is a boolean, true when it is not.  One
  iteration is the part before the \<open>select\<close> and one enabled case of it.  A caller is a small process
  of its own whose blocking points are the \<open>select\<close> statements of \<open>stepWithWaitOption\<close>.
\<close>

section \<open>The loop\<close>

record msgWithResult =
  pm_m :: Message
  pm_result :: "nat option"

record node =
  n_rn :: RawNode
  n_propc :: bool
  n_readyc :: bool
  n_advancec :: bool
  n_rd :: Ready
  n_lead :: uint64
  n_ticks :: nat
  n_done :: bool

definition newNode :: "RawNode \<Rightarrow> node" where
  "newNode rn = \<lparr>n_rn = rn, n_propc = False, n_readyc = False, n_advancec = False, n_rd = zeroReady,
     n_lead = 0, n_ticks = 0, n_done = False\<rparr>"

definition setupNode :: "(nat \<Rightarrow> nat) \<Rightarrow> RaftConfig \<Rightarrow> Peer list \<Rightarrow> node go" where
  "setupNode rnd c peers =
     (if length peers = 0 then Inl (ExplicitPanic ''no peers given; use RestartNode instead'')
      else go_bind (NewRawNode rnd c) (\<lambda>rn. go_bind (Bootstrap peers rn) (\<lambda>(rn, _). Inr (newNode rn))))"

text \<open>\<open>StartNode\<close> and \<open>RestartNode\<close> leave the goroutine \<open>run\<close> at the head of its loop.\<close>

definition StartNode :: "(nat \<Rightarrow> nat) \<Rightarrow> RaftConfig \<Rightarrow> Peer list \<Rightarrow> node go" where
  [simp]: "StartNode rnd c peers = setupNode rnd c peers"

definition RestartNode :: "(nat \<Rightarrow> nat) \<Rightarrow> RaftConfig \<Rightarrow> node go" where
  "RestartNode rnd c = go_bind (NewRawNode rnd c) (\<lambda>rn. Inr (newNode rn))"

datatype node_event =
    EvProp msgWithResult
  | EvRecv Message
  | EvConf ConfChangeV2
  | EvTick
  | EvReady
  | EvAdvance
  | EvStatus
  | EvStop

text \<open>What a case of the \<open>select\<close> answers: the result channel and the error of a proposal, the
  configuration, the \<open>Ready\<close> that was taken, or the status.\<close>

datatype node_output =
    OutNone
  | OutProp "(nat \<times> step_err option) option"
  | OutConf ConfState
  | OutReady Ready
  | OutStatus Status

definition loop_top :: "node \<Rightarrow> node go" where
  "loop_top n =
     go_bind
       (if \<not> n_advancec n \<and> HasReady (n_rn n) then
          go_bind (readyWithoutAccept (n_rn n)) (\<lambda>rd. Inr (n\<lparr>n_rd := rd, n_readyc := True\<rparr>))
        else Inr n)
       (\<lambda>n. let r = rn_raft (n_rn n) in
          Inr (if n_lead n \<noteq> r_lead r then n\<lparr>n_propc := hasLeader r, n_lead := r_lead r\<rparr> else n))"

text \<open>The search of the removed node's id in the new configuration.\<close>

definition still_member :: "uint64 \<Rightarrow> ConfState \<Rightarrow> bool" where
  "still_member i cs = (i \<in> set (Voters cs) \<or> i \<in> set (VotersOutgoing cs))"

fun enabled :: "node_event \<Rightarrow> node \<Rightarrow> bool" where
  "enabled (EvProp pm) n = n_propc n"
| "enabled EvReady n = n_readyc n"
| "enabled EvAdvance n = n_advancec n"
| "enabled EvTick n = (0 < n_ticks n)"
| "enabled _ n = True"

definition set_raft :: "raft \<Rightarrow> node \<Rightarrow> node" where
  "set_raft r n = n\<lparr>n_rn := (n_rn n)\<lparr>rn_raft := r\<rparr>\<rparr>"

fun loop_event :: "node_event \<Rightarrow> node \<Rightarrow> (node \<times> node_output) go" where
  "loop_event (EvProp pm) n =
     (let r = rn_raft (n_rn n); m = set_mFrom (r_id r) (pm_m pm) in
      go_bind (Step m r) (\<lambda>(r, err).
        Inr (set_raft r n, OutProp (map_option (\<lambda>ch. (ch, err)) (pm_result pm)))))"
| "loop_event (EvRecv m) n =
     (let r = rn_raft (n_rn n) in
      go_bind (unknown_response m r) (\<lambda>unknown.
        if unknown then Inr (n, OutNone)
        else go_bind (Step m r) (\<lambda>(r, _). Inr (set_raft r n, OutNone))))"
| "loop_event (EvConf cc) n =
     (let r = rn_raft (n_rn n); okBefore = progress_of (r_id r) r \<noteq> None in
      go_bind (applyConfChange cc r) (\<lambda>(r, cs).
        let n = set_raft r n; okAfter = progress_of (r_id r) r \<noteq> None in
        Inr (if okBefore \<and> \<not> okAfter \<and> \<not> still_member (r_id r) cs then n\<lparr>n_propc := False\<rparr> else n,
             OutConf cs)))"
| "loop_event EvTick n =
     go_bind (RawNode_Tick (n_rn n)) (\<lambda>rn. Inr (n\<lparr>n_rn := rn, n_ticks := n_ticks n - 1\<rparr>, OutNone))"
| "loop_event EvReady n =
     go_bind (acceptReady (n_rd n) (n_rn n)) (\<lambda>rn.
       let rd = n_rd n; n = n\<lparr>n_rn := rn\<rparr>;
           n = (if \<not> rn_async rn then n\<lparr>n_advancec := True\<rparr> else n\<lparr>n_rd := zeroReady\<rparr>)
       in Inr (n\<lparr>n_readyc := False\<rparr>, OutReady rd))"
| "loop_event EvAdvance n =
     go_bind (RawNode_Advance (n_rn n)) (\<lambda>rn.
       Inr (n\<lparr>n_rn := rn, n_rd := zeroReady, n_advancec := False\<rparr>, OutNone))"
| "loop_event EvStatus n = go_bind (getStatus (rn_raft (n_rn n))) (\<lambda>s. Inr (n, OutStatus s))"
| "loop_event EvStop n = Inr (n\<lparr>n_done := True\<rparr>, OutNone)"

text \<open>One iteration of \<open>run\<close>.\<close>

inductive loop_step :: "node \<Rightarrow> node_event \<Rightarrow> node_output \<Rightarrow> node \<Rightarrow> bool" where
  iteration: "\<lbrakk>\<not> n_done n; loop_top n = Inr n1; enabled ev n1; loop_event ev n1 = Inr (n', out)\<rbrakk> \<Longrightarrow>
    loop_step n ev out n'"

inductive_cases loop_stepE: "loop_step n ev out n'"
inductive_simps loop_step_iff: "loop_step n ev out n'"

text \<open>The same as a function, for running the loop.\<close>

definition iterate :: "node_event \<Rightarrow> node \<Rightarrow> (node \<times> node_output) go" where
  "iterate ev n =
     (if n_done n then Inl NotReturning
      else go_bind (loop_top n) (\<lambda>n1. if enabled ev n1 then loop_event ev n1 else Inl NotReturning))"

lemma iterate_step: "iterate ev n = Inr (n', out) \<longleftrightarrow> loop_step n ev out n'"
  by (auto simp: iterate_def loop_step_iff simp del: loop_event.simps enabled.simps split: if_splits)

section \<open>The callers\<close>

text \<open>\<open>Tick\<close> never blocks: with 128 ticks waiting it drops one, and on a stopped node it may do nothing.\<close>

inductive node_Tick :: "node \<Rightarrow> node \<Rightarrow> bool" where
  queued: "n_ticks n < 128 \<Longrightarrow> node_Tick n (n\<lparr>n_ticks := n_ticks n + 1\<rparr>)"
| stopped: "n_done n \<Longrightarrow> node_Tick n n"
| missed: "\<lbrakk>128 \<le> n_ticks n; \<not> n_done n\<rbrakk> \<Longrightarrow> node_Tick n n"

datatype client_err = CtxErr | ErrStopped | StepFailed step_err

text \<open>Where a call of \<open>stepWithWaitOption\<close> stands: blocked on \<open>recvc\<close>, blocked on \<open>propc\<close> (with the
  \<open>wait\<close> argument), blocked on its own result channel, or returned.\<close>

datatype client =
    SendRecv Message
  | SendProp Message bool
  | AwaitResult "nat option"
  | Returned "client_err option"

datatype client_action =
    SentRecv Message
  | SentProp msgWithResult
  | GotResult nat "step_err option"
  | CtxDone
  | NodeDone

definition stepWithWaitOption :: "Message \<Rightarrow> bool \<Rightarrow> client" where
  "stepWithWaitOption m wait = (if mType m \<noteq> MsgProp then SendRecv m else SendProp m wait)"

text \<open>The message is sent with a nil result channel; the channel \<open>ch\<close> is made afterwards, in the
  caller's copy only.\<close>

inductive client_step :: "client \<Rightarrow> client_action \<Rightarrow> client \<Rightarrow> bool" where
  recv: "client_step (SendRecv m) (SentRecv m) (Returned None)"
| recv_ctx: "client_step (SendRecv m) CtxDone (Returned (Some CtxErr))"
| recv_done: "client_step (SendRecv m) NodeDone (Returned (Some ErrStopped))"
| send_prop: "client_step (SendProp m wait) (SentProp \<lparr>pm_m = m, pm_result = None\<rparr>)
    (if wait then AwaitResult (Some ch) else Returned None)"
| send_ctx: "client_step (SendProp m wait) CtxDone (Returned (Some CtxErr))"
| send_done: "client_step (SendProp m wait) NodeDone (Returned (Some ErrStopped))"
| result: "client_step (AwaitResult (Some ch)) (GotResult ch err)
    (Returned (map_option StepFailed err))"
| result_ctx: "client_step (AwaitResult c) CtxDone (Returned (Some CtxErr))"
| result_done: "client_step (AwaitResult c) NodeDone (Returned (Some ErrStopped))"

inductive_cases client_stepE: "client_step c a c'"

definition node_step :: "Message \<Rightarrow> client" where
  [simp]: "node_step m = stepWithWaitOption m False"

definition node_stepWait :: "Message \<Rightarrow> client" where
  [simp]: "node_stepWait m = stepWithWaitOption m True"

definition node_Step :: "Message \<Rightarrow> client go" where
  "node_Step m =
     go_bind (IsLocalMsg (mType m)) (\<lambda>loc.
       Inr (if loc \<and> \<not> IsLocalMsgTarget (mFrom m) then Returned None else node_step m))"

definition node_Campaign :: client where
  "node_Campaign = node_step (set_mType MsgHup zeroMessage)"

definition node_Propose :: "bytes \<Rightarrow> client" where
  "node_Propose d = node_stepWait (set_mType MsgProp (set_mEntries [zeroEntry\<lparr>eData := d\<rparr>] zeroMessage))"

text \<open>The messages that \<open>TransferLeadership\<close> and \<open>ReportUnreachable\<close> put on \<open>recvc\<close>, and the change that
  \<open>ApplyConfChange\<close> puts on \<open>confc\<close>.\<close>

definition transfer_message :: "uint64 \<Rightarrow> uint64 \<Rightarrow> Message" where
  "transfer_message lead transferee =
     set_mType MsgTransferLeader (set_mFrom transferee (set_mTo lead zeroMessage))"

definition unreachable_message :: "uint64 \<Rightarrow> Message" where
  "unreachable_message i = set_mType MsgUnreachable (set_mFrom i zeroMessage)"

definition node_ApplyConfChange :: "ConfChange \<Rightarrow> node_event" where
  "node_ApplyConfChange cc = EvConf (AsV2 (CCV1 cc))"

text \<open>The calls that meet the loop in one of its iterations and then return, or return because the node is
  done.  \<open>node_Ready\<close> is what the channel given out holds for a receiver.  After \<open>Stop\<close> has been taken,
  \<open>done\<close> is closed in the same iteration, so the wait for it is over at once.\<close>

definition node_Ready :: "node \<Rightarrow> Ready option" where
  "node_Ready n = (if n_readyc n then Some (n_rd n) else None)"

inductive node_Advance :: "node \<Rightarrow> node \<Rightarrow> bool" where
  advanced: "loop_step n EvAdvance out n' \<Longrightarrow> node_Advance n n'"
| advance_done: "n_done n \<Longrightarrow> node_Advance n n"

inductive node_Status :: "node \<Rightarrow> Status option \<Rightarrow> node \<Rightarrow> bool" where
  answered: "loop_step n EvStatus (OutStatus s) n' \<Longrightarrow> node_Status n (Some s) n'"
| status_done: "n_done n \<Longrightarrow> node_Status n None n"

inductive node_Stop :: "node \<Rightarrow> node \<Rightarrow> bool" where
  stop_taken: "\<lbrakk>loop_step n EvStop out n'; n_done n'\<rbrakk> \<Longrightarrow> node_Stop n n'"
| stop_done: "n_done n \<Longrightarrow> node_Stop n n"

inductive_simps node_Stop_iff: "node_Stop n n'"

section \<open>A caller and the loop together\<close>

text \<open>The loop goes on with other work, takes the caller's message, answers on a result channel it was
  given, or the caller gives up because its context or the node is done.\<close>

inductive system_step :: "node \<times> client \<Rightarrow> node \<times> client \<Rightarrow> bool" where
  other: "loop_step n ev out n' \<Longrightarrow> system_step (n, c) (n', c)"
| take_recv: "\<lbrakk>client_step c (SentRecv m) c'; loop_step n (EvRecv m) out n'\<rbrakk> \<Longrightarrow> system_step (n, c) (n', c')"
| take_prop: "\<lbrakk>client_step c (SentProp pm) c'; loop_step n (EvProp pm) (OutProp None) n'\<rbrakk> \<Longrightarrow>
    system_step (n, c) (n', c')"
| answer: "\<lbrakk>client_step c (SentProp pm) c'; loop_step n (EvProp pm) (OutProp (Some (ch, err))) n';
    client_step c' (GotResult ch err) c''\<rbrakk> \<Longrightarrow> system_step (n, c) (n', c'')"
| give_up: "client_step c CtxDone c' \<Longrightarrow> system_step (n, c) (n, c')"
| node_stopped: "\<lbrakk>n_done n; client_step c NodeDone c'\<rbrakk> \<Longrightarrow> system_step (n, c) (n, c')"

section \<open>Facts on the loop\<close>

lemma loop_top_sel:
  assumes "loop_top n = Inr n1"
  shows "n_rn n1 = n_rn n" "n_advancec n1 = n_advancec n" "n_done n1 = n_done n" "n_ticks n1 = n_ticks n"
    "n_readyc n1 \<longrightarrow> n_readyc n \<or> \<not> n_advancec n"
proof -
  define n0 where "n0 = (if \<not> n_advancec n \<and> HasReady (n_rn n) then
      n\<lparr>n_rd := (case readyWithoutAccept (n_rn n) of Inr rd \<Rightarrow> rd | Inl _ \<Rightarrow> n_rd n), n_readyc := True\<rparr> else n)"
  have n1: "n1 = (if n_lead n0 \<noteq> r_lead (rn_raft (n_rn n0))
      then n0\<lparr>n_propc := hasLeader (rn_raft (n_rn n0)), n_lead := r_lead (rn_raft (n_rn n0))\<rparr> else n0)"
  proof (cases "\<not> n_advancec n \<and> HasReady (n_rn n)")
    case True
    then obtain rd where "readyWithoutAccept (n_rn n) = Inr rd"
      using assms unfolding loop_top_def by (cases "readyWithoutAccept (n_rn n)") simp_all
    then show ?thesis using assms True by (auto simp: loop_top_def n0_def Let_def split: if_splits)
  next
    case False
    then show ?thesis using assms by (simp only: loop_top_def n0_def Let_def if_False go_bind_simps sum.inject)
  qed
  show "n_rn n1 = n_rn n" "n_advancec n1 = n_advancec n" "n_done n1 = n_done n" "n_ticks n1 = n_ticks n"
    "n_readyc n1 \<longrightarrow> n_readyc n \<or> \<not> n_advancec n"
    by (simp_all add: n1 n0_def)
qed

text \<open>The hand-shake of \<open>Ready\<close> and \<open>Advance\<close>: a \<open>Ready\<close> is only offered when none is outstanding, and
  responses wait for \<open>Advance\<close> only while one is.\<close>

definition handshake :: "node \<Rightarrow> bool" where
  "handshake n \<longleftrightarrow> (n_readyc n \<longrightarrow> \<not> n_advancec n) \<and>
     (\<not> n_advancec n \<longrightarrow> rn_stepsOnAdvance (n_rn n) = [])"

lemma handshake_new: "rn_stepsOnAdvance rn = [] \<Longrightarrow> handshake (newNode rn)"
  by (simp add: handshake_def newNode_def)

lemma handshake_top: "\<lbrakk>loop_top n = Inr n1; handshake n\<rbrakk> \<Longrightarrow> handshake n1"
  using loop_top_sel [of n n1] by (auto simp: handshake_def)

lemma RawNode_Advance_steps: "RawNode_Advance rn = Inr rn' \<Longrightarrow> rn_stepsOnAdvance rn' = []"
  by (auto simp: RawNode_Advance_def split: if_splits)

lemma handshake_set_raft [simp]: "handshake (set_raft r n) = handshake n"
  by (simp add: handshake_def set_raft_def)

lemma handshake_event:
  assumes "loop_event ev n = Inr (n', out)" and "handshake n" and "enabled ev n"
  shows "handshake n'"
proof (cases ev)
  case (EvProp pm)
  then show ?thesis using assms by (auto simp: Let_def)
next
  case (EvRecv m)
  then show ?thesis using assms by (auto simp: Let_def split: if_splits)
next
  case (EvConf cc)
  then obtain r cs where "n' = set_raft r n \<or> n' = (set_raft r n)\<lparr>n_propc := False\<rparr>"
    using assms(1) by (auto simp: Let_def split: if_splits)
  then show ?thesis using assms(2) by (auto simp: handshake_def set_raft_def)
next
  case EvTick
  then show ?thesis using assms by (auto simp: handshake_def RawNode_Tick_def)
next
  case EvReady
  then obtain rn where rn: "acceptReady (n_rd n) (n_rn n) = Inr rn"
      and n': "n' = (if \<not> rn_async rn then n\<lparr>n_rn := rn, n_advancec := True, n_readyc := False\<rparr>
        else n\<lparr>n_rn := rn, n_rd := zeroReady, n_readyc := False\<rparr>)"
    using assms(1) by (auto simp: Let_def)
  have "rn_stepsOnAdvance rn = rn_stepsOnAdvance (n_rn n)" if "rn_async rn"
    using rn that by (auto simp: acceptReady_Inr)
  then show ?thesis using assms(2,3) EvReady by (auto simp: n' handshake_def)
next
  case EvAdvance
  then show ?thesis using assms by (auto simp: handshake_def dest: RawNode_Advance_steps)
next
  case EvStatus
  then show ?thesis using assms by auto
next
  case EvStop
  then show ?thesis using assms by (auto simp: handshake_def)
qed

lemma handshake_step: "\<lbrakk>loop_step n ev out n'; handshake n\<rbrakk> \<Longrightarrow> handshake n'"
  by (elim loop_stepE) (blast intro: handshake_event handshake_top)

inductive loop_run :: "node \<Rightarrow> node \<Rightarrow> bool" where
  start: "loop_run n n"
| step: "\<lbrakk>loop_run n n'; loop_step n' ev out n''\<rbrakk> \<Longrightarrow> loop_run n n''"
| ticked: "\<lbrakk>loop_run n n'; node_Tick n' n''\<rbrakk> \<Longrightarrow> loop_run n n''"

lemma handshake_Tick: "\<lbrakk>node_Tick n n'; handshake n\<rbrakk> \<Longrightarrow> handshake n'"
  by (auto simp: handshake_def elim!: node_Tick.cases)

lemma handshake_run: "\<lbrakk>loop_run n n'; handshake n\<rbrakk> \<Longrightarrow> handshake n'"
  by (induction rule: loop_run.induct) (auto intro: handshake_step handshake_Tick)

text \<open>The messages that an event makes a node step.\<close>

fun stepped :: "node_event \<Rightarrow> node \<Rightarrow> Message list" where
  "stepped (EvRecv m) n = [m]"
| "stepped (EvProp pm) n = [set_mFrom (r_id (rn_raft (n_rn n))) (pm_m pm)]"
| "stepped EvAdvance n = rn_stepsOnAdvance (n_rn n)"
| "stepped ev n = []"

text \<open>The messages that an output hands over.\<close>

fun handed :: "node_output \<Rightarrow> Message list" where
  "handed (OutReady rd) = rdMessages rd"
| "handed out = []"

text \<open>What one round of the loop does to the raft state of a node.\<close>

lemma event_cases:
  assumes top: "loop_top n0 = Inr n1" and en: "enabled ev n1" and ev: "loop_event ev n1 = Inr (n, out)"
  obtains (idle) "rn_raft (n_rn n) = rn_raft (n_rn n0)" "rn_stepsOnAdvance (n_rn n) = rn_stepsOnAdvance (n_rn n0)" "handed out = []"
    | (step) m e where "stepped ev n0 = [m]" "Step m (rn_raft (n_rn n0)) = Inr (rn_raft (n_rn n), e)"
        "ev = EvRecv m \<or> (\<exists>pm. ev = EvProp pm \<and> mType m = mType (pm_m pm))"
        "rn_stepsOnAdvance (n_rn n) = rn_stepsOnAdvance (n_rn n0)" "handed out = []"
    | (tick) "ev = EvTick" "tick (rn_raft (n_rn n0)) = Inr (rn_raft (n_rn n))"
        "rn_stepsOnAdvance (n_rn n) = rn_stepsOnAdvance (n_rn n0)" "handed out = []"
    | (ready) "n_readyc n1" "out = OutReady (n_rd n1)" "rn_raft (n_rn n) = (rn_raft (n_rn n0))\<lparr>r_msgs := [], r_msgsAfterAppend := []\<rparr>"
        "set (rn_stepsOnAdvance (n_rn n)) \<subseteq> set (rn_stepsOnAdvance (n_rn n0)) \<union>
           {m \<in> set (r_msgsAfterAppend (rn_raft (n_rn n0))). mTo m = r_id (rn_raft (n_rn n0))}"
    | (advance) "ev = EvAdvance" "go_foldl (\<lambda>r m. go_bind (Step m r) (\<lambda>(r, _). Inr r)) (rn_raft (n_rn n0))
            (rn_stepsOnAdvance (n_rn n0)) = Inr (rn_raft (n_rn n))" "rn_stepsOnAdvance (n_rn n) = []" "handed out = []"
    | (conf) cc cs where "ev = EvConf cc" "applyConfChange cc (rn_raft (n_rn n0)) = Inr (rn_raft (n_rn n), cs)"
        "rn_stepsOnAdvance (n_rn n) = rn_stepsOnAdvance (n_rn n0)" "handed out = []"
proof -
  have rn: "n_rn n1 = n_rn n0" using loop_top_sel [OF top] by simp
  show ?thesis
  proof (cases ev)
    case (EvProp pm)
    let ?m = "set_mFrom (r_id (rn_raft (n_rn n0))) (pm_m pm)"
    obtain r' e where "Step ?m (rn_raft (n_rn n0)) = Inr (r', e)" "n = set_raft r' n1" "handed out = []"
      using ev EvProp by (auto simp: Let_def rn)
    then show ?thesis using EvProp rn by (intro step [of ?m e]) (simp_all add: set_raft_def)
  next
    case (EvRecv m)
    show ?thesis
    proof (cases "n = n1")
      case True
      then show ?thesis using ev EvRecv rn by (intro idle) (auto simp: Let_def split: if_splits)
    next
      case False
      then obtain r' e where "Step m (rn_raft (n_rn n0)) = Inr (r', e)" "n = set_raft r' n1" "handed out = []"
        using ev EvRecv by (auto simp: Let_def rn split: if_splits)
      then show ?thesis using EvRecv rn by (intro step [of m e]) (simp_all add: set_raft_def)
    qed
  next
    case (EvConf cc)
    then show ?thesis using ev rn by (auto simp: Let_def set_raft_def split: if_splits intro: conf)
  next
    case EvTick
    then show ?thesis using ev rn by (intro tick) (auto simp: RawNode_Tick_def)
  next
    case EvReady
    from ev EvReady obtain rn' where acc: "acceptReady (n_rd n1) (n_rn n1) = Inr rn'" and n: "n_rn n = rn'" "out = OutReady (n_rd n1)"
      by (auto simp: Let_def)
    then show ?thesis using EvReady en rn by (intro ready) (auto simp: acceptReady_Inr split: if_splits)
  next
    case EvAdvance
    then show ?thesis using ev rn by (intro advance) (auto simp: RawNode_Advance_def split: if_splits)
  qed (use ev rn in \<open>auto intro: idle\<close>)
qed

text \<open>What is still offered was offered before.\<close>

lemma event_offer:
  assumes "loop_event ev n1 = Inr (n, out)" and "n_readyc n"
  shows "n_readyc n1 \<and> (n_rd n = n_rd n1 \<or> n_rd n = zeroReady)"
  using assms by (cases ev) (auto simp: Let_def set_raft_def split: if_splits)

section \<open>A sample run\<close>

definition solo_node :: "uint64 \<Rightarrow> node" where
  "solo_node i = newNode (solo_rawnode (solo_raft i))"

definition solo_waiting :: node where
  "solo_waiting = (solo_node 1)\<lparr>n_rn := (n_rn (solo_node 1))\<lparr>rn_raft := solo_candidate\<rparr>\<rparr>"

lemma solo_step1: "loop_step (solo_node 1) (EvRecv (set_mType MsgHup zeroMessage)) OutNone solo_waiting"
proof -
  have "loop_top (solo_node 1) = Inr (solo_node 1)"
    by (simp add: loop_top_def HasReady_def solo_node_def solo_rawnode_def newNode_def solo_raft_def)
  moreover have u: "unknown_response (set_mType MsgHup zeroMessage) (solo_raft 1) = Inr False"
    by (simp add: unknown_response_def IsResponseMsg_def isMsgInArray_nonneg_eq isResponseMsg_def)
  moreover have "loop_event (EvRecv (set_mType MsgHup zeroMessage)) (solo_node 1) = Inr (solo_waiting, OutNone)"
    using solo_campaign u
    by (simp add: solo_waiting_def set_raft_def solo_node_def solo_rawnode_def newNode_def Let_def del: MsgHup_def)
  ultimately show ?thesis
    by (intro loop_step.iteration) (simp_all add: solo_node_def solo_rawnode_def newNode_def del: loop_event.simps)
qed

definition solo_accepted :: node where
  "solo_accepted = solo_waiting\<lparr>n_rd := solo_ready, n_advancec := True,
     n_rn := (n_rn solo_waiting)\<lparr>rn_raft := solo_stored, rn_stepsOnAdvance := [solo_self_vote]\<rparr>\<rparr>"

lemma solo_step2: "loop_step solo_waiting EvReady (OutReady solo_ready) solo_accepted"
proof -
  let ?n = "solo_waiting\<lparr>n_rd := solo_ready, n_readyc := True\<rparr>"
  have "readyWithoutAccept (n_rn solo_waiting) = Inr solo_ready"
    using solo_offers by (simp add: solo_waiting_def solo_node_def solo_rawnode_def newNode_def)
  then have "loop_top solo_waiting = Inr ?n"
    by (simp add: loop_top_def HasReady_def solo_waiting_def solo_node_def solo_rawnode_def newNode_def solo_candidate_def
        solo_raft_def Let_def)
  moreover have "loop_event EvReady ?n = Inr (solo_accepted, OutReady solo_ready)"
    by (simp add: acceptReady_def solo_accepted_def solo_waiting_def solo_node_def solo_rawnode_def newNode_def
        solo_stored_def solo_candidate_def solo_self_vote_def solo_raft_def Let_def)
  ultimately show ?thesis
    by (intro loop_step.iteration) (simp_all add: solo_waiting_def solo_node_def solo_rawnode_def newNode_def del: loop_event.simps)
qed

lemma solo_step3: "\<exists>n. loop_step solo_accepted EvAdvance OutNone n \<and>
  r_state (rn_raft (n_rn n)) = StateLeader \<and> r_Term (rn_raft (n_rn n)) = 2"
proof -
  obtain r' where r': "Step solo_self_vote solo_stored = Inr (r', None)" "r_state r' = StateLeader" "r_Term r' = 2"
    using solo_wins by blast
  let ?n = "solo_accepted\<lparr>n_rn := (n_rn solo_accepted)\<lparr>rn_raft := r', rn_stepsOnAdvance := []\<rparr>,
    n_rd := zeroReady, n_advancec := False\<rparr>"
  have "loop_top solo_accepted = Inr solo_accepted"
    by (simp add: loop_top_def solo_accepted_def solo_waiting_def solo_node_def solo_rawnode_def newNode_def
        solo_stored_def solo_candidate_def solo_raft_def Let_def)
  moreover have "loop_event EvAdvance solo_accepted = Inr (?n, OutNone)"
    using r'(1) by (simp add: RawNode_Advance_def solo_accepted_def solo_waiting_def solo_node_def solo_rawnode_def newNode_def)
  ultimately have "loop_step solo_accepted EvAdvance OutNone ?n"
    by (intro loop_step.iteration) (simp_all add: solo_accepted_def solo_waiting_def solo_node_def solo_rawnode_def newNode_def del: loop_event.simps)
  moreover have "r_state (rn_raft (n_rn ?n)) = StateLeader" "r_Term (rn_raft (n_rn ?n)) = 2" using r' by simp_all
  ultimately show ?thesis by blast
qed

section \<open>Properties\<close>

text \<open>C36: the run loop never accepts a second \<open>Ready\<close> before \<open>Advance\<close>: in every state it can reach, taking
  an offered \<open>Ready\<close> succeeds.\<close>

theorem ready_accepted_once:
  assumes "loop_run (newNode rn) n" and "rn_stepsOnAdvance rn = []" and "loop_top n = Inr n1"
    and "enabled EvReady n1"
  shows "\<exists>n'. loop_event EvReady n1 = Inr (n', OutReady (n_rd n1)) \<and> \<not> n_readyc n'"
proof -
  have "handshake n1" using assms handshake_new handshake_run handshake_top by blast
  then have "rn_stepsOnAdvance (n_rn n1) = []" using assms(4) by (simp add: handshake_def)
  then obtain rn' where "acceptReady (n_rd n1) (n_rn n1) = Inr rn'" by (simp add: acceptReady_Inr)
  then show ?thesis by (cases "rn_async rn'") (simp_all add: Let_def)
qed

theorem ready_accepted_once_witness:
  "\<exists>n1 n'. loop_top solo_waiting = Inr n1 \<and> loop_event EvReady n1 = Inr (n', OutReady (n_rd n1)) \<and>
    \<not> n_readyc n'"
proof -
  have "loop_run (newNode (n_rn (solo_node 1))) solo_waiting"
    using loop_run.step [OF loop_run.start solo_step1] by (simp add: solo_node_def solo_rawnode_def newNode_def)
  moreover obtain n1 where n1: "loop_top solo_waiting = Inr n1" "enabled EvReady n1"
    using solo_step2 by (elim loop_stepE)
  ultimately show ?thesis
    using ready_accepted_once [of "n_rn (solo_node 1)" solo_waiting n1] by (auto simp: solo_node_def solo_rawnode_def newNode_def)
qed

text \<open>C37: a proposal never learns its outcome: from the call of \<open>Propose\<close> on, whatever the run loop does,
  the call returns only because its context ended or the node stopped, since the message is
  handed over with a nil result channel and the channel the caller then waits on is never
  written.\<close>

theorem propose_never_answered:
  assumes "system_step\<^sup>*\<^sup>* (n, node_Propose d) (n', c)"
  shows "(\<forall>err. c \<noteq> Returned (Some (StepFailed err))) \<and> c \<noteq> Returned None"
proof -
  define I where "I c \<longleftrightarrow> (\<exists>m. c = SendProp m True) \<or> (\<exists>ch. c = AwaitResult (Some ch)) \<or>
    c = Returned (Some CtxErr) \<or> c = Returned (Some ErrStopped)" for c
  have none: "out = OutProp None" if "loop_step k (EvProp \<lparr>pm_m = m, pm_result = None\<rparr>) out k'" for k m out k'
    using that by (auto simp: Let_def elim!: loop_stepE)
  have step: "I (snd s')" if "system_step s s'" "I (snd s)" for s s'
    using that unfolding I_def
    by (cases rule: system_step.cases) (auto elim!: client_stepE dest: none)
  have "I (snd s')" if "system_step\<^sup>*\<^sup>* s s'" "I (snd s)" for s s'
    using that by (induction rule: rtranclp_induct) (auto dest: step)
  moreover have "I (node_Propose d)" by (simp add: I_def node_Propose_def stepWithWaitOption_def)
  ultimately have "I c" using assms by fastforce
  then show ?thesis by (auto simp: I_def)
qed

theorem propose_never_answered_witness:
  "\<exists>s. system_step\<^sup>*\<^sup>* (solo_node 1, node_Propose None) s \<and> snd s = Returned (Some CtxErr) \<and> snd s \<noteq> Returned None"
proof -
  have "system_step (solo_node 1, node_Propose None) (solo_node 1, Returned (Some CtxErr))"
    by (intro give_up) (simp add: node_Propose_def stepWithWaitOption_def send_ctx)
  then have r: "system_step\<^sup>*\<^sup>* (solo_node 1, node_Propose None) (solo_node 1, Returned (Some CtxErr))" by blast
  show ?thesis using propose_never_answered [OF r] r by auto
qed

end
