(* ===== verification/Raft_Cluster.thy ===== *)
theory Raft_Cluster
  imports Node_Loop
begin

text \<open>
  Many nodes and a network.  Every node runs the loop of \<open>Node_Loop\<close>; a message of a \<open>Ready\<close> enters
  the network and may afterwards be delivered to its addressee any number of times, in any order,
  or never.  The configuration of voters is fixed, neither terms nor log indices run out, and a
  node does not restart.  The history records every message handed over and every (term, node) at which a node
  was seen as leader.  The theorem is election safety.
\<close>

section \<open>The system\<close>

record cluster =
  cl_nodes :: "uint64 \<Rightarrow> node"
  cl_net :: "Message set"
  cl_sent :: "Message set"
  cl_leaders :: "(uint64 \<times> uint64) set"

definition raft_of :: "cluster \<Rightarrow> uint64 \<Rightarrow> raft" where
  "raft_of c i = rn_raft (n_rn (cl_nodes c i))"

text \<open>What the application itself puts into a loop: the messages of \<open>Campaign\<close>, \<open>TransferLeadership\<close> and
  \<open>ReportUnreachable\<close>.\<close>

definition local_input :: "Message \<Rightarrow> bool" where
  "local_input m \<longleftrightarrow> m = set_mType MsgHup zeroMessage \<or> (\<exists>l t. m = transfer_message l t) \<or>
     (\<exists>i. m = unreachable_message i)"

fun allowed :: "cluster \<Rightarrow> uint64 \<Rightarrow> node_event \<Rightarrow> bool" where
  "allowed c i (EvRecv m) \<longleftrightarrow> m \<in> cl_net c \<and> mTo m = i \<or> local_input m"
| "allowed c i (EvProp pm) \<longleftrightarrow> mType (pm_m pm) = MsgProp"
| "allowed c i (EvConf cc) \<longleftrightarrow> False"
| "allowed c i ev \<longleftrightarrow> True"

text \<open>Neither terms nor log indices run out while the messages are stepped.\<close>

fun numbers_left :: "Message list \<Rightarrow> raft \<Rightarrow> bool" where
  "numbers_left [] r \<longleftrightarrow> r_Term r \<noteq> - 1"
| "numbers_left (m # ms) r \<longleftrightarrow> r_Term r \<noteq> - 1 \<and> int (length (ulog r)) < 2 ^ 62 \<and> mTerm m \<noteq> - 1 \<and>
     (case Step m r of Inl p \<Rightarrow> True | Inr x \<Rightarrow> numbers_left ms (fst x))"

definition put_node :: "uint64 \<Rightarrow> node \<Rightarrow> node_output \<Rightarrow> cluster \<Rightarrow> cluster" where
  "put_node i n out c =
     c\<lparr>cl_nodes := (cl_nodes c)(i := n),
       cl_net := cl_net c \<union> set (handed out),
       cl_sent := cl_sent c \<union> set (handed out) \<union> set (rn_stepsOnAdvance (n_rn n)),
       cl_leaders := cl_leaders c \<union>
         (if r_state (rn_raft (n_rn n)) = StateLeader then {(r_Term (rn_raft (n_rn n)), i)} else {})\<rparr>"

inductive cluster_step :: "JointConfig \<Rightarrow> cluster \<Rightarrow> cluster \<Rightarrow> bool" for C where
  event: "\<lbrakk>i \<noteq> 0; loop_step (cl_nodes c i) ev out n; allowed c i ev;
      numbers_left (stepped ev (cl_nodes c i)) (raft_of c i)\<rbrakk> \<Longrightarrow>
    cluster_step C c (put_node i n out c)"
| conf: "\<lbrakk>i \<noteq> 0; loop_step (cl_nodes c i) (EvConf cc) out n;
      cfgVoters (trkConfig (r_trk (rn_raft (n_rn n)))) = C\<rbrakk> \<Longrightarrow>
    cluster_step C c (put_node i n out c)"
| store: "\<lbrakk>i \<noteq> 0; r = raft_of c i; Storage_Append es (l_storage (r_raftLog r)) = Inr st\<rbrakk> \<Longrightarrow>
    cluster_step C c (put_node i (set_raft (r\<lparr>r_raftLog := (r_raftLog r)\<lparr>l_storage := st\<rparr>\<rparr>) (cl_nodes c i)) OutNone c)"
| clock: "\<lbrakk>i \<noteq> 0; node_Tick (cl_nodes c i) n\<rbrakk> \<Longrightarrow> cluster_step C c (put_node i n OutNone c)"

inductive_cases cluster_stepE: "cluster_step C c c'"

text \<open>A node just set up: a follower in the common configuration, with the bootstrap entries as its log, that
  has sent nothing.\<close>

definition fresh_node :: "Entry list \<Rightarrow> JointConfig \<Rightarrow> uint64 \<Rightarrow> node \<Rightarrow> bool" where
  "fresh_node B C i n \<longleftrightarrow>
     (let r = rn_raft (n_rn n) in
      n = newNode (n_rn n) \<and> rn_stepsOnAdvance (n_rn n) = [] \<and> \<not> rn_async (n_rn n) \<and>
      r_id r = i \<and> settled B r \<and> ulog r = B \<and> role_ok r \<and> r_state r = StateFollower \<and> r_msgs r = [] \<and> r_msgsAfterAppend r = [] \<and>
      cfgVoters (trkConfig (r_trk r)) = C)"

definition initial :: "Entry list \<Rightarrow> JointConfig \<Rightarrow> cluster \<Rightarrow> bool" where
  "initial B C c \<longleftrightarrow> (\<forall>i. i \<noteq> 0 \<longrightarrow> fresh_node B C i (cl_nodes c i)) \<and>
     cl_net c = {} \<and> cl_sent c = {} \<and> cl_leaders c = {}"

inductive reachable :: "Entry list \<Rightarrow> JointConfig \<Rightarrow> cluster \<Rightarrow> bool" for B C where
  init: "initial B C c \<Longrightarrow> reachable B C c"
| step: "\<lbrakk>reachable B C c; cluster_step C c c'\<rbrakk> \<Longrightarrow> reachable B C c'"

section \<open>The invariant\<close>

text \<open>\<open>cert S t i\<close>: votes that win the configuration were sent to \<open>i\<close> for the term \<open>t\<close>.\<close>

definition granted_by :: "Message set \<Rightarrow> uint64 \<Rightarrow> uint64 \<Rightarrow> uint64 \<Rightarrow> bool" where
  "granted_by S t i j \<longleftrightarrow> (\<exists>m \<in> S. grant m \<and> mFrom m = j \<and> mTo m = i \<and> mTerm m = t)"

definition cert :: "JointConfig \<Rightarrow> Message set \<Rightarrow> uint64 \<Rightarrow> uint64 \<Rightarrow> bool" where
  "cert C S t i \<longleftrightarrow> (\<exists>vs. Joint_VoteResult C vs = VoteWon \<and>
     (\<forall>j. fmlookup vs j = Some True \<longrightarrow> granted_by S t i j))"

definition grants :: "(uint64 \<Rightarrow> raft) \<Rightarrow> Message set \<Rightarrow> Message set" where
  "grants R S = {m. grant m \<and> (m \<in> S \<or> (\<exists>i. i \<noteq> 0 \<and> m \<in> set (r_msgsAfterAppend (R i))))}"

definition one_vote :: "(uint64 \<Rightarrow> raft) \<Rightarrow> Message set \<Rightarrow> bool" where
  "one_vote R S \<longleftrightarrow>
     (\<forall>m \<in> grants R S. mFrom m \<noteq> 0 \<and> mTo m \<noteq> 0 \<and> mTerm m \<noteq> 0 \<and> mTerm m \<le> r_Term (R (mFrom m)) \<and>
        (mTerm m = r_Term (R (mFrom m)) \<longrightarrow> r_Vote (R (mFrom m)) = mTo m)) \<and>
     (\<forall>m \<in> grants R S. \<forall>m' \<in> grants R S. mFrom m = mFrom m' \<and> mTerm m = mTerm m' \<longrightarrow> mTo m = mTo m')"

definition count_ok :: "JointConfig \<Rightarrow> Message set \<Rightarrow> uint64 \<Rightarrow> raft \<Rightarrow> bool" where
  "count_ok C S i r \<longleftrightarrow>
     (r_state r = StateCandidate \<longrightarrow>
        (\<forall>j. fmlookup (trkVotes (r_trk r)) j = Some True \<longrightarrow> granted_by S (r_Term r) i j)) \<and>
     (r_state r = StateLeader \<longrightarrow> cert C S (r_Term r) i)"

definition node_inv :: "Entry list \<Rightarrow> JointConfig \<Rightarrow> Message set \<Rightarrow> uint64 \<Rightarrow> raft \<Rightarrow> bool" where
  "node_inv B C S i r \<longleftrightarrow> r_id r = i \<and> settled B r \<and> role_ok r \<and> cfgVoters (trkConfig (r_trk r)) = C \<and>
     (\<forall>m \<in> set (r_msgs r). \<not> grant m) \<and> count_ok C S i r"

definition election_inv :: "Entry list \<Rightarrow> JointConfig \<Rightarrow> (uint64 \<Rightarrow> raft) \<Rightarrow> Message set \<Rightarrow> bool" where
  "election_inv B C R S \<longleftrightarrow> (\<forall>i. i \<noteq> 0 \<longrightarrow> node_inv B C S i (R i)) \<and> one_vote R S \<and>
     (\<forall>m \<in> S. sound_msg (of_nat (length B)) m)"

lemma granted_by_mono: "\<lbrakk>granted_by S t i j; S \<subseteq> S'\<rbrakk> \<Longrightarrow> granted_by S' t i j"
  by (auto simp: granted_by_def)

lemma cert_mono: "\<lbrakk>cert C S t i; S \<subseteq> S'\<rbrakk> \<Longrightarrow> cert C S' t i"
  unfolding cert_def using granted_by_mono by blast

lemma count_ok_mono: "\<lbrakk>count_ok C S i r; S \<subseteq> S'\<rbrakk> \<Longrightarrow> count_ok C S' i r"
  unfolding count_ok_def using granted_by_mono cert_mono by blast

lemma one_vote_same:
  "\<lbrakk>one_vote R S; m \<in> grants R S; m' \<in> grants R S; mFrom m = mFrom m'; mTerm m = mTerm m'\<rbrakk> \<Longrightarrow>
     mTo m = mTo m'"
  unfolding one_vote_def by blast

text \<open>Two certificates for one term name the same node.\<close>

lemma cert_unique:
  assumes "one_vote R S" and "Joint_IDs C \<noteq> {||}" and "cert C S t i" and "cert C S t j"
  shows "i = j"
proof -
  from assms(3,4) obtain vs ws where
    vs: "Joint_VoteResult C vs = VoteWon" "\<And>k. fmlookup vs k = Some True \<Longrightarrow> granted_by S t i k" and
    ws: "Joint_VoteResult C ws = VoteWon" "\<And>k. fmlookup ws k = Some True \<Longrightarrow> granted_by S t j k"
    unfolding cert_def by blast
  obtain k where "fmlookup vs k = Some True" "fmlookup ws k = Some True"
    using joint.overlap [OF assms(2) vs(1) ws(1)] by blast
  then obtain m m' where m: "m \<in> S" "grant m" "mFrom m = k" "mTo m = i" "mTerm m = t"
      and m': "m' \<in> S" "grant m'" "mFrom m' = k" "mTo m' = j" "mTerm m' = t"
    using vs(2) ws(2) unfolding granted_by_def by blast
  then have "m \<in> grants R S" "m' \<in> grants R S" by (simp_all add: grants_def)
  from one_vote_same [OF assms(1) this] show ?thesis using m m' by simp
qed

section \<open>One node takes a step\<close>

lemma one_vote_change:
  assumes inv: "one_vote R S" and i: "i \<noteq> 0" "r_id (R i) = i" and kept: "votes_kept (R i) r'"
  shows "one_vote (R(i := r')) S"
proof -
  let ?r = "R i"
  from kept obtain ms as where as: "r_msgsAfterAppend r' = r_msgsAfterAppend ?r @ as"
      and new: "new_grants ?r r' (set as)" and mono: "r_Term ?r \<le> r_Term r'"
      and stay: "r_Term r' = r_Term ?r \<and> r_Vote ?r \<noteq> 0 \<longrightarrow> r_Vote r' = r_Vote ?r"
    unfolding votes_kept_def by blast
  have split: "m \<in> grants R S \<or> m \<in> set as \<and> grant m" if "m \<in> grants (R(i := r')) S" for m
    using that as unfolding grants_def by (auto split: if_splits)
  have old: "mFrom m \<noteq> 0 \<and> mTo m \<noteq> 0 \<and> mTerm m \<noteq> 0 \<and> mTerm m \<le> r_Term (R (mFrom m)) \<and>
      (mTerm m = r_Term (R (mFrom m)) \<longrightarrow> r_Vote (R (mFrom m)) = mTo m)" if "m \<in> grants R S" for m
    using inv that unfolding one_vote_def by blast
  have fresh: "mFrom m = i \<and> mTo m \<noteq> 0 \<and> mTerm m \<noteq> 0 \<and> r_Term ?r \<le> mTerm m \<and> mTerm m \<le> r_Term r' \<and>
      (mTerm m = r_Term r' \<longrightarrow> r_Vote r' = mTo m) \<and>
      (mTerm m = r_Term ?r \<and> r_Vote ?r \<noteq> 0 \<longrightarrow> mTo m = r_Vote ?r)" if "m \<in> set as" "grant m" for m
    using new that i(2) unfolding new_grants_def by metis
  have cross: "mTo m = mTo m'" if "m \<in> grants R S" "m' \<in> set as" "grant m'" "mFrom m = mFrom m'" "mTerm m = mTerm m'"
    for m m'
  proof -
    note o = old [OF that(1)] and f = fresh [OF that(2,3)]
    have "mFrom m = i" using f that(4) by simp
    then have "mTerm m \<le> r_Term ?r" "r_Term ?r \<le> mTerm m" using o f that(5) by simp_all
    then have "mTerm m = r_Term ?r" by (rule order_antisym)
    then show ?thesis using o f that(5) \<open>mFrom m = i\<close> by simp
  qed
  show ?thesis
    unfolding one_vote_def
  proof (intro conjI ballI impI)
    fix m assume m: "m \<in> grants (R(i := r')) S"
    have old': "mTerm m \<le> r_Term ((R(i := r')) (mFrom m)) \<and>
        (mTerm m = r_Term ((R(i := r')) (mFrom m)) \<longrightarrow> r_Vote ((R(i := r')) (mFrom m)) = mTo m)"
      if "m \<in> grants R S"
    proof (cases "mFrom m = i")
      case True
      have o: "mTerm m \<le> r_Term ?r" "mTerm m = r_Term ?r \<Longrightarrow> r_Vote ?r = mTo m" "mTo m \<noteq> 0"
        using old [OF that] True by simp_all
      have "r_Vote r' = mTo m" if "mTerm m = r_Term r'"
        using o mono stay that by (metis order_antisym)
      then show ?thesis using o(1) mono True by (auto intro: order_trans)
    next
      case False
      then show ?thesis using old [OF that] by simp
    qed
    have all: "mFrom m \<noteq> 0 \<and> mTo m \<noteq> 0 \<and> mTerm m \<noteq> 0 \<and> mTerm m \<le> r_Term ((R(i := r')) (mFrom m)) \<and>
        (mTerm m = r_Term ((R(i := r')) (mFrom m)) \<longrightarrow> r_Vote ((R(i := r')) (mFrom m)) = mTo m)"
      using split [OF m]
    proof
      assume "m \<in> grants R S"
      then show ?thesis using old old' by blast
    next
      assume "m \<in> set as \<and> grant m"
      then show ?thesis using fresh [of m] i(1) by (elim conjE) simp
    qed
    show "mFrom m \<noteq> 0" "mTo m \<noteq> 0" "mTerm m \<noteq> 0" "mTerm m \<le> r_Term ((R(i := r')) (mFrom m))"
      using all by iprover+
    show "r_Vote ((R(i := r')) (mFrom m)) = mTo m" if "mTerm m = r_Term ((R(i := r')) (mFrom m))"
      using all that by iprover
  next
    fix m m' assume m: "m \<in> grants (R(i := r')) S" "m' \<in> grants (R(i := r')) S"
      and eq: "mFrom m = mFrom m' \<and> mTerm m = mTerm m'"
    have both_old: "mTo m = mTo m'" if "m \<in> grants R S" "m' \<in> grants R S"
      using inv that eq unfolding one_vote_def by blast
    have both_new: "mTo m = mTo m'" if "m \<in> set as" "grant m" "m' \<in> set as" "grant m'"
      using new that eq unfolding new_grants_def by blast
    show "mTo m = mTo m'"
      using split [OF m(1)] split [OF m(2)] both_old both_new cross eq by metis
  qed
qed

lemma election_inv_change:
  assumes inv: "election_inv B C R S" and i: "i \<noteq> 0" and kept: "votes_kept (R i) r'"
    and r': "settled B r'" "role_ok r'" "cfgVoters (trkConfig (r_trk r')) = C" "count_ok C S i r'"
  shows "election_inv B C (R(i := r')) S"
proof -
  have n: "node_inv B C S i (R i)" using inv i by (simp add: election_inv_def)
  from kept obtain ms where "r_id r' = r_id (R i)" "r_msgs r' = r_msgs (R i) @ ms" "\<forall>m \<in> set ms. \<not> grant m"
    unfolding votes_kept_def by blast
  then have "node_inv B C S i r'" using n r' by (auto simp: node_inv_def)
  moreover have "one_vote (R(i := r')) S"
    using inv n i kept by (intro one_vote_change) (simp_all add: election_inv_def node_inv_def)
  ultimately show ?thesis using inv by (simp add: election_inv_def)
qed

text \<open>A counted response is a vote that was sent.\<close>

lemma votes_with_lookup:
  "fmlookup (votes_with m r) j = Some True \<Longrightarrow>
     fmlookup (trkVotes (r_trk r)) j = Some True \<or> j = mFrom m \<and> \<not> mReject m"
  by (auto simp: votes_with_def RecordVote_lookup split: if_splits)

lemma count_ok_step:
  assumes role: "step_role m r r'" and ok: "count_ok C S i r" and conf: "cfgVoters (trkConfig (r_trk r)) = C"
    and one: "one_vote R S" and vote: "mType m = MsgVoteResp \<Longrightarrow> \<not> mReject m \<Longrightarrow> m \<in> S \<and> mTo m = i"
  shows "count_ok C S i r'"
proof -
  have with_votes: "granted_by S (r_Term r) i j"
    if "counted m r" "fmlookup (votes_with m r) j = Some True" for j
  proof (cases "fmlookup (trkVotes (r_trk r)) j = Some True")
    case True
    then show ?thesis using ok that(1) by (simp add: count_ok_def counted_def)
  next
    case False
    then have j: "j = mFrom m" "\<not> mReject m" using votes_with_lookup [OF that(2)] by blast+
    have m: "m \<in> S" "mTo m = i" "grant m" using vote that(1) j(2) by (simp_all add: counted_def grant_def)
    then have "m \<in> grants R S" by (simp add: grants_def)
    then have "mTerm m \<noteq> 0" using one unfolding one_vote_def by blast
    then have "mTerm m = r_Term r" using that(1) by (simp add: counted_def)
    then show ?thesis using m j by (auto simp: granted_by_def)
  qed
  have "cert C S (r_Term r) i"
    if "counted m r" "Joint_VoteResult (cfgVoters (trkConfig (r_trk r))) (votes_with m r) = VoteWon"
    using that with_votes unfolding cert_def conf by blast
  then show ?thesis
    using role ok with_votes unfolding step_role_def count_ok_def by auto
qed

lemma sound_wire: "\<lbrakk>sound_msg K m; mTerm m \<noteq> - 1\<rbrakk> \<Longrightarrow> wire_ok m"
  by (auto simp: sound_msg_def wire_ok_def)

lemma election_inv_Step:
  assumes inv: "election_inv B C R S" and i: "i \<noteq> 0" and s: "Step m (R i) = Inr (r', e)"
    and w: "sound_msg (of_nat (length B)) m" "r_Term (R i) \<noteq> - 1" "mTerm m \<noteq> - 1"
    and vote: "mType m = MsgVoteResp \<Longrightarrow> \<not> mReject m \<Longrightarrow> m \<in> S \<and> mTo m = i"
  shows "election_inv B C (R(i := r')) S"
proof -
  have n: "node_inv B C S i (R i)" using inv i by (simp add: election_inv_def)
  have role: "step_role m (R i) r'" using Step_role [OF s] n by (simp add: node_inv_def)
  have "count_ok C S i r'"
    using inv n by (intro count_ok_step [OF role _ _ _ vote]) (auto simp: election_inv_def node_inv_def)
  moreover have "votes_kept (R i) r'"
    by (rule Step_votes [OF s sound_wire [OF w(1,3)] _ w(2)]) (use n i in \<open>simp add: node_inv_def\<close>)
  moreover have "settled B r'" by (rule settled.keep_Step [OF s _ w]) (use n in \<open>simp add: node_inv_def\<close>)
  moreover have "role_ok r'" "cfgVoters (trkConfig (r_trk r')) = C"
    using role n by (simp_all add: step_role_def same_conf_def node_inv_def)
  ultimately show ?thesis using inv i by (intro election_inv_change)
qed

lemma election_inv_tick:
  assumes inv: "election_inv B C R S" and i: "i \<noteq> 0" and s: "tick (R i) = Inr r'" and t: "r_Term (R i) \<noteq> - 1"
  shows "election_inv B C (R(i := r')) S"
proof -
  have n: "node_inv B C S i (R i)" using inv i by (simp add: election_inv_def)
  obtain m where m: "mType m \<noteq> MsgVoteResp" "step_role m (R i) r'"
    using tick_role [OF s] n by (auto simp: node_inv_def)
  have "count_ok C S i r'"
    using inv n m(1) by (intro count_ok_step [OF m(2)]) (auto simp: election_inv_def node_inv_def)
  moreover have "votes_kept (R i) r'" by (rule tick_votes [OF s _ t]) (use n i in \<open>simp add: node_inv_def\<close>)
  moreover have "settled B r'" by (rule settled.keep_tick [OF s _ t]) (use n in \<open>simp add: node_inv_def\<close>)
  moreover have "role_ok r'" "cfgVoters (trkConfig (r_trk r')) = C"
    using m(2) n by (simp_all add: step_role_def same_conf_def node_inv_def)
  ultimately show ?thesis using inv i by (intro election_inv_change)
qed

lemma election_inv_conf:
  assumes inv: "election_inv B C R S" and i: "i \<noteq> 0" and s: "applyConfChange cc (R i) = Inr (r', cs)"
    and same: "cfgVoters (trkConfig (r_trk r')) = C"
  shows "election_inv B C (R(i := r')) S"
proof -
  have n: "node_inv B C S i (R i)" using inv i by (simp add: election_inv_def)
  obtain cfg trk where sw: "switchToConfig cfg trk (R i) = Inr (r', cs)" using applyConfChange_switch [OF s] .
  have ok: "role_ok (R i)" using n by (simp add: node_inv_def)
  note sel = switchToConfig_role [OF sw ok]
  have "count_ok C S i r'"
    using sel(3,5) n by (auto simp: count_ok_def node_inv_def)
  then show ?thesis
    using inv i sel(1) same applyConfChange_votes [OF s] settled.keep_applyConfChange [OF s] n
    by (intro election_inv_change) (simp_all add: node_inv_def)
qed

text \<open>Handing over the queues of a node.\<close>

lemma election_inv_ready:
  assumes inv: "election_inv B C R S" and i: "i \<noteq> 0"
    and S': "S \<subseteq> S'" "S' \<subseteq> S \<union> set (r_msgs (R i)) \<union> set (r_msgsAfterAppend (R i))"
  shows "election_inv B C (R(i := (R i)\<lparr>r_msgs := [], r_msgsAfterAppend := []\<rparr>)) S'"
proof -
  let ?r = "(R i)\<lparr>r_msgs := [], r_msgsAfterAppend := []\<rparr>"
  have n: "node_inv B C S j (R j)" if "j \<noteq> 0" for j using inv that by (simp add: election_inv_def)
  have "grants (R(i := ?r)) S' \<subseteq> grants R S"
    using S' n [OF i] i unfolding grants_def node_inv_def by (auto split: if_splits)
  moreover have "one_vote R S" using inv by (simp add: election_inv_def)
  moreover have "r_Term ((R(i := ?r)) j) = r_Term (R j)" "r_Vote ((R(i := ?r)) j) = r_Vote (R j)" for j by simp_all
  ultimately have "one_vote (R(i := ?r)) S'" unfolding one_vote_def by (simp add: subset_eq)
  moreover have "node_inv B C S' j ((R(i := ?r)) j)" if "j \<noteq> 0" for j
  proof (cases "j = i")
    case True
    have "count_ok C S' i (R i)" using n [OF i] by (intro count_ok_mono [OF _ S'(1)]) (simp add: node_inv_def)
    then have "count_ok C S' i ?r" by (simp add: count_ok_def)
    moreover have "role_ok ?r" using n [OF i] by (simp add: node_inv_def role_ok_def)
    moreover have "settled B ?r" using n [OF i] by (simp add: node_inv_def settled_handed)
    ultimately show ?thesis using n [OF i] True by (simp add: node_inv_def)
  next
    case False
    then show ?thesis using n [OF that] count_ok_mono [OF _ S'(1)] by (simp add: node_inv_def)
  qed
  moreover have "\<forall>m \<in> S'. sound_msg (of_nat (length B)) m"
    using S'(2) inv n [OF i] by (auto simp: election_inv_def node_inv_def settled_def)
  ultimately show ?thesis by (simp add: election_inv_def)
qed

section \<open>The cluster takes a step\<close>

text \<open>The messages of an offered \<open>Ready\<close> are still queued in the node, and the entries it calls committed are
  bootstrap entries.\<close>

definition offers :: "Entry list \<Rightarrow> node \<Rightarrow> bool" where
  "offers B n \<longleftrightarrow> (n_readyc n \<longrightarrow> window B (rdCommittedEntries (n_rd n)) \<and> set (rdMessages (n_rd n)) \<subseteq>
     set (r_msgs (rn_raft (n_rn n))) \<union> set (r_msgsAfterAppend (rn_raft (n_rn n))))"

definition cluster_inv :: "Entry list \<Rightarrow> JointConfig \<Rightarrow> cluster \<Rightarrow> bool" where
  "cluster_inv B C c \<longleftrightarrow> election_inv B C (raft_of c) (cl_sent c) \<and> cl_net c \<subseteq> cl_sent c \<and>
     (\<forall>i. i \<noteq> 0 \<longrightarrow> offers B (cl_nodes c i) \<and>
        (\<forall>m \<in> set (rn_stepsOnAdvance (n_rn (cl_nodes c i))). m \<in> cl_sent c \<and> mTo m = i)) \<and>
     (\<forall>(t, i) \<in> cl_leaders c. cert C (cl_sent c) t i)"

lemma raft_of_put [simp]: "raft_of (put_node i n out c) = (raft_of c)(i := rn_raft (n_rn n))"
  by (auto simp: raft_of_def put_node_def)

lemma put_node_inv:
  assumes inv: "cluster_inv B C c" and i: "i \<noteq> 0"
    and el: "election_inv B C ((raft_of c)(i := rn_raft (n_rn n))) (cl_sent (put_node i n out c))"
    and steps: "\<forall>m \<in> set (rn_stepsOnAdvance (n_rn n)). mTo m = i" and off: "offers B n"
  shows "cluster_inv B C (put_node i n out c)"
proof -
  let ?c = "put_node i n out c"
  have sub: "cl_sent c \<subseteq> cl_sent ?c" by (auto simp: put_node_def)
  have "cert C (cl_sent ?c) t j" if "(t, j) \<in> cl_leaders ?c" for t j
  proof (cases "(t, j) \<in> cl_leaders c")
    case True
    then have "cert C (cl_sent c) t j" using inv unfolding cluster_inv_def by auto
    then show ?thesis using sub by (rule cert_mono)
  next
    case False
    then have l: "r_state (rn_raft (n_rn n)) = StateLeader" "t = r_Term (rn_raft (n_rn n))" "j = i"
      using that by (auto simp: put_node_def split: if_splits)
    have "node_inv B C (cl_sent ?c) i (((raft_of c)(i := rn_raft (n_rn n))) i)"
      using el i unfolding election_inv_def by blast
    then show ?thesis using l by (simp add: node_inv_def count_ok_def)
  qed
  moreover have "m \<in> cl_sent ?c \<and> mTo m = j"
    if "j \<noteq> 0" "m \<in> set (rn_stepsOnAdvance (n_rn (cl_nodes ?c j)))" for j m
  proof (cases "j = i")
    case True
    then show ?thesis using that(2) steps by (simp add: put_node_def)
  next
    case False
    then have "m \<in> cl_sent c \<and> mTo m = j" using that inv by (simp add: cluster_inv_def put_node_def)
    then show ?thesis using sub by blast
  qed
  moreover have "offers B (cl_nodes ?c j)" if "j \<noteq> 0" for j
    using that off inv by (simp add: cluster_inv_def put_node_def)
  moreover have "cl_net ?c \<subseteq> cl_sent ?c" using inv by (auto simp: cluster_inv_def put_node_def)
  ultimately show ?thesis using el unfolding cluster_inv_def raft_of_put by blast
qed

text \<open>A step that changes only the raft state of a node, by an operation that keeps votes.\<close>

lemma put_raft_inv:
  assumes inv: "cluster_inv B C c" and i: "i \<noteq> 0"
    and el: "election_inv B C ((raft_of c)(i := rn_raft (n_rn n))) (cl_sent c)"
    and kept: "votes_kept (raft_of c i) (rn_raft (n_rn n))"
    and same: "set (rn_stepsOnAdvance (n_rn n)) \<subseteq> set (rn_stepsOnAdvance (n_rn (cl_nodes c i)))"
    and off: "n_readyc n \<Longrightarrow> window B (rdCommittedEntries (n_rd n)) \<and> set (rdMessages (n_rd n)) \<subseteq> set (r_msgs (raft_of c i)) \<union> set (r_msgsAfterAppend (raft_of c i))"
    and out: "handed out = []"
  shows "cluster_inv B C (put_node i n out c)"
proof -
  have old: "\<forall>m \<in> set (rn_stepsOnAdvance (n_rn (cl_nodes c i))). m \<in> cl_sent c \<and> mTo m = i"
    using inv i by (simp add: cluster_inv_def)
  have "cl_sent (put_node i n out c) = cl_sent c" using old same out by (auto simp: put_node_def)
  moreover have "offers B n" using kept off unfolding offers_def votes_kept_def by auto
  ultimately show ?thesis using inv i el old same by (intro put_node_inv) auto
qed

text \<open>Stepping a sequence of messages.\<close>

lemma election_inv_steps:
  assumes "go_foldl (\<lambda>r m. go_bind (Step m r) (\<lambda>(r, _). Inr r)) r ms = Inr r'"
    and "election_inv B C (R(i := r)) S" and "i \<noteq> 0" and "numbers_left ms r"
    and "\<forall>m \<in> set ms. m \<in> S \<and> mTo m = i"
  shows "election_inv B C (R(i := r')) S \<and> votes_kept r r'"
  using assms
proof (induction ms arbitrary: r)
  case (Cons m ms)
  then obtain s e where s: "Step m r = Inr (s, e)"
      and rest: "go_foldl (\<lambda>r m. go_bind (Step m r) (\<lambda>(r, _). Inr r)) s ms = Inr r'" by auto
  have id: "r_id r = i" using Cons.prems(2,3) unfolding election_inv_def node_inv_def by (metis fun_upd_same)
  have snd: "sound_msg (of_nat (length B)) m" using Cons.prems(2,5) by (simp add: election_inv_def)
  have "election_inv B C ((R(i := r))(i := s)) S"
    by (rule election_inv_Step [OF Cons.prems(2,3) _ snd]) (use s Cons.prems(4,5) in auto)
  then have "election_inv B C (R(i := s)) S" by simp
  moreover have "numbers_left ms s" using Cons.prems(4) s by simp
  ultimately have "election_inv B C (R(i := r')) S \<and> votes_kept s r'"
    using Cons.IH [OF rest] Cons.prems(3,5) by (metis list.set_intros(2))
  moreover have "votes_kept r s" by (rule Step_votes [OF s sound_wire [OF snd]]) (use Cons.prems(3,4) id in auto)
  ultimately show ?case using votes_kept_trans by blast
qed simp

lemma local_input_type: "local_input m \<Longrightarrow> mType m \<notin> {MsgApp, MsgHeartbeat, MsgSnap, MsgVote, MsgVoteResp}"
  by (auto simp: local_input_def transfer_message_def unreachable_message_def)

lemma loop_top_offers:
  assumes a: "loop_top n = Inr n1" and o: "offers B n" and st: "settled B (rn_raft (n_rn n))"
  shows "offers B n1"
proof -
  have same: "n_rn n1 = n_rn n" using loop_top_sel [OF a] by simp
  show ?thesis
  proof (cases "\<not> n_advancec n \<and> HasReady (n_rn n)")
    case True
    then obtain rd where rd: "readyWithoutAccept (n_rn n) = Inr rd"
      using a unfolding loop_top_def by (cases "readyWithoutAccept (n_rn n)") simp_all
    then have "n_rd n1 = rd" using a True by (auto simp: loop_top_def Let_def split: if_splits)
    then show ?thesis using readyWithoutAccept_messages [OF rd] settled_ready [OF rd st] by (auto simp: offers_def same)
  next
    case False
    then have "n_rd n1 = n_rd n" "n_readyc n1 = n_readyc n"
      using a by (auto simp: loop_top_def Let_def simp del: de_Morgan_conj split: if_splits)
    then show ?thesis using o by (simp add: offers_def same)
  qed
qed

lemma event_inv:
  assumes inv: "cluster_inv B C c" and i: "i \<noteq> 0" and top: "loop_top (cl_nodes c i) = Inr n1"
    and en: "enabled ev n1" and ev: "loop_event ev n1 = Inr (n, out)"
    and ok: "(\<And>cc. ev \<noteq> EvConf cc) \<Longrightarrow> allowed c i ev \<and> numbers_left (stepped ev (cl_nodes c i)) (raft_of c i)"
    and same: "\<And>cc. ev = EvConf cc \<Longrightarrow> cfgVoters (trkConfig (r_trk (rn_raft (n_rn n)))) = C"
  shows "cluster_inv B C (put_node i n out c)"
proof -
  let ?r = "raft_of c i"
  have el: "election_inv B C (raft_of c) (cl_sent c)" and net: "cl_net c \<subseteq> cl_sent c"
    and st: "\<forall>m \<in> set (rn_stepsOnAdvance (n_rn (cl_nodes c i))). m \<in> cl_sent c \<and> mTo m = i"
    and off: "offers B (cl_nodes c i)" and n: "node_inv B C (cl_sent c) i ?r"
    using inv i by (simp_all add: cluster_inv_def election_inv_def)
  have id: "r_id ?r = i" and sd: "settled B ?r" using n by (simp_all add: node_inv_def)
  have r: "rn_raft (n_rn (cl_nodes c i)) = ?r" by (simp add: raft_of_def)
  have off1: "n_readyc n1 \<Longrightarrow> window B (rdCommittedEntries (n_rd n1)) \<and>
      set (rdMessages (n_rd n1)) \<subseteq> set (r_msgs ?r) \<union> set (r_msgsAfterAppend ?r)"
    using loop_top_offers [OF top off] loop_top_sel [OF top] sd r by (simp add: offers_def)
  have "n_readyc n \<Longrightarrow> window B (rdCommittedEntries (n_rd n)) \<and>
      set (rdMessages (n_rd n)) \<subseteq> set (r_msgs ?r) \<union> set (r_msgsAfterAppend ?r)"
    using event_offer [OF ev] off1 by (auto simp: zeroReady_def)
  note put = put_raft_inv [OF inv i _ _ _ this]
  show ?thesis
    using top en ev
  proof (cases rule: event_cases)
    case idle
    then show ?thesis using el r by (intro put) simp_all
  next
    case (step m e)
    have s: "Step m ?r = Inr (rn_raft (n_rn n), e)" using step(2) r by simp
    have ne: "ev \<noteq> EvConf cc" for cc using step(3) by auto
    note ok = ok [OF ne]
    have fin: "r_Term ?r \<noteq> - 1" "mTerm m \<noteq> - 1" using ok step(1) by simp_all
    have w: "sound_msg (of_nat (length B)) m \<and> (mType m = MsgVoteResp \<longrightarrow> m \<in> cl_sent c \<and> mTo m = i)"
      using step(3)
    proof
      assume "ev = EvRecv m"
      then consider "m \<in> cl_sent c" "mTo m = i" | "local_input m" using ok net by auto
      then show ?thesis using el local_input_type [of m] by cases (auto simp: election_inv_def intro: sound_other)
    next
      assume "\<exists>pm. ev = EvProp pm \<and> mType m = mType (pm_m pm)"
      then have "mType m = MsgProp" using ok by auto
      then show ?thesis by (auto intro: sound_other)
    qed
    then have "election_inv B C ((raft_of c)(i := rn_raft (n_rn n))) (cl_sent c)"
      by (intro election_inv_Step [OF el i s _ fin]) auto
    moreover have "wire_ok m" by (rule sound_wire [OF conjunct1 [OF w] fin(2)])
    then have "votes_kept ?r (rn_raft (n_rn n))" by (rule Step_votes [OF s _ _ fin(1)]) (use id i in simp)
    ultimately show ?thesis using step(4,5) by (intro put) simp_all
  next
    case tick
    have t: "tick ?r = Inr (rn_raft (n_rn n))" "r_Term ?r \<noteq> - 1" using tick(2) ok tick(1) r by simp_all
    show ?thesis
      by (intro put) (use election_inv_tick [OF el i t] tick_votes [OF t(1) _ t(2)] id i tick in simp_all)
  next
    case ready
    have sent: "cl_sent (put_node i n out c) =
        cl_sent c \<union> set (rdMessages (n_rd n1)) \<union> set (rn_stepsOnAdvance (n_rn n))"
      by (simp add: put_node_def ready(2))
    have "election_inv B C ((raft_of c)(i := rn_raft (n_rn n))) (cl_sent (put_node i n out c))"
      unfolding ready(3) r sent by (rule election_inv_ready [OF el i]) (use off1 [OF ready(1)] ready(4) st r in auto)
    moreover have "\<not> n_readyc n" using ev ready(2) by (cases ev) (auto simp: Let_def split: if_splits)
    ultimately show ?thesis using inv i ready(4) st id r by (intro put_node_inv) (auto simp: offers_def)
  next
    case advance
    have "election_inv B C ((raft_of c)(i := rn_raft (n_rn n))) (cl_sent c) \<and> votes_kept ?r (rn_raft (n_rn n))"
      by (rule election_inv_steps [OF advance(2) [unfolded r] _ i]) (use el i ok advance(1) st in simp_all)
    then show ?thesis using advance by (intro put) auto
  next
    case (conf cc cs)
    have a: "applyConfChange cc ?r = Inr (rn_raft (n_rn n), cs)" using conf(2) r by simp
    show ?thesis
      using election_inv_conf [OF el i a same [OF conf(1)]] applyConfChange_votes [OF a] conf by (intro put) auto
  qed
qed

lemma cluster_inv_step:
  assumes "cluster_step C c c'" and inv: "cluster_inv B C c"
  shows "cluster_inv B C c'"
  using assms(1)
proof (cases rule: cluster_step.cases)
  case (event i ev out n)
  from event(3) show ?thesis unfolding event(1)
    by (elim loop_stepE) (rule event_inv [OF inv event(2)], (use event(4,5) in auto))
next
  case (conf i cc out n)
  from conf(3) show ?thesis unfolding conf(1)
    by (elim loop_stepE) (rule event_inv [OF inv conf(2)], (use conf(4) in auto))
next
  case (store i r es st)
  let ?n = "set_raft (r\<lparr>r_raftLog := (r_raftLog r)\<lparr>l_storage := st\<rparr>\<rparr>) (cl_nodes c i)"
  have n: "node_inv B C (cl_sent c) i r" and el: "election_inv B C (raft_of c) (cl_sent c)"
    using inv store(2,3) by (simp_all add: cluster_inv_def election_inv_def)
  have kept: "votes_kept (raft_of c i) (rn_raft (n_rn ?n))"
    unfolding store(3) [symmetric] by (rule votes_kept_same) (simp_all add: set_raft_def)
  have "election_inv B C ((raft_of c)(i := rn_raft (n_rn ?n))) (cl_sent c)"
    by (rule election_inv_change [OF el store(2) kept])
      (use n in \<open>simp_all add: set_raft_def node_inv_def settled_storage role_ok_def count_ok_def\<close>)
  moreover have "offers B (cl_nodes c i)" using inv store(2) by (simp add: cluster_inv_def)
  ultimately show ?thesis
    unfolding store(1) using kept
    by (intro put_raft_inv [OF inv store(2)]) (simp_all add: set_raft_def offers_def raft_of_def)
next
  case (clock i n)
  have el: "election_inv B C ((raft_of c)(i := raft_of c i)) (cl_sent c)"
    using inv by (simp add: cluster_inv_def)
  have "n_rn n = n_rn (cl_nodes c i)" "n_readyc n = n_readyc (cl_nodes c i)" "n_rd n = n_rd (cl_nodes c i)"
    using clock(3) by (auto elim: node_Tick.cases)
  moreover have "offers B (cl_nodes c i)" using inv clock(2) by (simp add: cluster_inv_def)
  ultimately show ?thesis
    unfolding clock(1) using el
    by (intro put_raft_inv [OF inv clock(2)]) (simp_all add: raft_of_def offers_def)
qed

lemma cluster_inv_initial: "initial B C c \<Longrightarrow> cluster_inv B C c"
proof -
  assume a: "initial B C c"
  then have f: "fresh_node B C i (cl_nodes c i)" if "i \<noteq> 0" for i using that by (simp add: initial_def)
  have r: "r_id (raft_of c i) = i" "settled B (raft_of c i)" "role_ok (raft_of c i)" "r_state (raft_of c i) = StateFollower"
      "r_msgs (raft_of c i) = []" "r_msgsAfterAppend (raft_of c i) = []"
      "cfgVoters (trkConfig (r_trk (raft_of c i))) = C"
      "rn_stepsOnAdvance (n_rn (cl_nodes c i)) = []" if "i \<noteq> 0" for i
    using f [OF that] by (simp_all add: fresh_node_def raft_of_def Let_def)
  have "n_readyc (cl_nodes c i) = False" if "i \<noteq> 0" for i
  proof -
    have "cl_nodes c i = newNode (n_rn (cl_nodes c i))" using f [OF that] by (simp add: fresh_node_def Let_def)
    then show ?thesis by (metis newNode_def node.select_convs(3))
  qed
  moreover have "grants (raft_of c) {} = {}" using r(6) by (auto simp: grants_def)
  ultimately show ?thesis
    using a r by (auto simp: cluster_inv_def election_inv_def node_inv_def count_ok_def one_vote_def
        offers_def initial_def)
qed

lemma reachable_inv: "reachable B C c \<Longrightarrow> cluster_inv B C c"
  by (induction rule: reachable.induct) (auto intro: cluster_inv_initial cluster_inv_step)

text \<open>What a node hands over as committed comes from the bootstrap entries.\<close>

lemma ready_window:
  assumes inv: "cluster_inv B C c" and i: "i \<noteq> 0" and s: "loop_step (cl_nodes c i) EvReady (OutReady rd) n"
  shows "window B (rdCommittedEntries rd)"
proof -
  obtain n1 where top: "loop_top (cl_nodes c i) = Inr n1" and rc: "n_readyc n1" and rd: "rd = n_rd n1"
    using s by (auto simp: Let_def elim!: loop_stepE)
  have "offers B n1"
    using loop_top_offers [OF top] inv i by (simp add: cluster_inv_def election_inv_def node_inv_def raft_of_def)
  then show ?thesis using rc rd by (simp add: offers_def)
qed

lemma unique_leader:
  assumes "reachable B C c" and "Joint_IDs C \<noteq> {||}"
    and "(t, i) \<in> cl_leaders c" and "(t, j) \<in> cl_leaders c"
  shows "i = j"
proof -
  have inv: "cluster_inv B C c" by (rule reachable_inv [OF assms(1)])
  then have "one_vote (raft_of c) (cl_sent c)" "cert C (cl_sent c) t i" "cert C (cl_sent c) t j"
    using assms(3,4) by (auto simp: cluster_inv_def election_inv_def)
  then show ?thesis using assms(2) by (intro cert_unique)
qed

section \<open>Properties\<close>

text \<open>Election safety: in every reachable state of a cluster whose voters are fixed, at most one node
  has ever been leader in a term.\<close>

theorem election_safety:
  assumes "reachable B C c" and "Joint_IDs C \<noteq> {||}"
    and "(t, i) \<in> cl_leaders c" and "(t, j) \<in> cl_leaders c"
  shows "i = j"
  using assms by (rule unique_leader)

text \<open>A cluster of one voter, in which node 1 campaigns and wins.\<close>

definition solo_cluster :: cluster where
  "solo_cluster = \<lparr>cl_nodes = solo_node, cl_net = {}, cl_sent = {}, cl_leaders = {}\<rparr>"

lemma solo_initial: "initial [solo_entry] solo_conf solo_cluster"
  by (simp add: initial_def solo_cluster_def fresh_node_def solo_node_def solo_rawnode_def newNode_def solo_raft_def
      role_ok_def MakeProgressTracker_def settled_def boot_log_def indexed_def solo_entry_def)

lemma solo_ulog: "ulog (solo_raft i) = [solo_entry]"
  by (simp add: solo_raft_def)

lemma solo_elects: "\<exists>c. reachable [solo_entry] solo_conf c \<and> (2, 1) \<in> cl_leaders c"
proof -
  let ?c1 = "put_node 1 solo_waiting OutNone solo_cluster"
  let ?c2 = "put_node 1 solo_accepted (OutReady solo_ready) ?c1"
  have "cluster_step solo_conf solo_cluster ?c1"
  proof (rule cluster_step.event)
    show "loop_step (cl_nodes solo_cluster 1) (EvRecv (set_mType MsgHup zeroMessage)) OutNone solo_waiting"
      using solo_step1 by (simp add: solo_cluster_def)
    show "numbers_left (stepped (EvRecv (set_mType MsgHup zeroMessage)) (cl_nodes solo_cluster 1)) (raft_of solo_cluster 1)"
      using solo_campaign
      by (simp add: raft_of_def solo_cluster_def solo_node_def solo_rawnode_def newNode_def)
        (simp add: solo_candidate_def solo_raft_def)
  qed (simp_all add: local_input_def)
  then have 1: "reachable [solo_entry] solo_conf ?c1" using solo_initial by (blast intro: reachable.intros)
  have n1: "cl_nodes ?c1 1 = solo_waiting" "raft_of ?c1 1 = solo_candidate"
    by (simp add: put_node_def, simp add: solo_waiting_def)
  have "cluster_step solo_conf ?c1 ?c2"
    by (rule cluster_step.event [where ev = EvReady])
      (use solo_step2 n1 in \<open>simp_all add: solo_candidate_def\<close>)
  then have 2: "reachable [solo_entry] solo_conf ?c2" using 1 by (blast intro: reachable.step)
  have n2: "cl_nodes ?c2 1 = solo_accepted" "raft_of ?c2 1 = solo_stored"
    by (simp add: put_node_def, simp add: solo_accepted_def)
  obtain n where n: "loop_step solo_accepted EvAdvance OutNone n" "r_state (rn_raft (n_rn n)) = StateLeader"
      "r_Term (rn_raft (n_rn n)) = 2" using solo_step3 by blast
  obtain r' where r': "Step solo_self_vote solo_stored = Inr (r', None)" "r_Term r' = 2" using solo_wins by blast
  have "cluster_step solo_conf ?c2 (put_node 1 n OutNone ?c2)"
  proof (rule cluster_step.event)
    show "loop_step (cl_nodes ?c2 1) EvAdvance OutNone n" using n(1) n2 by simp
    have "stepped EvAdvance (cl_nodes ?c2 1) = [solo_self_vote]" using n2 by (simp add: solo_accepted_def)
    then show "numbers_left (stepped EvAdvance (cl_nodes ?c2 1)) (raft_of ?c2 1)"
      unfolding n2 using r' by (simp add: solo_self_vote_def solo_stored_def solo_candidate_def solo_ulog)
  qed simp_all
  then have "reachable [solo_entry] solo_conf (put_node 1 n OutNone ?c2)" using 2 by (blast intro: reachable.step)
  moreover have "(2, 1) \<in> cl_leaders (put_node 1 n OutNone ?c2)" using n by (simp add: put_node_def)
  ultimately show ?thesis by blast
qed

theorem election_safety_witness:
  "\<exists>c. reachable [solo_entry] solo_conf c \<and> (2, 1) \<in> cl_leaders c \<and> (\<forall>j. (2, j) \<in> cl_leaders c \<longrightarrow> j = 1)"
proof -
  obtain c where c: "reachable [solo_entry] solo_conf c" "(2, 1) \<in> cl_leaders c" using solo_elects by blast
  have "Joint_IDs solo_conf \<noteq> {||}" by (simp add: Joint_IDs_def solo_conf_def)
  from election_safety [OF c(1) this _ c(2)] c show ?thesis by blast
qed

end
