(* ===== verification/Raft_Models.thy ===== *)
theory Raft_Models
  imports Raftpb_ConfChange "HOL-Library.List_Lexorder" "HOL-Library.Char_ord"
begin

text \<open>
  \<open>src/raft/models\<close>: member identifiers, printed in base 16, and the lists of URLs at which a member
  is reached.  \<open>strconv\<close> and \<open>net.SplitHostPort\<close> are modelled as the code uses them; \<open>url.Parse\<close> and
  \<open>URL.String\<close> are the parameters \<open>parse\<close> and \<open>show\<close>.  Go compares strings bytewise, which is the
  order that the library gives lists of characters.
\<close>

section \<open>Identifiers\<close>

type_synonym ID = uint64

text \<open>\<open>strconv.FormatUint(i, 16)\<close>.\<close>

definition hex_digit :: "nat \<Rightarrow> char" where
  "hex_digit d = (if d < 10 then char_of (48 + d) else char_of (87 + d))"

fun hex :: "nat \<Rightarrow> string" where
  "hex n = (if n < 16 then [hex_digit n] else hex (n div 16) @ [hex_digit (n mod 16)])"

declare hex.simps [simp del]

text \<open>\<open>strconv.ParseUint(s, 16, 64)\<close>: both cases of a letter are read.\<close>

definition hex_value :: "char \<Rightarrow> nat option" where
  "hex_value c =
     (let v = of_char c :: nat in
      if 48 \<le> v \<and> v \<le> 57 then Some (v - 48)
      else if 97 \<le> v \<and> v \<le> 102 then Some (v - 87)
      else if 65 \<le> v \<and> v \<le> 70 then Some (v - 55)
      else None)"

fun parse_hex :: "nat \<Rightarrow> string \<Rightarrow> NumError + nat" where
  "parse_hex n [] = Inr n"
| "parse_hex n (c # s) =
     (case hex_value c of
        None \<Rightarrow> Inl ErrSyntax
      | Some d \<Rightarrow> if 2 ^ 64 \<le> n * 16 + d then Inl ErrRange else parse_hex (n * 16 + d) s)"

definition ID_String :: "ID \<Rightarrow> string" where
  "ID_String i = hex (unat i)"

definition IDFromString :: "string \<Rightarrow> NumError + ID" where
  "IDFromString s = (if s = [] then Inl ErrSyntax else map_sum id of_nat (parse_hex 0 s))"

fun IDSlice_tail :: "ID list \<Rightarrow> string" where
  "IDSlice_tail [] = []"
| "IDSlice_tail (i # is) = '','' @ ID_String i @ IDSlice_tail is"

definition IDSlice_String :: "ID list \<Rightarrow> string" where
  "IDSlice_String p = (case p of [] \<Rightarrow> [] | i # is \<Rightarrow> ID_String i @ IDSlice_tail is)"

section \<open>URLs\<close>

record URL =
  Scheme :: string
  Opaque :: string
  User :: "nat option"
  Host :: string
  Path :: string
  RawPath :: string
  OmitHost :: bool
  ForceQuery :: bool
  RawQuery :: string
  Fragment :: string
  RawFragment :: string

text \<open>The places of a byte in a string, and whether \<open>net.SplitHostPort\<close> accepts a host.\<close>

fun index_byte :: "char \<Rightarrow> string \<Rightarrow> nat option" where
  "index_byte c [] = None"
| "index_byte c (d # s) = (if c = d then Some 0 else map_option Suc (index_byte c s))"

definition last_index_byte :: "char \<Rightarrow> string \<Rightarrow> nat option" where
  "last_index_byte c s = map_option (\<lambda>i. length s - 1 - i) (index_byte c (rev s))"

datatype addr_err = MissingPort | TooManyColons | MissingBracket | UnexpectedBracket

definition SplitHostPort :: "string \<Rightarrow> addr_err + string \<times> string" where
  "SplitHostPort hp =
     (case last_index_byte (CHR '':'') hp of
        None \<Rightarrow> Inl MissingPort
      | Some i \<Rightarrow>
          (case
             (if hd hp = CHR ''['' then
                (case index_byte (CHR '']'') hp of
                   None \<Rightarrow> Inl MissingBracket
                 | Some e \<Rightarrow>
                     if e + 1 = length hp then Inl MissingPort
                     else if e + 1 = i then Inr (take (e - 1) (drop 1 hp), 1, e + 1)
                     else if hp ! (e + 1) = CHR '':'' then Inl TooManyColons
                     else Inl MissingPort)
              else if index_byte (CHR '':'') (take i hp) \<noteq> None then Inl TooManyColons
              else Inr (take i hp, 0, 0))
           of
             Inl e \<Rightarrow> Inl e
           | Inr (host, j, k) \<Rightarrow>
               if index_byte (CHR ''['') (drop j hp) \<noteq> None then Inl UnexpectedBracket
               else if index_byte (CHR '']'') (drop k hp) \<noteq> None then Inl UnexpectedBracket
               else Inr (host, drop (i + 1) hp)))"

datatype 'e urls_err = NoValidURLs | ParseErr 'e | NotHostPort string | HasPath string | BadScheme string

definition check_url :: "(string \<Rightarrow> 'e + URL) \<Rightarrow> string \<Rightarrow> 'e urls_err + URL" where
  "check_url parse s =
     (let s = TrimSpace s in
      case parse s of
        Inl e \<Rightarrow> Inl (ParseErr e)
      | Inr u \<Rightarrow>
          if Scheme u = ''http'' \<or> Scheme u = ''https'' then
            (case SplitHostPort (Host u) of
               Inl _ \<Rightarrow> Inl (NotHostPort s)
             | Inr _ \<Rightarrow> if Path u \<noteq> [] then Inl (HasPath s) else Inr u)
          else if Scheme u = ''unix'' \<or> Scheme u = ''unixs'' then Inr u
          else Inl (BadScheme s))"

fun check_urls :: "(string \<Rightarrow> 'e + URL) \<Rightarrow> string list \<Rightarrow> 'e urls_err + URL list" where
  "check_urls parse [] = Inr []"
| "check_urls parse (s # ss) =
     (case check_url parse s of
        Inl e \<Rightarrow> Inl e
      | Inr u \<Rightarrow> map_sum id ((#) u) (check_urls parse ss))"

text \<open>\<open>Less\<close> compares the printed URLs, and \<open>sort.Sort\<close> gives a list ordered by it.\<close>

definition URLs_Less :: "(URL \<Rightarrow> string) \<Rightarrow> URL \<Rightarrow> URL \<Rightarrow> bool" where
  "URLs_Less show u v = (show u < show v)"

definition URLs_Sort :: "(URL \<Rightarrow> string) \<Rightarrow> URL list \<Rightarrow> URL list" where
  [simp]: "URLs_Sort show us = sort_key show us"

definition NewURLs :: "(string \<Rightarrow> 'e + URL) \<Rightarrow> (URL \<Rightarrow> string) \<Rightarrow> string list \<Rightarrow> 'e urls_err + URL list" where
  "NewURLs parse show strs =
     (if strs = [] then Inl NoValidURLs else map_sum id (URLs_Sort show) (check_urls parse strs))"

definition MustNewURLs :: "(string \<Rightarrow> 'e + URL) \<Rightarrow> (URL \<Rightarrow> string) \<Rightarrow> string list \<Rightarrow> URL list go" where
  "MustNewURLs parse show strs =
     (case NewURLs parse show strs of Inl e \<Rightarrow> Inl (ExplicitPanic ''bad URL'') | Inr us \<Rightarrow> Inr us)"

definition StringSlice :: "(URL \<Rightarrow> string) \<Rightarrow> URL list \<Rightarrow> string list" where
  "StringSlice show us = map show us"

text \<open>\<open>strings.Join\<close>.\<close>

fun Join :: "string \<Rightarrow> string list \<Rightarrow> string" where
  "Join sep [] = []"
| "Join sep [s] = s"
| "Join sep (s # t # ss) = s @ sep @ Join sep (t # ss)"

definition URLs_String :: "(URL \<Rightarrow> string) \<Rightarrow> URL list \<Rightarrow> string" where
  "URLs_String show us = Join '','' (StringSlice show us)"

section \<open>Facts\<close>

lemma hex_value_digit: "d < 16 \<Longrightarrow> hex_value (hex_digit d) = Some d"
  by (cases "d < 10") (simp_all add: hex_value_def hex_digit_def Let_def)

lemma parse_hex_append: "parse_hex k xs = Inr v \<Longrightarrow> parse_hex k (xs @ ys) = parse_hex v ys"
  by (induction k xs rule: parse_hex.induct) (auto split: option.splits if_splits)

lemma parse_hex_hex: "n < 2 ^ 64 \<Longrightarrow> parse_hex 0 (hex n) = Inr n"
proof (induction n rule: hex.induct)
  case (1 n)
  show ?case
  proof (cases "n < 16")
    case True
    then show ?thesis by (simp add: hex.simps [of n] hex_value_digit)
  next
    case False
    then have "parse_hex 0 (hex (n div 16)) = Inr (n div 16)" using 1 by simp
    then show ?thesis
      using False "1.prems" by (simp add: hex.simps [of n] parse_hex_append hex_value_digit)
  qed
qed

lemma hex_nonempty: "hex n \<noteq> []"
  by (simp add: hex.simps [of n])

lemma ID_roundtrip: "IDFromString (ID_String i) = Inr i"
proof -
  have "unat i < 2 ^ 64" using unsigned_less [of i] by simp
  then show ?thesis by (simp add: IDFromString_def ID_String_def hex_nonempty parse_hex_hex)
qed

lemma check_urls_Inr:
  "check_urls parse ss = Inr us \<longleftrightarrow> list_all2 (\<lambda>s u. check_url parse s = Inr u) ss us"
proof (induction ss arbitrary: us)
  case (Cons s ss)
  show ?case
  proof (cases "check_url parse s")
    case (Inr u)
    then show ?thesis using Cons.IH
      by (cases "check_urls parse ss") (auto simp: list_all2_Cons1)
  qed (auto simp: list_all2_Cons1)
qed auto

lemma check_url_Inr:
  "check_url parse s = Inr u \<longleftrightarrow> parse (TrimSpace s) = Inr u \<and>
     (Scheme u \<in> {''http'', ''https''} \<and> (\<exists>hp. SplitHostPort (Host u) = Inr hp) \<and> Path u = [] \<or>
      Scheme u \<in> {''unix'', ''unixs''})"
proof (cases "parse (TrimSpace s)")
  case (Inr v)
  define web where "web \<longleftrightarrow> Scheme v = ''http'' \<or> Scheme v = ''https''"
  define unix where "unix \<longleftrightarrow> Scheme v = ''unix'' \<or> Scheme v = ''unixs''"
  have x: "web \<Longrightarrow> \<not> unix" unfolding web_def unix_def by fastforce
  have "check_url parse s = (if web then
      (case SplitHostPort (Host v) of Inl _ \<Rightarrow> Inl (NotHostPort (TrimSpace s))
       | Inr _ \<Rightarrow> if Path v \<noteq> [] then Inl (HasPath (TrimSpace s)) else Inr v)
      else if unix then Inr v else Inl (BadScheme (TrimSpace s)))"
    unfolding check_url_def Let_def Inr web_def unix_def by (simp only: sum.case)
  moreover have "Scheme v \<in> {''http'', ''https''} \<longleftrightarrow> web" "Scheme v \<in> {''unix'', ''unixs''} \<longleftrightarrow> unix"
    unfolding web_def unix_def by (simp_all only: insert_iff empty_iff) blast+
  ultimately show ?thesis
    using x Inr by (cases "SplitHostPort (Host v)"; cases web; cases unix; cases "v = u") auto
qed (simp add: check_url_def)

section \<open>Properties\<close>

text \<open>The URLs of a member are those of the given strings, each parsed from its trimmed string, none lost
  and none added, sorted by the text they print; the list is never empty, and every one is
  either a host and port without a path or a unix socket.\<close>

theorem urls_contract:
  assumes "NewURLs parse show strs = Inr us"
  shows "us \<noteq> [] \<and> sorted (StringSlice show us) \<and>
    (\<exists>vs. mset vs = mset us \<and> list_all2 (\<lambda>s u. parse (TrimSpace s) = Inr u) strs vs) \<and>
    (\<forall>u \<in> set us. Scheme u \<in> {''http'', ''https''} \<and> (\<exists>hp. SplitHostPort (Host u) = Inr hp) \<and> Path u = [] \<or>
       Scheme u \<in> {''unix'', ''unixs''})"
proof -
  from assms obtain vs where s: "strs \<noteq> []" and c: "check_urls parse strs = Inr vs" and us: "us = sort_key show vs"
    by (cases "check_urls parse strs") (auto simp: NewURLs_def split: if_splits)
  have l: "list_all2 (\<lambda>s u. check_url parse s = Inr u) strs vs" using c by (simp add: check_urls_Inr)
  have good: "\<exists>s. check_url parse s = Inr u" if u: "u \<in> set us" for u
  proof -
    from u obtain i where "i < length vs" "u = vs ! i" by (auto simp: us in_set_conv_nth)
    then have "check_url parse (strs ! i) = Inr u" using l by (simp add: list_all2_conv_all_nth)
    then show ?thesis by blast
  qed
  have parsed: "list_all2 (\<lambda>s u. parse (TrimSpace s) = Inr u) strs vs"
    using l by (rule list_all2_mono) (unfold check_url_Inr, elim conjE)
  have "length vs = length strs" using l by (simp add: list_all2_lengthD)
  then have "length us \<noteq> 0" using s us by simp
  then have ne: "us \<noteq> []" by simp
  have st: "sorted (StringSlice show us)" by (simp add: StringSlice_def us)
  have m: "mset vs = mset us" by (simp add: us)
  have "\<forall>u \<in> set us. Scheme u \<in> {''http'', ''https''} \<and> (\<exists>hp. SplitHostPort (Host u) = Inr hp) \<and> Path u = [] \<or>
       Scheme u \<in> {''unix'', ''unixs''}"
    using good unfolding check_url_Inr by blast
  with ne st m parsed show ?thesis by blast
qed

text \<open>A parser of the plain form \<open>http://host:port\<close>, for the sample lists.\<close>

definition plain_url :: "string \<Rightarrow> URL" where
  "plain_url h = \<lparr>Scheme = ''http'', Opaque = [], User = None, Host = h, Path = [], RawPath = [],
     OmitHost = False, ForceQuery = False, RawQuery = [], Fragment = [], RawFragment = []\<rparr>"

definition plain_parse :: "string \<Rightarrow> unit + URL" where
  "plain_parse s = (if take 7 s = ''http://'' then Inr (plain_url (drop 7 s)) else Inl ())"

definition plain_show :: "URL \<Rightarrow> string" where
  "plain_show u = Scheme u @ ''://'' @ Host u"

theorem urls_contract_witness:
  "NewURLs plain_parse plain_show [''http://b:2'', ''http://a:1''] = Inr [plain_url ''a:1'', plain_url ''b:2''] \<and>
   sorted (StringSlice plain_show [plain_url ''a:1'', plain_url ''b:2''])"
proof -
  have "TrimSpace ''http://b:2'' = ''http://b:2''" "TrimSpace ''http://a:1'' = ''http://a:1''"
    by code_simp+
  then have n: "NewURLs plain_parse plain_show [''http://b:2'', ''http://a:1''] = Inr [plain_url ''a:1'', plain_url ''b:2'']"
    by (simp add: NewURLs_def check_url_def plain_parse_def plain_url_def plain_show_def SplitHostPort_def
        last_index_byte_def Let_def)
  from urls_contract [OF n] n show ?thesis by blast
qed

end
