(* ===== verification/Http_Peer.thy ===== *)
theory Http_Peer
  imports Raft_Models Core_Util
begin

text \<open>
  \<open>src/raft/http\<close>: one remote peer.  \<open>urlpick.go\<close>, \<open>peer_status.go\<close>, the client half of \<open>util.go\<close>,
  \<open>pipeline.go\<close>, \<open>stream.go\<close>, \<open>peer.go\<close> and \<open>remote.go\<close>.  A buffered channel is the list of the messages
  in it.  The status and the URL picker are shared by pointer between a peer and its pipeline; the
  model keeps them once, in the pipeline.  The network is a parameter: what \<open>RoundTrip\<close> answers to
  a request.  The bodies of \<open>streamWriter.run\<close> and \<open>streamReader.run\<close> are empty in the source, so
  nothing ever sets \<open>working\<close>, reads \<open>connc\<close> or closes \<open>done\<close>.
\<close>

section \<open>Choosing a URL\<close>

record urlPicker =
  up_urls :: "URL list"
  up_picked :: nat

definition newURLPicker :: "URL list \<Rightarrow> urlPicker" where
  "newURLPicker urls = \<lparr>up_urls = urls, up_picked = 0\<rparr>"

definition picker_update :: "URL list \<Rightarrow> urlPicker \<Rightarrow> urlPicker" where
  "picker_update urls p = p\<lparr>up_urls := urls, up_picked := 0\<rparr>"

definition picker_pick :: "urlPicker \<Rightarrow> URL go" where
  "picker_pick p = go_index (up_urls p) (up_picked p)"

definition picker_unreachable :: "URL \<Rightarrow> urlPicker \<Rightarrow> urlPicker go" where
  "picker_unreachable u p =
     go_bind (go_index (up_urls p) (up_picked p)) (\<lambda>v.
       Inr (if u = v then p\<lparr>up_picked := (up_picked p + 1) mod length (up_urls p)\<rparr> else p))"

section \<open>Whether the peer answers\<close>

text \<open>A time is the number of its instant; the zero time is \<open>None\<close>.\<close>

record peerStatus =
  ps_local :: ID
  ps_id :: ID
  ps_active :: bool
  ps_since :: "nat option"

definition newPeerStatus :: "ID \<Rightarrow> ID \<Rightarrow> peerStatus" where
  "newPeerStatus local i = \<lparr>ps_local = local, ps_id = i, ps_active = False, ps_since = None\<rparr>"

definition activate :: "nat \<Rightarrow> peerStatus \<Rightarrow> peerStatus" where
  "activate now s = (if \<not> ps_active s then s\<lparr>ps_active := True, ps_since := Some now\<rparr> else s)"

definition deactivate :: "peerStatus \<Rightarrow> peerStatus" where
  "deactivate s = (if ps_active s then s\<lparr>ps_active := False, ps_since := None\<rparr> else s)"

definition isActive :: "peerStatus \<Rightarrow> bool" where
  "isActive s = ps_active s"

definition status_activeSince :: "peerStatus \<Rightarrow> nat option" where
  "status_activeSince s = ps_since s"

section \<open>A request and its answer\<close>

record Request =
  rq_URL :: URL
  rq_header :: "(string \<times> string) list"
  rq_body :: "byte list"

text \<open>\<open>RoundTrip\<close> fails, or gives a status and a body that may fail to be read.\<close>

datatype 'e round_trip = NoResponse 'e | Response nat "'e + byte list"

datatype 'e post_err =
    TransportErr 'e
  | IncompatibleVersion
  | ClusterIDMismatch
  | UnhandledPrecondition "byte list"
  | MemberRemoved
  | UnexpectedStatus nat

definition TrimSuffix_newline :: "byte list \<Rightarrow> byte list" where
  "TrimSuffix_newline b = (if b \<noteq> [] \<and> last b = 10 then butlast b else b)"

definition text_bytes :: "string \<Rightarrow> byte list" where
  "text_bytes s = map of_char s"

definition checkPostResponse :: "nat \<Rightarrow> byte list \<Rightarrow> 'e post_err option" where
  "checkPostResponse status body =
     (if status = 412 then
        (if TrimSuffix_newline body = text_bytes ''incompatible version'' then Some IncompatibleVersion
         else if TrimSuffix_newline body = text_bytes ''cluster ID mismatch'' then Some ClusterIDMismatch
         else Some (UnhandledPrecondition body))
      else if status = 403 then Some MemberRemoved
      else if status = 204 then None
      else Some (UnexpectedStatus status))"

definition setPeerURLsHeader :: "(URL \<Rightarrow> string) \<Rightarrow> URL list option \<Rightarrow> (string \<times> string) list \<Rightarrow> (string \<times> string) list" where
  "setPeerURLsHeader show urls h =
     (case urls of None \<Rightarrow> h | Some us \<Rightarrow> h @ [(''X-PeerURLs'', Join '','' (map show us))])"

text \<open>What a pipeline uses of its transport, and the parameters: the parser and printer of URLs.\<close>

record 'e net =
  nt_parse :: "string \<Rightarrow> 'e + URL"
  nt_show :: "URL \<Rightarrow> string"
  nt_URLs :: "URL list option"
  nt_ID :: ID
  nt_ClusterID :: ID

definition RaftPrefix :: string where
  "RaftPrefix = ''/raft''"

definition createPostRequest ::
  "'e net \<Rightarrow> URL \<Rightarrow> string \<Rightarrow> byte list \<Rightarrow> string \<Rightarrow> Request go" where
  "createPostRequest nt u path body ct =
     (let uu = u\<lparr>Path := path\<rparr> in
      case nt_parse nt (nt_show nt uu) of
        Inl e \<Rightarrow> Inl (ExplicitPanic ''unexpected new request error'')
      | Inr v \<Rightarrow>
          Inr \<lparr>rq_URL = v,
            rq_header = setPeerURLsHeader (nt_show nt) (nt_URLs nt)
              [(''Content-Type'', ct), (''X-Server-From'', ID_String (nt_ID nt)),
               (''X-Etcd-Cluster-ID'', ID_String (nt_ClusterID nt))],
            rq_body = body\<rparr>)"

section \<open>The pipeline\<close>

definition pipelineBufSize :: nat where
  "pipelineBufSize = 64"

definition connPerPipeline :: nat where
  "connPerPipeline = 4"

text \<open>A goroutine \<open>handle\<close> waits, or posts a message to the URL it picked, or has returned.\<close>

datatype worker = Idle | Posting Message URL | Exited

record pipeline =
  pl_peerID :: ID
  pl_picker :: urlPicker
  pl_status :: peerStatus
  pl_msgc :: "Message list"
  pl_workers :: "worker list"
  pl_stopped :: bool

definition pipeline_start :: "pipeline \<Rightarrow> pipeline" where
  "pipeline_start p = p\<lparr>pl_stopped := False, pl_msgc := [], pl_workers := replicate connPerPipeline Idle\<rparr>"

text \<open>Closing a closed channel panics.  Then \<open>stop\<close> waits for the goroutines: they finish what they post
  and return by steps of their own.\<close>

definition pipeline_stop :: "pipeline \<Rightarrow> pipeline go" where
  "pipeline_stop p =
     (if pl_stopped p then Inl (ExplicitPanic ''close of closed channel'')
      else Inr (p\<lparr>pl_stopped := True\<rparr>))"

text \<open>A send to the channel that does not block.\<close>

definition offer :: "nat \<Rightarrow> Message \<Rightarrow> Message list \<Rightarrow> Message list option" where
  "offer room m q = (if length q < room then Some (q @ [m]) else None)"

text \<open>\<open>post\<close> up to the request, and after the answer: the error, and whether a removed member is reported.\<close>

definition post_begin :: "'e net \<Rightarrow> Message \<Rightarrow> pipeline \<Rightarrow> (URL \<times> Request) go" where
  "post_begin nt m p =
     go_bind (MustMarshal (Message_Marshal m)) (\<lambda>data.
     go_bind (picker_pick (pl_picker p)) (\<lambda>u.
     go_bind (createPostRequest nt u RaftPrefix data ''application/protobuf'') (\<lambda>req. Inr (u, req))))"

definition post_end :: "URL \<Rightarrow> 'e round_trip \<Rightarrow> pipeline \<Rightarrow> (pipeline \<times> 'e post_err option) go" where
  "post_end u resp p =
     (let failed = (\<lambda>err. go_bind (picker_unreachable u (pl_picker p)) (\<lambda>pk. Inr (p\<lparr>pl_picker := pk\<rparr>, Some err))) in
      case resp of
        NoResponse e \<Rightarrow> failed (TransportErr e)
      | Response status (Inl e) \<Rightarrow> failed (TransportErr e)
      | Response status (Inr body) \<Rightarrow>
          (case checkPostResponse status body of None \<Rightarrow> Inr (p, None) | Some err \<Rightarrow> failed err))"

text \<open>What a worker tells the outside: a message was delivered, or its addressee is reported
  unreachable, and a removed member is a critical error.\<close>

datatype pipe_event = Took Message Request | Delivered Message | Undelivered Message bool | Returns

inductive pipeline_step :: "'e net \<Rightarrow> pipeline \<Rightarrow> pipe_event \<Rightarrow> pipeline \<Rightarrow> bool" for nt :: "'e net" where
  take_message: "\<lbrakk>w < length (pl_workers p); pl_workers p ! w = Idle; pl_msgc p = m # rest;
      post_begin nt m p = Inr (u, req)\<rbrakk> \<Longrightarrow>
    pipeline_step nt p (Took m req) (p\<lparr>pl_msgc := rest, pl_workers := (pl_workers p)[w := Posting m u]\<rparr>)"
| success: "\<lbrakk>w < length (pl_workers p); pl_workers p ! w = Posting m u; post_end u (resp :: 'e round_trip) p = Inr (p', None)\<rbrakk> \<Longrightarrow>
    pipeline_step nt p (Delivered m)
      (p'\<lparr>pl_status := activate now (pl_status p'), pl_workers := (pl_workers p)[w := Idle]\<rparr>)"
| failure: "\<lbrakk>w < length (pl_workers p); pl_workers p ! w = Posting m u; post_end u (resp :: 'e round_trip) p = Inr (p', Some err)\<rbrakk> \<Longrightarrow>
    pipeline_step nt p (Undelivered m (err = MemberRemoved))
      (p'\<lparr>pl_status := deactivate (pl_status p'), pl_workers := (pl_workers p)[w := Idle]\<rparr>)"
| returns: "\<lbrakk>w < length (pl_workers p); pl_workers p ! w = Idle; pl_stopped p\<rbrakk> \<Longrightarrow>
    pipeline_step nt p Returns (p\<lparr>pl_workers := (pl_workers p)[w := Exited]\<rparr>)"

inductive_cases pipeline_stepE: "pipeline_step nt p ev p'"

text \<open>A report of a critical error is dropped when nobody is receiving it.\<close>

definition reportCriticalError :: "bool \<Rightarrow> 'x \<Rightarrow> 'x option" where
  "reportCriticalError receiving err = (if receiving then Some err else None)"

section \<open>Streams\<close>

type_synonym streamType = string

definition streamTypeMessage :: streamType where
  "streamTypeMessage = ''message''"

definition streamTypeMsgAppV2 :: streamType where
  "streamTypeMsgAppV2 = ''msgappv2''"

definition endpoint :: "streamType \<Rightarrow> string go" where
  "endpoint t =
     (if t = streamTypeMsgAppV2 then Inr ''/raft/stream/msgapp''
      else if t = streamTypeMessage then Inr ''/raft/stream/message''
      else Inl (ExplicitPanic ''unhandled stream type''))"

definition streamType_String :: "streamType \<Rightarrow> string" where
  "streamType_String t =
     (if t = streamTypeMsgAppV2 then ''stream MsgApp v2''
      else if t = streamTypeMessage then ''stream Message''
      else ''unknown stream'')"

definition linkHeartbeatMessage :: Message where
  "linkHeartbeatMessage = set_mType MsgHeartbeat zeroMessage"

definition isLinkHeartbeatMessage :: "Message \<Rightarrow> bool" where
  "isLinkHeartbeatMessage m = (mType m = MsgHeartbeat \<and> mFrom m = 0 \<and> mTo m = 0)"

definition streamBufSize :: nat where
  "streamBufSize = 4096"

record streamWriter =
  sw_peerID :: ID
  sw_closer :: bool
  sw_working :: bool
  sw_msgc :: "Message list"
  sw_stopped :: bool
  sw_done :: bool

definition startStreamWriter :: "ID \<Rightarrow> streamWriter" where
  "startStreamWriter i = \<lparr>sw_peerID = i, sw_closer = False, sw_working = False, sw_msgc = [],
     sw_stopped = False, sw_done = False\<rparr>"

definition writec :: "streamWriter \<Rightarrow> Message list \<times> bool" where
  "writec cw = (sw_msgc cw, sw_working cw)"

text \<open>The closed writer, whether there was a connection, and the peer reported unreachable.\<close>

definition closeUnlocked :: "streamWriter \<Rightarrow> (streamWriter \<times> bool \<times> ID list) go" where
  "closeUnlocked cw =
     (if \<not> sw_working cw then Inr (cw, False, [])
      else if \<not> sw_closer cw then Inl NilDereference
      else Inr (cw\<lparr>sw_msgc := [], sw_working := False\<rparr>, True,
        if length (sw_msgc cw) > 0 then [sw_peerID cw] else []))"

text \<open>Nothing receives from \<open>connc\<close>, so only \<open>done\<close> can end the wait.\<close>

definition attach :: "streamWriter \<Rightarrow> bool go" where
  "attach cw = (if sw_done cw then Inr False else Inl NotReturning)"

definition streamWriter_stop :: "streamWriter \<Rightarrow> streamWriter go" where
  "streamWriter_stop cw =
     (if sw_stopped cw then Inl (ExplicitPanic ''close of closed channel'')
      else if sw_done cw then Inr (cw\<lparr>sw_stopped := True\<rparr>) else Inl NotReturning)"

record streamReader =
  sr_typ :: streamType
  sr_paused :: bool
  sr_closer :: bool
  sr_cancelled :: bool
  sr_done :: bool

definition streamReader_start :: "streamType \<Rightarrow> streamReader" where
  "streamReader_start t = \<lparr>sr_typ = t, sr_paused = False, sr_closer = False, sr_cancelled = False, sr_done = False\<rparr>"

definition streamReader_close :: "streamReader \<Rightarrow> streamReader" where
  "streamReader_close cr = cr\<lparr>sr_closer := False\<rparr>"

definition streamReader_stop :: "streamReader \<Rightarrow> streamReader go" where
  "streamReader_stop cr =
     (let cr = streamReader_close (cr\<lparr>sr_cancelled := True\<rparr>) in
      if sr_done cr then Inr cr else Inl NotReturning)"

definition streamReader_pause :: "streamReader \<Rightarrow> streamReader" where
  "streamReader_pause cr = cr\<lparr>sr_paused := True\<rparr>"

definition streamReader_resume :: "streamReader \<Rightarrow> streamReader" where
  "streamReader_resume cr = cr\<lparr>sr_paused := False\<rparr>"

section \<open>The peer\<close>

record peer =
  p_localID :: ID
  p_id :: ID
  p_msgAppV2Writer :: streamWriter
  p_writer :: streamWriter
  p_pipeline :: pipeline
  p_msgAppV2Reader :: streamReader
  p_msgAppReader :: streamReader
  p_recvc :: "Message list"
  p_propc :: "Message list"
  p_paused :: bool
  p_stopped :: bool

definition startPeer :: "ID \<Rightarrow> URL list \<Rightarrow> ID \<Rightarrow> peer" where
  "startPeer local urls peerID =
     \<lparr>p_localID = local, p_id = peerID, p_msgAppV2Writer = startStreamWriter peerID,
      p_writer = startStreamWriter peerID,
      p_pipeline = pipeline_start \<lparr>pl_peerID = peerID, pl_picker = newURLPicker urls,
        pl_status = newPeerStatus local peerID, pl_msgc = [], pl_workers = [], pl_stopped = False\<rparr>,
      p_msgAppV2Reader = streamReader_start streamTypeMsgAppV2,
      p_msgAppReader = streamReader_start streamTypeMessage,
      p_recvc = [], p_propc = [], p_paused = False, p_stopped = False\<rparr>"

definition isMsgApp :: "Message \<Rightarrow> bool" where
  "isMsgApp m = (mType m = MsgApp)"

definition isMsgSnap :: "Message \<Rightarrow> bool" where
  "isMsgSnap m = (mType m = MsgSnap)"

datatype out_channel = ToPipeline | ToMsgApp | ToStream

definition peer_pick :: "Message \<Rightarrow> peer \<Rightarrow> out_channel" where
  "peer_pick m p =
     (if isMsgSnap m then ToPipeline
      else if snd (writec (p_msgAppV2Writer p)) \<and> isMsgApp m then ToMsgApp
      else if snd (writec (p_writer p)) then ToStream
      else ToPipeline)"

definition queue_of :: "out_channel \<Rightarrow> peer \<Rightarrow> Message list" where
  "queue_of c p = (case c of ToPipeline \<Rightarrow> pl_msgc (p_pipeline p) | ToMsgApp \<Rightarrow> sw_msgc (p_msgAppV2Writer p)
     | ToStream \<Rightarrow> sw_msgc (p_writer p))"

definition capacity :: "out_channel \<Rightarrow> nat" where
  "capacity c = (case c of ToPipeline \<Rightarrow> pipelineBufSize | _ \<Rightarrow> streamBufSize)"

definition put_queue :: "out_channel \<Rightarrow> Message list \<Rightarrow> peer \<Rightarrow> peer" where
  "put_queue c q p =
     (case c of ToPipeline \<Rightarrow> p\<lparr>p_pipeline := (p_pipeline p)\<lparr>pl_msgc := q\<rparr>\<rparr>
      | ToMsgApp \<Rightarrow> p\<lparr>p_msgAppV2Writer := (p_msgAppV2Writer p)\<lparr>sw_msgc := q\<rparr>\<rparr>
      | ToStream \<Rightarrow> p\<lparr>p_writer := (p_writer p)\<lparr>sw_msgc := q\<rparr>\<rparr>)"

text \<open>The peer after \<open>send\<close>, and the addressees for which it calls \<open>ReportUnreachable\<close>: at most one, and after
  that call it only logs.  The call waits until the run loop of the node takes the message
  (\<open>unreachable_message\<close>) or is done; in \<open>Kv_Raft\<close> the serving loop waits there, in the state \<open>Sending\<close>.\<close>

definition peer_send :: "Message \<Rightarrow> peer \<Rightarrow> peer \<times> uint64 list" where
  "peer_send m p =
     (if p_paused p then (p, [])
      else let c = peer_pick m p in
        case offer (capacity c) m (queue_of c p) of
          Some q \<Rightarrow> (put_queue c q p, [])
        | None \<Rightarrow> (p, [mTo m]))"

definition peer_update :: "URL list \<Rightarrow> peer \<Rightarrow> peer" where
  "peer_update urls p =
     p\<lparr>p_pipeline := (p_pipeline p)\<lparr>pl_picker := picker_update urls (pl_picker (p_pipeline p))\<rparr>\<rparr>"

text \<open>Whether the connection is kept; a connection of an unknown type is a panic.\<close>

definition attachOutgoingConn :: "streamType \<Rightarrow> peer \<Rightarrow> bool go" where
  "attachOutgoingConn t p =
     (if t = streamTypeMsgAppV2 then attach (p_msgAppV2Writer p)
      else if t = streamTypeMessage then attach (p_writer p)
      else Inl (ExplicitPanic ''unknown stream type''))"

definition peer_activeSince :: "peer \<Rightarrow> nat option" where
  "peer_activeSince p = status_activeSince (pl_status (p_pipeline p))"

definition Pause :: "peer \<Rightarrow> peer" where
  "Pause p = p\<lparr>p_paused := True, p_msgAppReader := streamReader_pause (p_msgAppReader p),
     p_msgAppV2Reader := streamReader_pause (p_msgAppV2Reader p)\<rparr>"

definition Resume :: "peer \<Rightarrow> peer" where
  "Resume p = p\<lparr>p_paused := False, p_msgAppReader := streamReader_resume (p_msgAppReader p),
     p_msgAppV2Reader := streamReader_resume (p_msgAppV2Reader p)\<rparr>"

definition peer_stop :: "peer \<Rightarrow> peer go" where
  "peer_stop p =
     (if p_stopped p then Inl (ExplicitPanic ''close of closed channel'')
      else go_bind (streamWriter_stop (p_msgAppV2Writer p)) (\<lambda>w2.
           go_bind (streamWriter_stop (p_writer p)) (\<lambda>w.
           go_bind (pipeline_stop (p_pipeline p)) (\<lambda>pl.
           go_bind (streamReader_stop (p_msgAppV2Reader p)) (\<lambda>r2.
           go_bind (streamReader_stop (p_msgAppReader p)) (\<lambda>r.
             Inr (p\<lparr>p_stopped := True, p_msgAppV2Writer := w2, p_writer := w, p_pipeline := pl,
               p_msgAppV2Reader := r2, p_msgAppReader := r\<rparr>)))))))"

section \<open>A remote\<close>

record remote =
  g_localID :: ID
  g_id :: ID
  g_pipeline :: pipeline

definition startRemote :: "ID \<Rightarrow> URL list \<Rightarrow> ID \<Rightarrow> remote" where
  "startRemote local urls i =
     \<lparr>g_localID = local, g_id = i,
      g_pipeline = pipeline_start \<lparr>pl_peerID = i, pl_picker = newURLPicker urls,
        pl_status = newPeerStatus local i, pl_msgc = [], pl_workers = [], pl_stopped = False\<rparr>\<rparr>"

definition remote_send :: "Message \<Rightarrow> remote \<Rightarrow> remote" where
  "remote_send m g =
     (case offer pipelineBufSize m (pl_msgc (g_pipeline g)) of
        Some q \<Rightarrow> g\<lparr>g_pipeline := (g_pipeline g)\<lparr>pl_msgc := q\<rparr>\<rparr>
      | None \<Rightarrow> g)"

definition remote_stop :: "remote \<Rightarrow> remote go" where
  "remote_stop g = go_bind (pipeline_stop (g_pipeline g)) (\<lambda>p. Inr (g\<lparr>g_pipeline := p\<rparr>))"

definition remote_Pause :: "remote \<Rightarrow> remote go" where
  "remote_Pause g = remote_stop g"

definition remote_Resume :: "remote \<Rightarrow> remote" where
  "remote_Resume g = g\<lparr>g_pipeline := pipeline_start (g_pipeline g)\<rparr>"

section \<open>Facts on the picker\<close>

definition picker_ok :: "urlPicker \<Rightarrow> bool" where
  "picker_ok p \<longleftrightarrow> up_picked p < length (up_urls p)"

lemma picker_new_ok: "urls \<noteq> [] \<Longrightarrow> picker_ok (newURLPicker urls)"
  by (simp add: picker_ok_def newURLPicker_def)

lemma picker_pick_ok: "picker_ok p \<Longrightarrow> picker_pick p = Inr (up_urls p ! up_picked p)"
  by (simp add: picker_ok_def picker_pick_def)

lemma picker_unreachable_ok:
  assumes "picker_ok p"
  obtains p' where "picker_unreachable u p = Inr p'" "picker_ok p'" "up_urls p' = up_urls p"
    "up_picked p' = (if u = up_urls p ! up_picked p then (up_picked p + 1) mod length (up_urls p) else up_picked p)"
proof -
  have "length (up_urls p) > 0" using assms by (auto simp: picker_ok_def)
  then show ?thesis using assms
    by (intro that [of "if u = up_urls p ! up_picked p
        then p\<lparr>up_picked := (up_picked p + 1) mod length (up_urls p)\<rparr> else p"])
      (auto simp: picker_unreachable_def picker_ok_def)
qed

text \<open>So many attempts in a row that fail, each reporting the URL it picked.\<close>

fun failures :: "nat \<Rightarrow> urlPicker \<Rightarrow> urlPicker go" where
  "failures 0 p = Inr p"
| "failures (Suc k) p = go_bind (picker_pick p) (\<lambda>u. go_bind (picker_unreachable u p) (failures k))"

lemma failures_rotate:
  assumes "picker_ok p"
  shows "\<exists>p'. failures k p = Inr p' \<and> picker_ok p' \<and> up_urls p' = up_urls p \<and>
    up_picked p' = (up_picked p + k) mod length (up_urls p)"
  using assms
proof (induction k arbitrary: p)
  case 0
  then show ?case by (simp add: picker_ok_def)
next
  case (Suc k)
  obtain p1 where p1: "picker_unreachable (up_urls p ! up_picked p) p = Inr p1" "picker_ok p1" "up_urls p1 = up_urls p"
      "up_picked p1 = (up_picked p + 1) mod length (up_urls p)"
    using picker_unreachable_ok [OF Suc.prems, of "up_urls p ! up_picked p"] by metis
  have "(up_picked p1 + k) mod length (up_urls p) = (up_picked p + Suc k) mod length (up_urls p)"
    by (simp add: p1(4) mod_add_left_eq)
  then show ?case using Suc.IH [OF p1(2)] p1 by (simp add: picker_pick_ok [OF Suc.prems])
qed

section \<open>Facts on the pipeline\<close>

text \<open>What is still on its way through a pipeline: queued messages and those being posted.\<close>

fun carried :: "worker \<Rightarrow> Message multiset" where
  "carried (Posting m u) = {#m#}"
| "carried _ = {#}"

definition posting :: "worker list \<Rightarrow> Message multiset" where
  "posting ws = sum_list (map carried ws)"

definition in_flight :: "pipeline \<Rightarrow> Message multiset" where
  "in_flight p = mset (pl_msgc p) + posting (pl_workers p)"

lemma posting_update:
  "w < length ws \<Longrightarrow> posting (ws[w := x]) + carried (ws ! w) = posting ws + carried x"
  unfolding posting_def by (induction ws arbitrary: w) (auto simp: nth_Cons ac_simps split: nat.split)

lemma posting_size: "size (posting ws) \<le> length ws"
proof -
  have "size (carried w) \<le> 1" for w by (cases w) simp_all
  then show ?thesis unfolding posting_def by (induction ws) (auto simp: add_le_mono [of _ 1, simplified])
qed

lemma post_end_ok:
  assumes "post_end u resp p = Inr (p', e)" and "picker_ok (pl_picker p)"
  obtains k where "p' = p\<lparr>pl_picker := k\<rparr>" "picker_ok k" "up_urls k = up_urls (pl_picker p)"
proof -
  obtain q where q: "picker_unreachable u (pl_picker p) = Inr q" "picker_ok q" "up_urls q = up_urls (pl_picker p)"
    using picker_unreachable_ok [OF assms(2)] by metis
  have "p' = p\<lparr>pl_picker := pl_picker p\<rparr> \<or> p' = p\<lparr>pl_picker := q\<rparr>"
    using assms(1) q(1) by (auto simp: post_end_def Let_def split: round_trip.splits sum.splits option.splits)
  then show ?thesis using assms(2) q that by blast
qed

text \<open>A run of a pipeline, with the messages its channel accepted, those delivered and those reported.\<close>

inductive pipeline_run :: "'e net \<Rightarrow> pipeline \<Rightarrow> pipeline \<Rightarrow> Message list \<Rightarrow> Message list \<Rightarrow> Message list \<Rightarrow> bool"
  for nt p0 where
  start: "pipeline_run nt p0 p0 [] [] []"
| accept: "\<lbrakk>pipeline_run nt p0 p acc del und; offer pipelineBufSize m (pl_msgc p) = Some q\<rbrakk> \<Longrightarrow>
    pipeline_run nt p0 (p\<lparr>pl_msgc := q\<rparr>) (acc @ [m]) del und"
| took: "\<lbrakk>pipeline_run nt p0 p acc del und; pipeline_step nt p (Took m req) p'\<rbrakk> \<Longrightarrow>
    pipeline_run nt p0 p' acc del und"
| delivered: "\<lbrakk>pipeline_run nt p0 p acc del und; pipeline_step nt p (Delivered m) p'\<rbrakk> \<Longrightarrow>
    pipeline_run nt p0 p' acc (del @ [m]) und"
| undelivered: "\<lbrakk>pipeline_run nt p0 p acc del und; pipeline_step nt p (Undelivered m c) p'\<rbrakk> \<Longrightarrow>
    pipeline_run nt p0 p' acc del (und @ [m])"
| returned: "\<lbrakk>pipeline_run nt p0 p acc del und; pipeline_step nt p Returns p'\<rbrakk> \<Longrightarrow>
    pipeline_run nt p0 p' acc del und"

definition pipe_ok :: "pipeline \<Rightarrow> bool" where
  "pipe_ok p \<longleftrightarrow> picker_ok (pl_picker p) \<and> length (pl_workers p) = connPerPipeline \<and>
     length (pl_msgc p) \<le> pipelineBufSize"

lemma pipeline_step_effect:
  assumes "pipeline_step nt p ev p'" and "pipe_ok p"
  shows "pipe_ok p' \<and> in_flight p = in_flight p' +
    (case ev of Delivered m \<Rightarrow> {#m#} | Undelivered m c \<Rightarrow> {#m#} | _ \<Rightarrow> {#})"
  using assms
proof (cases rule: pipeline_step.cases)
  case (take_message w m rest u req)
  then show ?thesis using assms(2) posting_update [of w "pl_workers p" "Posting m u"]
    by (simp add: pipe_ok_def in_flight_def)
next
  case (success w m u resp q now)
  have "picker_ok (pl_picker p)" using assms(2) by (simp add: pipe_ok_def)
  with success(5) obtain k where "q = p\<lparr>pl_picker := k\<rparr>" "picker_ok k" by (rule post_end_ok)
  then show ?thesis using success assms(2) posting_update [of w "pl_workers p" Idle]
    by (simp add: pipe_ok_def in_flight_def)
next
  case (failure w m u resp q err)
  have "picker_ok (pl_picker p)" using assms(2) by (simp add: pipe_ok_def)
  with failure(5) obtain k where "q = p\<lparr>pl_picker := k\<rparr>" "picker_ok k" by (rule post_end_ok)
  then show ?thesis using failure assms(2) posting_update [of w "pl_workers p" Idle]
    by (simp add: pipe_ok_def in_flight_def)
next
  case (returns w)
  then show ?thesis using assms(2) posting_update [of w "pl_workers p" Exited]
    by (simp add: pipe_ok_def in_flight_def)
qed

lemma pipeline_run_ok:
  assumes "pipeline_run nt p0 p acc del und" and "pipe_ok p0"
  shows "pipe_ok p \<and> in_flight p0 + mset acc = in_flight p + mset del + mset und"
  using assms
proof (induction rule: pipeline_run.induct)
  case (accept p acc del und m q)
  then show ?case by (auto simp: offer_def pipe_ok_def in_flight_def ac_simps split: if_splits)
next
  case (took p acc del und m req p')
  then show ?case using pipeline_step_effect [OF took.hyps(2)] by (simp add: ac_simps)
next
  case (delivered p acc del und m p')
  then show ?case using pipeline_step_effect [OF delivered.hyps(2)] by (simp add: ac_simps)
next
  case (undelivered p acc del und m c p')
  then show ?case using pipeline_step_effect [OF undelivered.hyps(2)] by (simp add: ac_simps)
next
  case (returned p acc del und p')
  then show ?case using pipeline_step_effect [OF returned.hyps(2)] by (simp add: ac_simps)
qed simp

lemma pipe_ok_start:
  "urls \<noteq> [] \<Longrightarrow> pipe_ok (p_pipeline (startPeer local urls i)) \<and> in_flight (p_pipeline (startPeer local urls i)) = {#}"
  by (simp add: startPeer_def pipeline_start_def pipe_ok_def picker_new_ok in_flight_def posting_def
      connPerPipeline_def numeral_eq_Suc)

section \<open>Facts on the peer\<close>

text \<open>What a peer goes through: the operations of its interface and the steps of its pipeline.\<close>

inductive peer_run :: "'e net \<Rightarrow> peer \<Rightarrow> peer \<Rightarrow> bool" for nt p0 where
  start: "peer_run nt p0 p0"
| send: "peer_run nt p0 p \<Longrightarrow> peer_run nt p0 (fst (peer_send m p))"
| update: "peer_run nt p0 p \<Longrightarrow> peer_run nt p0 (peer_update urls p)"
| pause: "peer_run nt p0 p \<Longrightarrow> peer_run nt p0 (Pause p)"
| resume: "peer_run nt p0 p \<Longrightarrow> peer_run nt p0 (Resume p)"
| pipeline: "\<lbrakk>peer_run nt p0 p; pipeline_step nt (p_pipeline p) ev pl\<rbrakk> \<Longrightarrow>
    peer_run nt p0 (p\<lparr>p_pipeline := pl\<rparr>)"
| close_msgapp: "\<lbrakk>peer_run nt p0 p; closeUnlocked (p_msgAppV2Writer p) = Inr (w, b, rs)\<rbrakk> \<Longrightarrow>
    peer_run nt p0 (p\<lparr>p_msgAppV2Writer := w\<rparr>)"
| close_writer: "\<lbrakk>peer_run nt p0 p; closeUnlocked (p_writer p) = Inr (w, b, rs)\<rbrakk> \<Longrightarrow>
    peer_run nt p0 (p\<lparr>p_writer := w\<rparr>)"

definition no_stream :: "peer \<Rightarrow> bool" where
  "no_stream p \<longleftrightarrow> \<not> sw_working (p_msgAppV2Writer p) \<and> \<not> sw_working (p_writer p)"

lemma peer_pick_no_stream: "no_stream p \<Longrightarrow> peer_pick m p = ToPipeline"
  by (simp add: peer_pick_def no_stream_def writec_def)

lemma peer_send_no_stream:
  "no_stream p \<Longrightarrow> peer_send m p =
     (if p_paused p then (p, [])
      else if length (pl_msgc (p_pipeline p)) < pipelineBufSize
        then (p\<lparr>p_pipeline := (p_pipeline p)\<lparr>pl_msgc := pl_msgc (p_pipeline p) @ [m]\<rparr>\<rparr>, [])
      else (p, [mTo m]))"
  by (simp add: peer_send_def peer_pick_no_stream offer_def capacity_def queue_of_def put_queue_def)

lemma no_stream_run: "peer_run nt p0 p \<Longrightarrow> no_stream p0 \<Longrightarrow> no_stream p"
proof (induction rule: peer_run.induct)
  case (send p m)
  then show ?case by (simp add: peer_send_no_stream) (simp add: no_stream_def)
qed (simp_all add: no_stream_def peer_update_def Pause_def Resume_def closeUnlocked_def)

lemma post_end_queue: "post_end u resp p = Inr (p', e) \<Longrightarrow> pl_msgc p' = pl_msgc p"
  by (auto simp: post_end_def Let_def split: round_trip.splits sum.splits option.splits)

lemma pipeline_step_queue: "pipeline_step nt p ev p' \<Longrightarrow> length (pl_msgc p') \<le> length (pl_msgc p)"
  by (cases rule: pipeline_step.cases) (auto dest: post_end_queue)

lemma queue_bound_run:
  assumes "peer_run nt p0 p" and "no_stream p0" and "length (pl_msgc (p_pipeline p0)) \<le> pipelineBufSize"
  shows "length (pl_msgc (p_pipeline p)) \<le> pipelineBufSize"
  using assms
proof (induction rule: peer_run.induct)
  case (send p m)
  then show ?case using no_stream_run [OF send.hyps] by (simp add: peer_send_no_stream)
next
  case (pipeline p ev pl)
  then show ?case using pipeline_step_queue [OF pipeline.hyps(2)] by simp
qed (simp_all add: peer_update_def Pause_def Resume_def)

lemma no_stream_start: "no_stream (startPeer local urls i)"
  by (simp add: no_stream_def startPeer_def startStreamWriter_def)

text \<open>Sending many messages, one after the other.\<close>

fun peer_sends :: "Message list \<Rightarrow> peer \<Rightarrow> peer \<times> uint64 list" where
  "peer_sends [] p = (p, [])"
| "peer_sends (m # ms) p =
     (let (p, rs) = peer_send m p; (p, rs') = peer_sends ms p in (p, rs @ rs'))"

lemma peer_sends_no_stream:
  assumes "no_stream p" and "\<not> p_paused p" and "length (pl_msgc (p_pipeline p)) \<le> pipelineBufSize"
  shows "peer_sends ms p =
    (let q = pl_msgc (p_pipeline p) in
     (p\<lparr>p_pipeline := (p_pipeline p)\<lparr>pl_msgc := take pipelineBufSize (q @ ms)\<rparr>\<rparr>,
      map mTo (drop (pipelineBufSize - length q) ms)))"
  using assms
proof (induction ms arbitrary: p)
  case Nil
  then show ?case by simp
next
  case (Cons m ms)
  show ?case
  proof (cases "length (pl_msgc (p_pipeline p)) < pipelineBufSize")
    case True
    let ?p = "p\<lparr>p_pipeline := (p_pipeline p)\<lparr>pl_msgc := pl_msgc (p_pipeline p) @ [m]\<rparr>\<rparr>"
    have "no_stream ?p" using Cons.prems(1) by (simp add: no_stream_def)
    then show ?thesis
      using Cons.prems True Cons.IH [of ?p]
      by (simp add: peer_send_no_stream Let_def Suc_diff_le drop_Cons' Suc_diff_Suc [symmetric])
  next
    case False
    then show ?thesis using Cons.prems Cons.IH [of p] by (simp add: peer_send_no_stream Let_def)
  qed
qed

section \<open>A sample peer\<close>

definition sample_net :: "unit net" where
  "sample_net = \<lparr>nt_parse = plain_parse, nt_show = plain_show, nt_URLs = None, nt_ID = 1, nt_ClusterID = 0x1000\<rparr>"

definition sample_peer :: peer where
  "sample_peer = startPeer 1 [plain_url ''b:2''] 2"

lemma zeroMessage_Size: "Message_Size zeroMessage = 20"
proof -
  have "sovRaft 0 = 1" by code_simp
  then show ?thesis by (subst Message_Size.simps) simp
qed

lemma zeroMessage_Marshal: "\<exists>bs. Message_Marshal zeroMessage = Inr bs"
proof -
  have "Message_Size zeroMessage < 2 ^ 63" by (simp add: zeroMessage_Size)
  from message.roundtrip [OF this] show ?thesis unfolding Message_Marshal_def by blast
qed

lemma sample_post:
  "\<exists>req. post_begin sample_net zeroMessage (p_pipeline sample_peer) = Inr (plain_url ''b:2'', req)"
proof -
  obtain bs where "Message_Marshal zeroMessage = Inr bs" using zeroMessage_Marshal by blast
  then show ?thesis
    by (simp add: post_begin_def MustMarshal_def sample_peer_def startPeer_def pipeline_start_def
        picker_pick_def newURLPicker_def createPostRequest_def sample_net_def plain_parse_def plain_show_def
        plain_url_def Let_def)
qed

section \<open>Properties\<close>

text \<open>C28: a pipeline loses no message silently: whatever is offered, posted and answered, in any order and by
  any of its four workers, the messages its channel accepted are exactly those delivered, those
  whose addressee was reported unreachable, and those still queued or being posted; the queue
  never exceeds its buffer and the chosen URL always exists.\<close>

theorem pipeline_conserves:
  assumes "pipeline_run nt (p_pipeline (startPeer local urls i)) p acc del und" and "urls \<noteq> []"
  shows "mset acc = mset del + mset und + mset (pl_msgc p) + posting (pl_workers p) \<and>
    length (pl_msgc p) \<le> 64 \<and> size (posting (pl_workers p)) \<le> 4 \<and>
    (\<exists>u \<in> set (up_urls (pl_picker p)). picker_pick (pl_picker p) = Inr u)"
proof -
  have p: "pipe_ok p" "mset acc = in_flight p + mset del + mset und"
    using pipeline_run_ok [OF assms(1)] pipe_ok_start [OF assms(2)] by auto
  moreover have "up_urls (pl_picker p) ! up_picked (pl_picker p) \<in> set (up_urls (pl_picker p))"
    using p(1) by (simp add: pipe_ok_def picker_ok_def)
  ultimately show ?thesis
    using posting_size [of "pl_workers p"] picker_pick_ok [of "pl_picker p"]
    by (auto simp: in_flight_def pipe_ok_def connPerPipeline_def pipelineBufSize_def ac_simps)
qed

theorem pipeline_conserves_witness:
  "\<exists>p. pipeline_run sample_net (p_pipeline sample_peer) p [zeroMessage] [zeroMessage] [] \<and>
     mset [zeroMessage] = mset [zeroMessage] + mset (pl_msgc p) + posting (pl_workers p)"
proof -
  let ?p0 = "p_pipeline sample_peer"
  let ?p1 = "?p0\<lparr>pl_msgc := [zeroMessage]\<rparr>"
  let ?u = "plain_url ''b:2''"
  have w: "pl_workers ?p0 = replicate 4 Idle" "pl_msgc ?p0 = []"
    by (simp_all add: sample_peer_def startPeer_def pipeline_start_def connPerPipeline_def)
  have r1: "pipeline_run sample_net ?p0 ?p1 [zeroMessage] [] []"
    using pipeline_run.accept [OF pipeline_run.start, of zeroMessage ?p0 "[zeroMessage]" sample_net] w(2)
    by (simp add: offer_def pipelineBufSize_def)
  obtain req where "post_begin sample_net zeroMessage ?p1 = Inr (?u, req)"
    using sample_post by (auto simp: post_begin_def)
  then obtain p2 where t: "pipeline_step sample_net ?p1 (Took zeroMessage req) p2"
      and p2: "p2 = ?p1\<lparr>pl_msgc := [], pl_workers := (replicate 4 Idle)[0 := Posting zeroMessage ?u]\<rparr>"
    using pipeline_step.take_message [of 0 ?p1 zeroMessage "[]" sample_net ?u req] w by simp
  have "post_end ?u (Response 204 (Inr []) :: unit round_trip) p2 = Inr (p2, None)"
    by (simp add: post_end_def checkPostResponse_def)
  then obtain p3 where "pipeline_step sample_net p2 (Delivered zeroMessage) p3"
    using pipeline_step.success [of 0 p2 zeroMessage ?u "Response 204 (Inr [])" p2 sample_net] p2
    by (auto simp: numeral_eq_Suc)
  then have r: "pipeline_run sample_net ?p0 p3 [zeroMessage] [zeroMessage] []"
    using pipeline_run.delivered [OF pipeline_run.took [OF r1 t]] by fastforce
  show ?thesis using pipeline_conserves [OF r [unfolded sample_peer_def]] r by auto
qed

text \<open>C31: every URL of a peer is tried: from any state of the picker, before as many attempts in a row have
  failed as there are URLs, each URL has been the chosen one; and when two workers report the same failed
  URL, the second report changes nothing unless the URL chosen by then is the same one again, which it
  cannot be when the URLs are distinct and more than one.\<close>

theorem picker_tries_every_url:
  assumes "picker_ok p" and "u \<in> set (up_urls p)"
  shows "(\<exists>k < length (up_urls p). \<exists>p'. failures k p = Inr p' \<and> picker_pick p' = Inr u) \<and>
    (\<exists>p'. picker_unreachable u p = Inr p' \<and>
       (picker_pick p' \<noteq> Inr u \<longrightarrow> picker_unreachable u p' = Inr p') \<and>
       (distinct (up_urls p) \<and> 1 < length (up_urls p) \<longrightarrow> picker_pick p' \<noteq> Inr u))"
proof
  let ?n = "length (up_urls p)"
  obtain j where j: "j < ?n" "up_urls p ! j = u" using assms(2) by (auto simp: in_set_conv_nth)
  define k where "k = (j + (?n - up_picked p)) mod ?n"
  have i: "up_picked p < ?n" using assms(1) by (simp add: picker_ok_def)
  have "(up_picked p + k) mod ?n = (up_picked p + (j + (?n - up_picked p))) mod ?n"
    unfolding k_def by (rule mod_add_right_eq)
  also have "up_picked p + (j + (?n - up_picked p)) = j + ?n" using i by simp
  finally have "(up_picked p + k) mod ?n = j" using j(1) by simp
  moreover obtain p' where "failures k p = Inr p'" "picker_ok p'" "up_urls p' = up_urls p"
      "up_picked p' = (up_picked p + k) mod ?n"
    using failures_rotate [OF assms(1)] by blast
  moreover have "k < ?n" unfolding k_def using i by (intro mod_less_divisor) linarith
  ultimately show "\<exists>k < ?n. \<exists>p'. failures k p = Inr p' \<and> picker_pick p' = Inr u"
    using j(2) by (auto simp: picker_pick_ok)
next
  obtain p' where p': "picker_unreachable u p = Inr p'" "picker_ok p'" "up_urls p' = up_urls p"
      "up_picked p' = (if u = up_urls p ! up_picked p then (up_picked p + 1) mod length (up_urls p) else up_picked p)"
    using picker_unreachable_ok [OF assms(1)] by metis
  have pick: "picker_pick p' = Inr (up_urls p ! up_picked p')" using picker_pick_ok [OF p'(2)] p'(3) by simp
  have "picker_unreachable u p' = Inr p'" if "picker_pick p' \<noteq> Inr u"
    using that p'(2,3) pick by (auto simp: picker_unreachable_def [of u p'] picker_ok_def)
  moreover have "picker_pick p' \<noteq> Inr u" if d: "distinct (up_urls p) \<and> 1 < length (up_urls p)"
  proof (cases "u = up_urls p ! up_picked p")
    case True
    have i: "up_picked p < length (up_urls p)" "up_picked p' < length (up_urls p)"
      using assms(1) p'(2,3) by (simp_all add: picker_ok_def)
    have "(up_picked p + 1) mod length (up_urls p) \<noteq> up_picked p"
      using d i(1) by (cases "up_picked p + 1 = length (up_urls p)") auto
    then have "up_picked p' \<noteq> up_picked p" using p'(4) True by simp
    then show ?thesis using d i True pick by (simp add: nth_eq_iff_index_eq)
  next
    case False
    then show ?thesis using p'(4) pick by simp
  qed
  ultimately show "\<exists>p'. picker_unreachable u p = Inr p' \<and>
       (picker_pick p' \<noteq> Inr u \<longrightarrow> picker_unreachable u p' = Inr p') \<and>
       (distinct (up_urls p) \<and> 1 < length (up_urls p) \<longrightarrow> picker_pick p' \<noteq> Inr u)"
    using p'(1) by blast
qed

theorem picker_tries_every_url_witness:
  "\<exists>p'. picker_unreachable (plain_url ''b:2'') (newURLPicker [plain_url ''a:1'', plain_url ''b:2'']) = Inr p' \<and>
     picker_unreachable (plain_url ''b:2'') p' = Inr p'"
proof -
  let ?us = "[plain_url ''a:1'', plain_url ''b:2'']"
  have "picker_ok (newURLPicker ?us)" "plain_url ''b:2'' \<in> set (up_urls (newURLPicker ?us))"
      "distinct (up_urls (newURLPicker ?us))"
    by (simp_all add: picker_ok_def newURLPicker_def plain_url_def)
  from picker_tries_every_url [OF this(1,2)] this(3) show ?thesis by (auto simp: newURLPicker_def)
qed



end
