(* ===== verification/Http_Dial.thy ===== *)
theory Http_Dial
  imports Raft_Models
begin

text \<open>
  \<open>src/raft/http/timeout_transport.go\<close> and \<open>tls.go\<close>: the HTTP client transports by which members reach
  one another, and the connections they open.  \<open>net\<close> and \<open>net/http\<close> are modelled as far as the source
  configures them: which dial function a transport uses, which connection the dial function gives, and
  when a read or a write of that connection comes back.  Times and durations are nanoseconds; a
  duration is a Go \<open>int64\<close> and small enough not to overflow when it is added to the clock.  The answer of
  \<open>net.ResolveTCPAddr\<close> is the parameter \<open>resolves\<close>.
\<close>

type_synonym duration = int

abbreviation (input) second :: duration where "second \<equiv> 1000000000"

section \<open>TLS settings\<close>

record TLSInfo =
  CertFile :: string
  KeyFile :: string
  ServerName :: string
  LocalAddr :: string

definition TLSInfo_Empty :: "TLSInfo \<Rightarrow> bool" where
  "TLSInfo_Empty info = (CertFile info = [] \<and> KeyFile info = [])"

datatype tls_err = MissingFile | BadLocalAddr

text \<open>A configuration is nil or names the server.\<close>

definition baseConfig :: "TLSInfo \<Rightarrow> tls_err + string option" where
  "baseConfig info = (if KeyFile info = [] \<or> CertFile info = [] then Inl MissingFile else Inr None)"

definition ClientConfig :: "TLSInfo \<Rightarrow> tls_err + string option" where
  "ClientConfig info = (if \<not> TLSInfo_Empty info then baseConfig info else Inr (Some (ServerName info)))"

section \<open>Connections\<close>

text \<open>A connection holds the deadlines set on it, or its descriptor is closed.  What the other side does is
  given with each call: the time at which the bytes can be moved and how many, or never.\<close>

record net_conn =
  nc_closed :: bool
  nc_readDeadline :: "int option"
  nc_writeDeadline :: "int option"

datatype conn_err = ConnClosed | IOTimeout

definition open_conn :: net_conn where
  "open_conn = \<lparr>nc_closed = False, nc_readDeadline = None, nc_writeDeadline = None\<rparr>"

definition SetReadDeadline :: "int \<Rightarrow> net_conn \<Rightarrow> net_conn \<times> conn_err option" where
  "SetReadDeadline at c =
     (if nc_closed c then (c, Some ConnClosed) else (c\<lparr>nc_readDeadline := Some at\<rparr>, None))"

definition SetWriteDeadline :: "int \<Rightarrow> net_conn \<Rightarrow> net_conn \<times> conn_err option" where
  "SetWriteDeadline at c =
     (if nc_closed c then (c, Some ConnClosed) else (c\<lparr>nc_writeDeadline := Some at\<rparr>, None))"

text \<open>When a call that starts at \<open>now\<close> comes back and with what: the number of bytes and the error.  \<open>None\<close>
  is a call that blocks for ever.\<close>

type_synonym io_result = "(int \<times> nat \<times> conn_err option) option"

definition conn_io :: "int option \<Rightarrow> bool \<Rightarrow> int \<Rightarrow> (int \<times> nat) option \<Rightarrow> io_result" where
  "conn_io deadline closed now ready =
     (if closed then Some (now, 0, Some ConnClosed)
      else case (deadline, ready) of
        (None, None) \<Rightarrow> None
      | (None, Some (at, n)) \<Rightarrow> Some (max now at, n, None)
      | (Some d, None) \<Rightarrow> Some (max now d, 0, Some IOTimeout)
      | (Some d, Some (at, n)) \<Rightarrow>
          if d \<le> now \<or> d < at then Some (max now d, 0, Some IOTimeout) else Some (max now at, n, None))"

definition net_Read :: "int \<Rightarrow> (int \<times> nat) option \<Rightarrow> net_conn \<Rightarrow> io_result" where
  "net_Read now ready c = conn_io (nc_readDeadline c) (nc_closed c) now ready"

definition net_Write :: "int \<Rightarrow> (int \<times> nat) option \<Rightarrow> net_conn \<Rightarrow> io_result" where
  "net_Write now ready c = conn_io (nc_writeDeadline c) (nc_closed c) now ready"

record timeoutConn =
  tc_Conn :: net_conn
  tc_writeTimeout :: duration
  tc_readTimeout :: duration

definition timeoutConn_Write :: "int \<Rightarrow> (int \<times> nat) option \<Rightarrow> timeoutConn \<Rightarrow> timeoutConn \<times> io_result" where
  "timeoutConn_Write now ready c =
     (if tc_writeTimeout c > 0 then
        (case SetWriteDeadline (now + tc_writeTimeout c) (tc_Conn c) of
           (k, Some err) \<Rightarrow> (c\<lparr>tc_Conn := k\<rparr>, Some (now, 0, Some err))
         | (k, None) \<Rightarrow> (c\<lparr>tc_Conn := k\<rparr>, net_Write now ready k))
      else (c, net_Write now ready (tc_Conn c)))"

definition timeoutConn_Read :: "int \<Rightarrow> (int \<times> nat) option \<Rightarrow> timeoutConn \<Rightarrow> timeoutConn \<times> io_result" where
  "timeoutConn_Read now ready c =
     (if tc_readTimeout c > 0 then
        (case SetReadDeadline (now + tc_readTimeout c) (tc_Conn c) of
           (k, Some err) \<Rightarrow> (c\<lparr>tc_Conn := k\<rparr>, Some (now, 0, Some err))
         | (k, None) \<Rightarrow> (c\<lparr>tc_Conn := k\<rparr>, net_Read now ready k))
      else (c, net_Read now ready (tc_Conn c)))"

section \<open>Dial functions\<close>

record Dialer =
  d_Timeout :: duration
  d_KeepAlive :: duration
  d_LocalAddr :: "string option"

record rwTimeoutDialer =
  rw_wtimeoutd :: duration
  rw_rdtimeoutd :: duration
  rw_Dialer :: Dialer

text \<open>What a transport can be given as its dial function: the method of a dialer, the closure that always
  dials a unix socket, and the method of a dialer with timeouts.\<close>

datatype dial_fn = DialContextOf Dialer | DialUnix Dialer | DialTimeout rwTimeoutDialer

text \<open>A connection as the transport sees it.\<close>

datatype conn = PlainConn net_conn | TimedConn timeoutConn

fun conn_Read :: "int \<Rightarrow> (int \<times> nat) option \<Rightarrow> conn \<Rightarrow> conn \<times> io_result" where
  "conn_Read now ready (PlainConn c) = (PlainConn c, net_Read now ready c)"
| "conn_Read now ready (TimedConn c) = (case timeoutConn_Read now ready c of (c, r) \<Rightarrow> (TimedConn c, r))"

fun conn_Write :: "int \<Rightarrow> (int \<times> nat) option \<Rightarrow> conn \<Rightarrow> conn \<times> io_result" where
  "conn_Write now ready (PlainConn c) = (PlainConn c, net_Write now ready c)"
| "conn_Write now ready (TimedConn c) = (case timeoutConn_Write now ready c of (c, r) \<Rightarrow> (TimedConn c, r))"

text \<open>A dialer answers with a connection and an error; with an error the connection is nil, which stands for
  a closed one.  \<open>rwTimeoutDialer.Dial\<close> wraps whatever it got and passes the error on.\<close>

definition rw_Dial :: "rwTimeoutDialer \<Rightarrow> net_conn \<times> 'd option \<Rightarrow> timeoutConn \<times> 'd option" where
  "rw_Dial d dialed =
     (case dialed of (c, err) \<Rightarrow>
        (\<lparr>tc_Conn = c, tc_writeTimeout = rw_wtimeoutd d, tc_readTimeout = rw_rdtimeoutd d\<rparr>, err))"

text \<open>The network a dial function connects to, and the connection that comes of it.\<close>

fun dial_network :: "dial_fn \<Rightarrow> string \<Rightarrow> string" where
  "dial_network (DialUnix d) network = ''unix''"
| "dial_network _ network = network"

fun run_dial :: "dial_fn \<Rightarrow> net_conn \<times> 'd option \<Rightarrow> conn \<times> 'd option" where
  "run_dial (DialTimeout d) dialed = (case rw_Dial d dialed of (c, err) \<Rightarrow> (TimedConn c, err))"
| "run_dial _ dialed = (case dialed of (c, err) \<Rightarrow> (PlainConn c, err))"

section \<open>Transports\<close>

text \<open>\<open>http.Transport\<close>: the fields the source sets, and the protocols registered with it, each served by
  another transport.\<close>

record client_transport =
  ct_Dial :: "dial_fn option"
  ct_DialContext :: "dial_fn option"
  ct_TLSHandshakeTimeout :: duration
  ct_TLSClientConfig :: "string option"
  ct_IdleConnTimeout :: duration
  ct_MaxIdleConnsPerHost :: int

record http_Transport = client_transport +
  ct_protocols :: "(string \<times> client_transport) list"

definition NewTransport :: "bool \<Rightarrow> TLSInfo \<Rightarrow> duration \<Rightarrow> tls_err + http_Transport" where
  "NewTransport resolves info dialtimeoutd =
     (case ClientConfig info of
        Inl e \<Rightarrow> Inl e
      | Inr cfg \<Rightarrow>
          if LocalAddr info \<noteq> [] \<and> \<not> resolves then Inl BadLocalAddr
          else
            (let ipAddr = (if LocalAddr info \<noteq> [] then Some (LocalAddr info @ '':0'') else None);
                 dialer = \<lparr>d_Timeout = dialtimeoutd, d_KeepAlive = 30 * second, d_LocalAddr = None\<rparr>;
                 tu = \<lparr>ct_Dial = None, ct_DialContext = Some (DialUnix dialer),
                   ct_TLSHandshakeTimeout = 10 * second, ct_TLSClientConfig = cfg,
                   ct_IdleConnTimeout = 1000, ct_MaxIdleConnsPerHost = 0\<rparr>
             in Inr \<lparr>ct_Dial = None,
                  ct_DialContext = Some (DialContextOf
                    \<lparr>d_Timeout = dialtimeoutd, d_KeepAlive = 30 * second, d_LocalAddr = ipAddr\<rparr>),
                  ct_TLSHandshakeTimeout = 10 * second, ct_TLSClientConfig = cfg,
                  ct_IdleConnTimeout = 0, ct_MaxIdleConnsPerHost = 0,
                  ct_protocols = [(''unix'', tu), (''unixs'', tu)]\<rparr>))"

definition NewTimeoutTransport ::
  "bool \<Rightarrow> TLSInfo \<Rightarrow> duration \<Rightarrow> duration \<Rightarrow> duration \<Rightarrow> tls_err + http_Transport" where
  "NewTimeoutTransport resolves info dialtimeoutd rdtimeoutd wtimeoutd =
     (case NewTransport resolves info dialtimeoutd of
        Inl e \<Rightarrow> Inl e
      | Inr tr \<Rightarrow>
          (let tr = tr\<lparr>ct_MaxIdleConnsPerHost := (if rdtimeoutd \<noteq> 0 \<or> wtimeoutd \<noteq> 0 then - 1 else 1024)\<rparr>
           in Inr (tr\<lparr>ct_Dial := Some (DialTimeout
                \<lparr>rw_wtimeoutd = wtimeoutd, rw_rdtimeoutd = rdtimeoutd,
                 rw_Dialer = \<lparr>d_Timeout = dialtimeoutd, d_KeepAlive = 30 * second, d_LocalAddr = None\<rparr>\<rparr>)\<rparr>)))"

definition ConnReadTimeout :: duration where
  "ConnReadTimeout = 5 * second"

definition ConnWriteTimeout :: duration where
  "ConnWriteTimeout = 5 * second"

definition NewRoundTripper :: "bool \<Rightarrow> TLSInfo \<Rightarrow> duration \<Rightarrow> tls_err + http_Transport" where
  "NewRoundTripper resolves info dialTimeout = NewTimeoutTransport resolves info dialTimeout 0 0"

definition newStreamRoundTripper :: "bool \<Rightarrow> TLSInfo \<Rightarrow> duration \<Rightarrow> tls_err + http_Transport" where
  "newStreamRoundTripper resolves info dialTimeout =
     NewTimeoutTransport resolves info dialTimeout ConnReadTimeout ConnWriteTimeout"

section \<open>A round trip\<close>

text \<open>\<open>strings.Replace(s, old, new, 1)\<close> for a word to be replaced that is not empty.\<close>

fun Replace_first :: "string \<Rightarrow> string \<Rightarrow> string \<Rightarrow> string" where
  "Replace_first old new [] = []"
| "Replace_first old new (c # s) =
     (if take (length old) (c # s) = old then new @ drop (length old) (c # s) else c # Replace_first old new s)"

text \<open>\<open>unixTransport.RoundTrip\<close>: the URL with which it asks the transport it wraps.\<close>

definition unix_RoundTrip :: "URL \<Rightarrow> URL" where
  "unix_RoundTrip u = u\<lparr>Scheme := Replace_first ''unix'' ''http'' (Scheme u)\<rparr>"

text \<open>How \<open>http.Transport\<close> dials: \<open>DialContext\<close> when it is set, else \<open>Dial\<close>, else a dialer of its own.\<close>

definition dials_with :: "'a client_transport_scheme \<Rightarrow> dial_fn" where
  "dials_with t =
     (case ct_DialContext t of
        Some f \<Rightarrow> f
      | None \<Rightarrow>
          (case ct_Dial t of
             Some f \<Rightarrow> f
           | None \<Rightarrow> DialContextOf \<lparr>d_Timeout = 0, d_KeepAlive = 0, d_LocalAddr = None\<rparr>))"

text \<open>The connection of a request: the dial function, and whether TLS is spoken over it.  A registered
  protocol is served by its own transport; a scheme that is neither registered nor one of HTTP fails.\<close>

definition via_http :: "'a client_transport_scheme \<Rightarrow> URL \<Rightarrow> (dial_fn \<times> bool) option" where
  "via_http t u =
     (if Scheme u = ''http'' then Some (dials_with t, False)
      else if Scheme u = ''https'' then Some (dials_with t, True)
      else None)"

definition RoundTrip_via :: "http_Transport \<Rightarrow> URL \<Rightarrow> (dial_fn \<times> bool) option" where
  "RoundTrip_via t u =
     (case map_of (ct_protocols t) (Scheme u) of
        Some tu \<Rightarrow> via_http tu (unix_RoundTrip u)
      | None \<Rightarrow> via_http t u)"

section \<open>Facts\<close>

lemma conn_io_silent: "conn_io None False now None = None"
  by (simp add: conn_io_def)

lemma conn_io_deadline:
  "now \<le> d \<Longrightarrow> \<exists>at n err. conn_io (Some d) closed now ready = Some (at, n, err) \<and> now \<le> at \<and> at \<le> d"
  by (auto simp: conn_io_def split: option.split)

lemma timeoutConn_Read_bound:
  assumes "0 < tc_readTimeout c"
  shows "\<exists>at n err. snd (timeoutConn_Read now ready c) = Some (at, n, err) \<and>
    now \<le> at \<and> at \<le> now + tc_readTimeout c"
  using assms conn_io_deadline [of now "now + tc_readTimeout c" "nc_closed (tc_Conn c)" ready]
  by (auto simp: timeoutConn_Read_def SetReadDeadline_def net_Read_def)

lemma timeoutConn_Write_bound:
  assumes "0 < tc_writeTimeout c"
  shows "\<exists>at n err. snd (timeoutConn_Write now ready c) = Some (at, n, err) \<and>
    now \<le> at \<and> at \<le> now + tc_writeTimeout c"
  using assms conn_io_deadline [of now "now + tc_writeTimeout c" "nc_closed (tc_Conn c)" ready]
  by (auto simp: timeoutConn_Write_def SetWriteDeadline_def net_Write_def)

lemma NewTransport_dials:
  assumes "NewTransport resolves info d = Inr t"
  obtains f g tu where "ct_DialContext t = Some (DialContextOf f)" "ct_protocols t = [(''unix'', tu), (''unixs'', tu)]"
    "ct_DialContext tu = Some (DialUnix g)"
  using assms by (auto simp: NewTransport_def Let_def split: sum.splits if_splits)

lemma unix_schemes: "Replace_first ''unix'' ''http'' ''unix'' = ''http''" "Replace_first ''unix'' ''http'' ''unixs'' = ''https''"
  by simp_all

lemma plain_never_returns:
  assumes "f = DialContextOf d \<or> f = DialUnix d"
  shows "snd (conn_Read now None (fst (run_dial f (open_conn, e)))) = None"
    "snd (conn_Write now None (fst (run_dial f (open_conn, e)))) = None"
  using assms by (auto simp: net_Read_def net_Write_def open_conn_def conn_io_silent)

lemma timeout_transport_dials:
  assumes "NewTimeoutTransport resolves info d rd wr = Inr t" and "Scheme u \<in> {''http'', ''https'', ''unix'', ''unixs''}"
  obtains f tls g where "RoundTrip_via t u = Some (f, tls)" "f = DialContextOf g \<or> f = DialUnix g"
proof -
  obtain t0 where t0: "NewTransport resolves info d = Inr t0" and t: "ct_DialContext t = ct_DialContext t0"
      "ct_protocols t = ct_protocols t0"
    using assms(1) by (auto simp: NewTimeoutTransport_def Let_def split: sum.splits)
  obtain f g tu where d: "ct_DialContext t0 = Some (DialContextOf f)"
      "ct_protocols t0 = [(''unix'', tu), (''unixs'', tu)]" "ct_DialContext tu = Some (DialUnix g)"
    by (rule NewTransport_dials [OF t0])
  show thesis
    using assms(2) t d
    by (auto simp: RoundTrip_via_def via_http_def unix_RoundTrip_def dials_with_def unix_schemes
      intro: that simp del: Replace_first.simps)
qed

section \<open>Properties\<close>

text \<open>A connection with timeouts gives every read and write back by its time limit, whatever the other
  side does; but no request of a transport made by \<open>NewTimeoutTransport\<close> goes over such a connection,
  for \<open>DialContext\<close>, which it leaves set, takes precedence over the \<open>Dial\<close> it sets: against a silent
  peer a read or a write blocks for ever, whatever limits were asked for.\<close>

theorem timeouts_bypassed:
  assumes "0 < tc_readTimeout c" and "0 < tc_writeTimeout c"
    and "NewTimeoutTransport resolves info d rd wr = Inr t"
    and "Scheme u \<in> {''http'', ''https'', ''unix'', ''unixs''}"
  shows "(\<exists>at n err. snd (conn_Read now ready (TimedConn c)) = Some (at, n, err) \<and>
        now \<le> at \<and> at \<le> now + tc_readTimeout c) \<and>
    (\<exists>at n err. snd (conn_Write now ready (TimedConn c)) = Some (at, n, err) \<and>
        now \<le> at \<and> at \<le> now + tc_writeTimeout c) \<and>
    (\<exists>f tls. RoundTrip_via t u = Some (f, tls) \<and>
        (\<forall>now. snd (conn_Read now None (fst (run_dial f (open_conn, None :: unit option)))) = None \<and>
               snd (conn_Write now None (fst (run_dial f (open_conn, None :: unit option)))) = None))"
proof -
  obtain f tls g where f: "RoundTrip_via t u = Some (f, tls)" "f = DialContextOf g \<or> f = DialUnix g"
    by (rule timeout_transport_dials [OF assms(3,4)])
  then show ?thesis
    using timeoutConn_Read_bound [OF assms(1)] timeoutConn_Write_bound [OF assms(2)]
      plain_never_returns [OF f(2)] by (auto simp: case_prod_unfold)
qed

definition no_tls :: TLSInfo where
  "no_tls = \<lparr>CertFile = [], KeyFile = [], ServerName = [], LocalAddr = []\<rparr>"

definition stream_conn :: timeoutConn where
  "stream_conn = \<lparr>tc_Conn = open_conn, tc_writeTimeout = ConnWriteTimeout, tc_readTimeout = ConnReadTimeout\<rparr>"

theorem timeouts_bypassed_witness:
  "\<exists>t f tls. newStreamRoundTripper True no_tls second = Inr t \<and>
     snd (conn_Read 0 None (TimedConn stream_conn)) = Some (5 * second, 0, Some IOTimeout) \<and>
     RoundTrip_via t (plain_url ''b:2'') = Some (f, tls) \<and>
     snd (conn_Read 0 None (fst (run_dial f (open_conn, None :: unit option)))) = None"
proof -
  obtain t where t: "newStreamRoundTripper True no_tls second = Inr t"
    by (simp add: newStreamRoundTripper_def NewTimeoutTransport_def NewTransport_def ClientConfig_def
      TLSInfo_Empty_def no_tls_def Let_def)
  have "0 < tc_readTimeout stream_conn" "0 < tc_writeTimeout stream_conn"
    by (simp_all add: stream_conn_def ConnReadTimeout_def ConnWriteTimeout_def)
  from timeouts_bypassed [OF this t [unfolded newStreamRoundTripper_def], of "plain_url ''b:2''" 0 None]
  obtain f tls where "RoundTrip_via t (plain_url ''b:2'') = Some (f, tls)"
      "snd (conn_Read 0 None (fst (run_dial f (open_conn, None :: unit option)))) = None"
    by (auto simp: plain_url_def)
  moreover have "snd (conn_Read 0 None (TimedConn stream_conn)) = Some (5 * second, 0, Some IOTimeout)"
    by (simp add: stream_conn_def timeoutConn_Read_def SetReadDeadline_def net_Read_def conn_io_def open_conn_def
      ConnReadTimeout_def)
  ultimately show ?thesis using t by blast
qed

end
