(* ===== verification/Http_Transport.thy ===== *)
theory Http_Transport
  imports Http_Peer Http_Dial
begin

text \<open>
  \<open>src/raft/http\<close>: the transport between members.  \<open>transport.go\<close> routes messages to peers, \<open>http.go\<close> is
  the receiving handler, the rest of \<open>util.go\<close> looks at the headers of a request, \<open>utils/ioutil.go\<close>
  limits a read.  \<open>net/http\<close> carries method, headers and body
  unchanged.  \<open>go-semver\<close> is a parameter where versions are compared or printed.
\<close>

section \<open>The transport\<close>

text \<open>The maps are nil until \<open>Start\<close>; a pipeline's parameters are those of the transport.\<close>

record 'e Transport =
  tr_logger :: bool
  tr_net :: "'e net"
  tr_DialTimeout :: duration
  tr_DialRetryFrequency :: nat
  tr_TLSInfo :: TLSInfo
  tr_streamRt :: "http_Transport option"
  tr_pipelineRt :: "http_Transport option"
  tr_remotes :: "(ID, remote) fmap option"
  tr_peers :: "(ID, peer) fmap option"

text \<open>\<open>Start\<close> makes the two round trippers and the maps; the default of the retry frequency is ten in a
  second.\<close>

definition Transport_Start :: "bool \<Rightarrow> 'e Transport \<Rightarrow> 'e Transport \<times> tls_err option" where
  "Transport_Start resolves t =
     (case newStreamRoundTripper resolves (tr_TLSInfo t) (tr_DialTimeout t) of
        Inl err \<Rightarrow> (t\<lparr>tr_streamRt := None\<rparr>, Some err)
      | Inr rt \<Rightarrow>
          (let t = t\<lparr>tr_streamRt := Some rt\<rparr> in
           case NewRoundTripper resolves (tr_TLSInfo t) (tr_DialTimeout t) of
             Inl err \<Rightarrow> (t\<lparr>tr_pipelineRt := None\<rparr>, Some err)
           | Inr rt \<Rightarrow>
               (let t = t\<lparr>tr_pipelineRt := Some rt, tr_remotes := Some fmempty, tr_peers := Some fmempty\<rparr> in
                (if tr_DialRetryFrequency t = 0 then t\<lparr>tr_DialRetryFrequency := 10\<rparr> else t, None))))"

definition Transport_Get :: "ID \<Rightarrow> 'e Transport \<Rightarrow> peer option" where
  "Transport_Get i t = (case tr_peers t of None \<Rightarrow> None | Some ps \<Rightarrow> fmlookup ps i)"

definition remote_of :: "ID \<Rightarrow> 'e Transport \<Rightarrow> remote option" where
  "remote_of i t = (case tr_remotes t of None \<Rightarrow> None | Some gs \<Rightarrow> fmlookup gs i)"

definition AddPeer :: "ID \<Rightarrow> string list \<Rightarrow> 'e Transport \<Rightarrow> 'e Transport go" where
  "AddPeer i us t =
     (case tr_peers t of
        None \<Rightarrow> Inl (ExplicitPanic ''transport stopped'')
      | Some ps \<Rightarrow>
          if fmlookup ps i \<noteq> None then Inr t
          else go_bind
            (case NewURLs (nt_parse (tr_net t)) (nt_show (tr_net t)) us of
               Inr urls \<Rightarrow> Inr urls
             | Inl e \<Rightarrow> if tr_logger t then Inl (ExplicitPanic ''failed NewURLs'') else Inr [])
            (\<lambda>urls. Inr (t\<lparr>tr_peers := Some (fmupd i (startPeer (nt_ID (tr_net t)) urls i) ps)\<rparr>)))"

text \<open>The step of \<open>Send\<close> for one message, and the peers for which it then calls \<open>ReportUnreachable\<close>: at most one,
  as its last action.  A caller that models the wait in that call does so before the next message.\<close>

definition send_one :: "Message \<Rightarrow> 'e Transport \<Rightarrow> 'e Transport \<times> uint64 list" where
  "send_one m t =
     (if mTo m = 0 then (t, [])
      else case Transport_Get (mTo m) t of
        Some p \<Rightarrow>
          (let (p, reported) = peer_send m p in
           (t\<lparr>tr_peers := map_option (fmupd (mTo m) p) (tr_peers t)\<rparr>, reported))
      | None \<Rightarrow>
          (case remote_of (mTo m) t of
             Some g \<Rightarrow> (t\<lparr>tr_remotes := map_option (fmupd (mTo m) (remote_send m g)) (tr_remotes t)\<rparr>, [])
           | None \<Rightarrow> (t, [])))"

fun Transport_Send :: "Message list \<Rightarrow> 'e Transport \<Rightarrow> 'e Transport \<times> uint64 list" where
  "Transport_Send [] t = (t, [])"
| "Transport_Send (m # ms) t =
     (let (t, rs) = send_one m t; (t, rs') = Transport_Send ms t in (t, rs @ rs'))"

text \<open>The operations whose bodies are still to be written.\<close>

definition AddRemote :: "ID \<Rightarrow> string list \<Rightarrow> 'e Transport \<Rightarrow> 'e Transport" where
  "AddRemote i us t = t"

definition removePeer :: "ID \<Rightarrow> 'e Transport \<Rightarrow> 'e Transport" where
  "removePeer i t = t"

definition RemovePeer :: "ID \<Rightarrow> 'e Transport \<Rightarrow> 'e Transport" where
  "RemovePeer i t = removePeer i t"

definition RemoveAllPeers :: "'e Transport \<Rightarrow> 'e Transport" where
  "RemoveAllPeers t = t"

definition UpdatePeer :: "ID \<Rightarrow> string list \<Rightarrow> 'e Transport \<Rightarrow> 'e Transport" where
  "UpdatePeer i us t = t"

definition Transport_Stop :: "'e Transport \<Rightarrow> 'e Transport" where
  "Transport_Stop t = t"

text \<open>A zero time is \<open>None\<close>.\<close>

definition Transport_ActiveSince :: "ID \<Rightarrow> 'e Transport \<Rightarrow> nat option" where
  "Transport_ActiveSince i t = None"

definition ActivePeers :: "'e Transport \<Rightarrow> int" where
  "ActivePeers t = 0"

section \<open>Reading a request\<close>

text \<open>A reader is the list of the pieces that still arrive; one \<open>Read\<close> returns at most the room it is
  given and never joins two pieces.\<close>

definition reader_Read :: "nat \<Rightarrow> byte list list \<Rightarrow> byte list \<times> byte list list" where
  "reader_Read room r =
     (case r of
        [] \<Rightarrow> ([], [])
      | c # cs \<Rightarrow> (take room c, if room < length c then drop room c # cs else cs))"

definition limited_Read :: "nat \<Rightarrow> nat \<Rightarrow> byte list list \<Rightarrow> byte list \<times> byte list list" where
  "limited_Read n room r = (let np = (if room > n then n else room) in reader_Read np r)"

definition connReadLimitByte :: nat where
  "connReadLimitByte = 64 * 1024"

text \<open>\<open>io.ReadAll\<close> reads until the end of the data; \<open>Suc (room k)\<close> is the free space of its buffer the
  \<open>k\<close>-th time.\<close>

function ReadAll :: "(nat \<Rightarrow> nat) \<Rightarrow> nat \<Rightarrow> byte list list \<Rightarrow> byte list" where
  "ReadAll room k r =
     (if r = [] then []
      else (let (b, r') = limited_Read connReadLimitByte (Suc (room k)) r in b @ ReadAll room (Suc k) r'))"
  by pat_completeness auto
termination
proof (relation "measure (\<lambda>(room, k, r). length (concat r) + length r)", goal_cases)
  case (2 room k r x b r')
  then obtain c cs where r: "r = c # cs" by (cases r) auto
  show ?case using 2(2,3)
    by (auto simp: r limited_Read_def reader_Read_def connReadLimitByte_def Let_def split: if_splits)
qed simp

declare ReadAll.simps [simp del]

section \<open>The receiving handler\<close>

type_synonym header = "(string \<times> string) list"

text \<open>\<open>Header.Get\<close>: the empty string when the key is missing.\<close>

definition header_Get :: "string \<Rightarrow> header \<Rightarrow> string" where
  "header_Get k h = (case map_of h k of None \<Rightarrow> [] | Some v \<Rightarrow> v)"

definition addRemoteFromRequest :: "header \<Rightarrow> 'e Transport \<Rightarrow> 'e Transport" where
  "addRemoteFromRequest h t =
     (case IDFromString (header_Get ''X-Server-From'' h) of
        Inl _ \<Rightarrow> t
      | Inr from \<Rightarrow>
          (let urls = header_Get ''X-PeerURLs'' h in
           if urls \<noteq> [] then AddRemote from (Split (CHR '','') urls) t else t))"

record HttpResponse =
  hr_status :: nat
  hr_header :: header
  hr_body :: "byte list"

definition http_Error :: "string \<Rightarrow> nat \<Rightarrow> header \<Rightarrow> HttpResponse" where
  "http_Error msg status h =
     \<lparr>hr_status = status,
      hr_header = h @ [(''Content-Type'', ''text/plain; charset=utf-8''), (''X-Content-Type-Options'', ''nosniff'')],
      hr_body = text_bytes msg @ [10]\<rparr>"

text \<open>A handler answers, or answers and then cuts the connection by a panic.\<close>

datatype handled = Answer HttpResponse | Cut HttpResponse

fun answer_of :: "handled \<Rightarrow> HttpResponse" where
  "answer_of (Answer r) = r"
| "answer_of (Cut r) = r"

record pipelineHandler =
  ph_localID :: ID
  ph_cid :: ID

definition newPipelineHandler :: "'e Transport \<Rightarrow> ID \<Rightarrow> pipelineHandler" where
  "newPipelineHandler t cid = \<lparr>ph_localID = nt_ID (tr_net t), ph_cid = cid\<rparr>"

text \<open>The body is the data read or an error.  \<open>process\<close> is \<open>Raft.Process\<close> on a state: the new state and the
  error.  No error of the program writes its own response.\<close>

definition ServeHTTP ::
  "pipelineHandler \<Rightarrow> (Message \<Rightarrow> 's \<Rightarrow> ('s \<times> 'p option) go) \<Rightarrow> string \<Rightarrow> header \<Rightarrow> 'e + byte list \<Rightarrow>
   'e Transport \<Rightarrow> 's \<Rightarrow> ('s \<times> 'e Transport \<times> handled) go" where
  "ServeHTTP h process meth hdr body t s =
     (if meth \<noteq> ''POST'' then Inr (s, t, Answer (http_Error ''Method Not Allowed'' 405 [(''Allow'', ''POST'')]))
      else
        (let out = [(''X-Etcd-Cluster-ID'', ID_String (ph_cid h))]; t = addRemoteFromRequest hdr t in
         case body of
           Inl e \<Rightarrow> Inr (s, t, Answer (http_Error ''error reading raft message'' 400 out))
         | Inr b \<Rightarrow>
             (case Message_Unmarshal zeroMessage b of
                (_, Some err) \<Rightarrow> Inr (s, t, Answer (http_Error ''error unmarshalling raft message'' 400 out))
              | (m, None) \<Rightarrow>
                  go_bind (process m s) (\<lambda>(s, err).
                    Inr (s, t,
                      case err of
                        Some e \<Rightarrow> Cut (http_Error ''error processing raft message'' 500 out)
                      | None \<Rightarrow> Answer \<lparr>hr_status = 204, hr_header = out, hr_body = []\<rparr>)))))"

text \<open>The handler of streams is not written: it answers every request with an empty page.\<close>

record streamHandler =
  sh_id :: ID
  sh_cid :: ID

definition newStreamHandler :: "ID \<Rightarrow> ID \<Rightarrow> streamHandler" where
  "newStreamHandler i cid = \<lparr>sh_id = i, sh_cid = cid\<rparr>"

definition streamHandler_ServeHTTP :: "streamHandler \<Rightarrow> HttpResponse" where
  "streamHandler_ServeHTTP h = \<lparr>hr_status = 200, hr_header = [], hr_body = []\<rparr>"

section \<open>The handler of the transport\<close>

definition ProbingPrefix :: string where
  "ProbingPrefix = RaftPrefix @ ''/'' @ ''probing''"

definition RaftStreamPrefix :: string where
  "RaftStreamPrefix = RaftPrefix @ ''/'' @ ''stream''"

text \<open>\<open>http.ServeMux\<close>: a pattern stands for the path it spells, and one that ends with a slash for every
  path below; the longest match is taken.  A path that only lacks that slash is redirected.\<close>

definition pattern_matches :: "string \<Rightarrow> string \<Rightarrow> bool" where
  "pattern_matches pat path =
     (pat = path \<or> pat \<noteq> [] \<and> last pat = CHR ''/'' \<and> take (length pat) path = pat)"

fun longest_match :: "(string \<times> 'h) list \<Rightarrow> string \<Rightarrow> (string \<times> 'h) option" where
  "longest_match [] path = None"
| "longest_match ((pat, h) # ps) path =
     (case longest_match ps path of
        None \<Rightarrow> if pattern_matches pat path then Some (pat, h) else None
      | Some (q, k) \<Rightarrow> if pattern_matches pat path \<and> length q < length pat then Some (pat, h) else Some (q, k))"

datatype 'h routed = RouteTo 'h | Redirect string | NoRoute

definition mux_route :: "(string \<times> 'h) list \<Rightarrow> string \<Rightarrow> 'h routed" where
  "mux_route ps path =
     (case longest_match ps path of
        Some (_, h) \<Rightarrow> RouteTo h
      | None \<Rightarrow> if path @ ''/'' \<in> set (map fst ps) then Redirect (path @ ''/'') else NoRoute)"

datatype raft_handler = Pipeline pipelineHandler | Stream streamHandler | Probing

definition Transport_Handler :: "'e Transport \<Rightarrow> (string \<times> raft_handler) list" where
  "Transport_Handler t =
     (let cid = nt_ClusterID (tr_net t);
          pipelineHandler = newPipelineHandler t cid;
          streamHandler = newStreamHandler (nt_ID (tr_net t)) cid
      in [(RaftPrefix, Pipeline pipelineHandler), (RaftStreamPrefix @ ''/'', Stream streamHandler),
          (ProbingPrefix, Probing)])"

text \<open>A request to the handler; what the prober (\<open>xiang90/probing\<close>) answers is a parameter, and of a
  redirection the page that comes with it is left out.\<close>

definition handle_request ::
  "HttpResponse \<Rightarrow> (Message \<Rightarrow> 's \<Rightarrow> ('s \<times> 'p option) go) \<Rightarrow> string \<Rightarrow> string \<Rightarrow> header \<Rightarrow> 'e + byte list \<Rightarrow>
   'e Transport \<Rightarrow> 's \<Rightarrow> ('s \<times> 'e Transport \<times> handled) go" where
  "handle_request probe process path meth hdr body t s =
     (case mux_route (Transport_Handler t) path of
        RouteTo (Pipeline h) \<Rightarrow> ServeHTTP h process meth hdr body t s
      | RouteTo (Stream h) \<Rightarrow> Inr (s, t, Answer (streamHandler_ServeHTTP h))
      | RouteTo Probing \<Rightarrow> Inr (s, t, Answer probe)
      | Redirect p \<Rightarrow> Inr (s, t, Answer \<lparr>hr_status = 301, hr_header = [(''Location'', p)], hr_body = []\<rparr>)
      | NoRoute \<Rightarrow> Inr (s, t, Answer (http_Error ''404 page not found'' 404 [])))"

section \<open>Versions\<close>

record Version =
  Major :: int
  Minor :: int

text \<open>Pointers to versions may be nil; \<open>lt\<close> is \<open>LessThan\<close> on versions that only have these two parts.\<close>

definition compareMajorMinorVersion :: "(Version \<Rightarrow> Version \<Rightarrow> bool) \<Rightarrow> Version option \<Rightarrow> Version option \<Rightarrow> int go" where
  "compareMajorMinorVersion lt a b =
     (case (a, b) of
        (Some a, Some b) \<Rightarrow>
          (let na = \<lparr>Major = Major a, Minor = Minor a\<rparr>; nb = \<lparr>Major = Major b, Minor = Minor b\<rparr> in
           Inr (if lt na nb then - 1 else if lt nb na then 1 else 0))
      | _ \<Rightarrow> Inl NilDereference)"

datatype version_err = RemoteTooLow | LocalTooLow

definition checkVersionCompatibility ::
  "(Version \<Rightarrow> Version \<Rightarrow> bool) \<Rightarrow> Version option \<Rightarrow> Version option \<Rightarrow>
   (Version option \<times> Version option \<times> version_err option) go" where
  "checkVersionCompatibility lt server minCluster =
     (let localServer = None; localMinCluster = None in
      go_bind (compareMajorMinorVersion lt server localMinCluster) (\<lambda>c.
        if c = - 1 then Inr (localServer, localMinCluster, Some RemoteTooLow)
        else go_bind (compareMajorMinorVersion lt minCluster localServer) (\<lambda>c.
          if c = 1 then Inr (localServer, localMinCluster, Some LocalTooLow)
          else Inr (localServer, localMinCluster, None))))"

text \<open>\<open>parse\<close> is \<open>semver.NewVersion\<close>; \<open>Must\<close> panics on its error.\<close>

definition header_version :: "(string \<Rightarrow> Version option) \<Rightarrow> string \<Rightarrow> header \<Rightarrow> Version go" where
  "header_version parse k h =
     (let v = header_Get k h; v = (if v = [] then ''2.0.0'' else v) in
      case parse v of None \<Rightarrow> Inl (ExplicitPanic ''invalid version'') | Some x \<Rightarrow> Inr x)"

definition serverVersion :: "(string \<Rightarrow> Version option) \<Rightarrow> header \<Rightarrow> Version go" where
  "serverVersion parse h = header_version parse ''X-Server-Version'' h"

definition minClusterVersion :: "(string \<Rightarrow> Version option) \<Rightarrow> header \<Rightarrow> Version go" where
  "minClusterVersion parse h = header_version parse ''X-Min-Cluster-Version'' h"

definition supportedStream :: "(string \<times> streamType list) list" where
  "supportedStream =
     (''2.0.0'', []) # map (\<lambda>v. (v, [streamTypeMsgAppV2, streamTypeMessage]))
       [''2.1.0'', ''2.2.0'', ''2.3.0'', ''3.0.0'', ''3.1.0'', ''3.2.0'', ''3.3.0'', ''3.4.0'', ''3.5.0'', ''3.6.0'']"

definition checkStreamSupport :: "(Version \<Rightarrow> string) \<Rightarrow> Version \<Rightarrow> streamType \<Rightarrow> bool" where
  "checkStreamSupport show v t =
     (let nv = \<lparr>Major = Major v, Minor = Minor v\<rparr> in
      case map_of supportedStream (show nv) of None \<Rightarrow> False | Some ts \<Rightarrow> t \<in> set ts)"

section \<open>Facts\<close>

lemma reader_Read_data: "fst (reader_Read room r) @ concat (snd (reader_Read room r)) = concat r"
  by (cases r) (simp_all add: reader_Read_def flip: append_assoc)

lemma ReadAll_concat: "ReadAll room k r = concat r"
proof (induction room k r rule: ReadAll.induct)
  case (1 room k r)
  show ?case
  proof (cases "r = []")
    case False
    obtain b r' where l: "limited_Read connReadLimitByte (Suc (room k)) r = (b, r')"
      by (cases "limited_Read connReadLimitByte (Suc (room k)) r")
    then have "b @ concat r' = concat r"
      using reader_Read_data by (metis (mono_tags) fst_conv limited_Read_def snd_conv)
    then show ?thesis using 1 [OF False l [symmetric] refl] False l by (subst ReadAll.simps) simp
  qed (simp add: ReadAll.simps)
qed

text \<open>Without TLS files and without a local address the transport always starts.\<close>

lemma Transport_Start_plain:
  assumes "TLSInfo_Empty (tr_TLSInfo t)" and "LocalAddr (tr_TLSInfo t) = []"
  shows "tr_peers (fst (Transport_Start resolves t)) = Some fmempty" "tr_net (fst (Transport_Start resolves t)) = tr_net t"
    "snd (Transport_Start resolves t) = None"
  using assms by (simp_all add: Transport_Start_def newStreamRoundTripper_def NewRoundTripper_def NewTimeoutTransport_def
      NewTransport_def ClientConfig_def Let_def)

text \<open>Where the handler sends the paths that members use.\<close>

lemma raft_routes:
  "mux_route (Transport_Handler t) ''/raft'' =
     RouteTo (Pipeline (newPipelineHandler t (nt_ClusterID (tr_net t))))"
  "mux_route (Transport_Handler t) ''/raft/probing'' = RouteTo Probing"
  "mux_route (Transport_Handler t) ''/raft/stream/msgapp'' =
     RouteTo (Stream (newStreamHandler (nt_ID (tr_net t)) (nt_ClusterID (tr_net t))))"
  "mux_route (Transport_Handler t) ''/raft/stream/message'' =
     RouteTo (Stream (newStreamHandler (nt_ID (tr_net t)) (nt_ClusterID (tr_net t))))"
  by (simp_all add: mux_route_def Transport_Handler_def pattern_matches_def RaftPrefix_def ProbingPrefix_def
      RaftStreamPrefix_def Let_def)

lemma addRemoteFromRequest_id: "addRemoteFromRequest h t = t"
  by (simp add: addRemoteFromRequest_def AddRemote_def Let_def split: sum.split)

lemma peer_send_reports: "set (snd (peer_send m p)) \<subseteq> {mTo m}"
  by (simp add: peer_send_def Let_def split: option.split)

lemma send_one_Get:
  "Transport_Get i (fst (send_one m t)) =
     (if mTo m = i \<and> i \<noteq> 0 then map_option (\<lambda>p. fst (peer_send m p)) (Transport_Get i t) else Transport_Get i t)"
  by (auto simp: send_one_def Transport_Get_def Let_def split: option.splits prod.splits)

lemma send_one_reports:
  "snd (send_one m t) =
     (if mTo m = 0 then [] else case Transport_Get (mTo m) t of Some p \<Rightarrow> snd (peer_send m p) | None \<Rightarrow> [])"
  by (simp add: send_one_def Let_def split: option.split prod.split)

lemma filter_same: "set xs \<subseteq> {x} \<Longrightarrow> filter (\<lambda>y. y = i) xs = (if x = i then xs else [])"
  by (induction xs) auto

lemma createPostRequest_body: "createPostRequest nt u path body ct = Inr req \<Longrightarrow> rq_body req = body"
  by (cases "nt_parse nt (nt_show nt (u\<lparr>Path := path\<rparr>))") (auto simp: createPostRequest_def Let_def)

lemma answer_status:
  assumes "ServeHTTP h process ''POST'' hdr (Inr b) t s = Inr (s', t', out)"
    and "Message_Unmarshal zeroMessage b = (m, None)"
  obtains err where "process m s = Inr (s', err)" "t' = t"
    "hr_status (answer_of out) = (if err = None then 204 else 500)"
  using assms by (auto simp: ServeHTTP_def addRemoteFromRequest_id http_Error_def Let_def split: option.splits)

lemma post_end_status:
  assumes "picker_ok (pl_picker p)"
  shows "\<exists>p' e. post_end u (Response status (Inr body)) p = Inr (p', e) \<and> (e = None \<longleftrightarrow> status = 204)"
proof -
  obtain q where "picker_unreachable u (pl_picker p) = Inr q"
    using picker_unreachable_ok [OF assms] by metis
  then show ?thesis by (simp add: post_end_def checkPostResponse_def)
qed

section \<open>A sample transport\<close>

definition sample_transport :: "unit Transport" where
  "sample_transport = \<lparr>tr_logger = True, tr_net = sample_net, tr_DialTimeout = 0,
     tr_DialRetryFrequency = 10, tr_TLSInfo = no_tls, tr_streamRt = None, tr_pipelineRt = None, tr_remotes = Some fmempty,
     tr_peers = Some (fmupd 2 sample_peer fmempty)\<rparr>"

definition sample_handler :: pipelineHandler where
  "sample_handler = \<lparr>ph_localID = 2, ph_cid = 0x1000\<rparr>"

lemma sample_picker_ok: "picker_ok (pl_picker (p_pipeline sample_peer))"
  by (simp add: sample_peer_def startPeer_def pipeline_start_def picker_new_ok)

section \<open>Properties\<close>

text \<open>C27: a message posted to a peer arrives intact: however its body is cut into pieces on the way, the
  receiving handler steps exactly the message that was sent, once, and the sender takes the post
  for a success exactly when the receiver processed it without an error.\<close>

theorem post_arrives:
  assumes "post_begin nt m p = Inr (u, req)" and "Message_Size m < 2 ^ 63" and "picker_ok (pl_picker p)"
    and "concat pieces = rq_body req"
    and "ServeHTTP h process ''POST'' (rq_header req) (Inr (ReadAll room 0 pieces)) t s = Inr (s', t', out)"
  shows "\<exists>err p' e. process m s = Inr (s', err) \<and> t' = t \<and>
    post_end u (Response (hr_status (answer_of out)) (Inr (hr_body (answer_of out)))) p = Inr (p', e) \<and>
    (e = None \<longleftrightarrow> err = None)"
proof -
  have "Message_Marshal m = Inr (rq_body req)"
    using assms(1) by (auto simp: post_begin_def MustMarshal_def createPostRequest_body)
  then have b: "Message_Unmarshal zeroMessage (ReadAll room 0 pieces) = (m, None)"
    using message.roundtrip [OF assms(2)] assms(4) by (auto simp: ReadAll_concat Message_Marshal_def)
  obtain err where "process m s = Inr (s', err)" "t' = t"
      "hr_status (answer_of out) = (if err = None then 204 else 500)"
    by (rule answer_status [OF assms(5) b])
  with post_end_status [OF assms(3), of u "hr_status (answer_of out)"] show ?thesis by fastforce
qed

theorem post_arrives_witness:
  "\<exists>req out. post_begin sample_net zeroMessage (p_pipeline sample_peer) = Inr (plain_url ''b:2'', req) \<and>
     ServeHTTP sample_handler (\<lambda>m s. Inr (m # s, None :: unit option)) ''POST'' (rq_header req)
       (Inr (ReadAll (\<lambda>_. 511) 0 [rq_body req])) sample_transport [] = Inr ([zeroMessage], sample_transport, out)"
proof -
  obtain req where req: "post_begin sample_net zeroMessage (p_pipeline sample_peer) = Inr (plain_url ''b:2'', req)"
    using sample_post by blast
  let ?process = "\<lambda>m s. Inr (m # s, None :: unit option)"
  have n: "Message_Size zeroMessage < 2 ^ 63" by (simp add: zeroMessage_Size)
  have "\<exists>s' t' out. ServeHTTP sample_handler ?process ''POST'' (rq_header req)
       (Inr (ReadAll (\<lambda>_. 511) 0 [rq_body req])) sample_transport [] = Inr (s', t', out)"
    by (cases "Message_Unmarshal zeroMessage (ReadAll (\<lambda>_. 511) 0 [rq_body req])"; cases "snd (Message_Unmarshal zeroMessage (ReadAll (\<lambda>_. 511) 0 [rq_body req]))")
      (simp_all add: ServeHTTP_def Let_def)
  then obtain s' t' out where x: "ServeHTTP sample_handler ?process ''POST'' (rq_header req)
       (Inr (ReadAll (\<lambda>_. 511) 0 [rq_body req])) sample_transport [] = Inr (s', t', out)" by blast
  from post_arrives [OF req n sample_picker_ok _ x] have "s' = [zeroMessage]" "t' = sample_transport" by auto
  then show ?thesis using req x by blast
qed

text \<open>C29: the transport routes by addressee: sending a list of messages gives every peer exactly the messages
  addressed to it, in order, and reports exactly what those sends report; a message without an
  addressee is dropped, even when a peer has the number 0.\<close>

theorem send_routes_by_addressee:
  assumes "Transport_Send ms t = (t', reported)"
    and "mine = (if i = 0 then [] else filter (\<lambda>m. mTo m = i) ms)"
  shows "Transport_Get i t' = map_option (\<lambda>p. fst (peer_sends mine p)) (Transport_Get i t) \<and>
    filter (\<lambda>j. j = i) reported =
      (case Transport_Get i t of Some p \<Rightarrow> snd (peer_sends mine p) | None \<Rightarrow> [])"
  using assms
proof (induction ms arbitrary: t reported mine)
  case Nil
  then show ?case by (cases "Transport_Get i t") simp_all
next
  case (Cons m ms)
  let ?to = "mTo m = i \<and> i \<noteq> 0"
  let ?rest = "if i = 0 then [] else filter (\<lambda>m. mTo m = i) ms"
  obtain t1 rs where s1: "send_one m t = (t1, rs)" by (cases "send_one m t")
  obtain rs' where s2: "Transport_Send ms t1 = (t', rs')" and rep: "reported = rs @ rs'"
    using Cons.prems(1) s1 by (auto split: prod.splits)
  note ih = Cons.IH [OF s2 refl]
  have mine: "mine = (if ?to then m # ?rest else ?rest)" using Cons.prems(2) by simp
  have g: "Transport_Get i t1 =
      (if ?to then map_option (\<lambda>p. fst (peer_send m p)) (Transport_Get i t) else Transport_Get i t)"
    using send_one_Get [of i m t] s1 by simp
  have r: "filter (\<lambda>j. j = i) rs =
      (if ?to then case Transport_Get i t of Some p \<Rightarrow> snd (peer_send m p) | None \<Rightarrow> [] else [])"
    using send_one_reports [of m t] s1 filter_same [OF peer_send_reports]
    by (cases "Transport_Get (mTo m) t") auto
  define rest where "rest = ?rest"
  have unfold: "peer_sends (m # xs) p =
      (fst (peer_sends xs (fst (peer_send m p))), snd (peer_send m p) @ snd (peer_sends xs (fst (peer_send m p))))" for xs p
    by (simp add: Let_def split_def)
  note ih = ih [folded rest_def] and mine = mine [folded rest_def]
  show ?case
  proof (cases ?to)
    case True
    then have q: "peer_sends mine p =
        (fst (peer_sends rest (fst (peer_send m p))), snd (peer_send m p) @ snd (peer_sends rest (fst (peer_send m p))))" for p
      using mine True by (simp only: unfold if_True simp_thms)
    show ?thesis using ih g r True by (cases "Transport_Get i t") (simp_all add: rep q)
  next
    case False
    then have q: "mine = rest" "Transport_Get i t1 = Transport_Get i t" "filter (\<lambda>j. j = i) rs = []"
      using g r mine by (simp_all only: if_False)
    then show ?thesis using ih unfolding q(1) by (simp add: rep)
  qed
qed

theorem send_routes_by_addressee_witness:
  "\<exists>t' p. Transport_Send [set_mTo 2 zeroMessage, zeroMessage] sample_transport = (t', []) \<and>
     Transport_Get 2 t' = Some p \<and> pl_msgc (p_pipeline p) = [set_mTo 2 zeroMessage]"
proof -
  let ?m = "set_mTo 2 zeroMessage"
  obtain t' rs where s: "Transport_Send [?m, zeroMessage] sample_transport = (t', rs)"
    by (cases "Transport_Send [?m, zeroMessage] sample_transport")
  have p: "no_stream sample_peer" "\<not> p_paused sample_peer" "pl_msgc (p_pipeline sample_peer) = []"
    using no_stream_start by (simp_all add: sample_peer_def) (simp_all add: startPeer_def pipeline_start_def)
  have g: "Transport_Get 2 sample_transport = Some sample_peer"
    by (simp add: Transport_Get_def sample_transport_def)
  have q: "peer_sends [?m] sample_peer = (sample_peer\<lparr>p_pipeline := (p_pipeline sample_peer)\<lparr>pl_msgc := [?m]\<rparr>\<rparr>, [])"
    using p by (simp add: peer_send_no_stream pipelineBufSize_def)
  have "rs = []"
    using s g p by (auto simp: send_one_def Let_def peer_send_no_stream pipelineBufSize_def split: prod.splits)
  moreover have "Transport_Get 2 t' = Some (fst (peer_sends [?m] sample_peer))"
    using send_routes_by_addressee [OF s refl, of 2] g by simp
  ultimately show ?thesis using s q by simp
qed

end
