(* ===== verification/Kv_Store.thy ===== *)
theory Kv_Store
  imports Http_Transport
begin

text \<open>
  \<open>src/kv/kvstore.go\<close> and \<open>src/httpapi.go\<close>: the state machine that the log replicates, and the requests
  of its clients.  The encoding of a pair by \<open>encoding/gob\<close> is the pair of parameters \<open>enc\<close> and \<open>dec\<close>,
  of which a property may assume that what was encoded is decoded to itself.  The router (gorilla/mux)
  has matched the method and cut out the path variable when a handler runs.  \<open>log.Fatal\<close> ends the
  process: the model stops with a panic.
\<close>

section \<open>The store\<close>

record kv =
  Key :: string
  Val :: string

record Kvstore =
  kv_data :: "(string, string) fmap"

definition NewKVStore :: Kvstore where
  "NewKVStore = \<lparr>kv_data = fmempty\<rparr>"

record commit =
  commit_data :: "string list"
  commit_applyDoneC :: nat

definition Lookup :: "string \<Rightarrow> Kvstore \<Rightarrow> string \<times> bool" where
  "Lookup k s = (case fmlookup (kv_data s) k of Some v \<Rightarrow> (v, True) | None \<Rightarrow> ([], False))"

text \<open>What \<open>Propose\<close> puts on the proposal channel.\<close>

definition Kvstore_Propose :: "(kv \<Rightarrow> string option) \<Rightarrow> string \<Rightarrow> string \<Rightarrow> string go" where
  "Kvstore_Propose enc k v =
     (case enc \<lparr>Key = k, Val = v\<rparr> of None \<Rightarrow> Inl (ExplicitPanic ''encode'') | Some b \<Rightarrow> Inr b)"

definition apply_data :: "(string \<Rightarrow> kv option) \<Rightarrow> Kvstore \<Rightarrow> string \<Rightarrow> Kvstore go" where
  "apply_data dec s data =
     (case dec data of
        None \<Rightarrow> Inl (ExplicitPanic ''could not decode message'')
      | Some p \<Rightarrow> Inr (s\<lparr>kv_data := fmupd (Key p) (Val p) (kv_data s)\<rparr>))"

text \<open>The loop over the commits received: the store, and the channels closed for the commits applied.  A
  nil commit asks for a snapshot, which is not loaded.\<close>

fun readCommits :: "(string \<Rightarrow> kv option) \<Rightarrow> commit option list \<Rightarrow> Kvstore \<Rightarrow> (Kvstore \<times> nat list) go" where
  "readCommits dec [] s = Inr (s, [])"
| "readCommits dec (None # cs) s = readCommits dec cs s"
| "readCommits dec (Some c # cs) s =
     go_bind (go_foldl (apply_data dec) s (commit_data c)) (\<lambda>s.
     go_bind (readCommits dec cs s) (\<lambda>(s, chs). Inr (s, commit_applyDoneC c # chs)))"

section \<open>The client interface\<close>

text \<open>A handler's answer and what it proposes.  A handler that writes nothing answers 200.\<close>

definition plain_answer :: "nat \<Rightarrow> byte list \<Rightarrow> HttpResponse" where
  "plain_answer status body = \<lparr>hr_status = status, hr_header = [], hr_body = body\<rparr>"

definition bytes_text :: "byte list \<Rightarrow> string" where
  "bytes_text bs = map (\<lambda>b. char_of (unat b)) bs"

definition handleDataRequest ::
  "(kv \<Rightarrow> string option) \<Rightarrow> string \<Rightarrow> string \<Rightarrow> 'e + byte list \<Rightarrow> Kvstore \<Rightarrow> (HttpResponse \<times> string list) go" where
  "handleDataRequest enc meth key body s =
     (if meth = ''PUT'' then
        (case body of
           Inl e \<Rightarrow> Inr (http_Error ''Failed on PUT'' 400 [], [])
         | Inr v \<Rightarrow> go_bind (Kvstore_Propose enc key (bytes_text v)) (\<lambda>prop. Inr (plain_answer 204 [], [prop])))
      else if meth = ''GET'' then
        (case Lookup key s of
           (v, True) \<Rightarrow> Inr (plain_answer 200 (text_bytes v), [])
         | (_, False) \<Rightarrow> Inr (http_Error ''Failed to GET, probably the given key does not exist'' 404 [], []))
      else Inr (plain_answer 200 [], []))"

definition handleTopologyChangeRequest :: "string \<Rightarrow> HttpResponse" where
  "handleTopologyChangeRequest idStr =
     (case ParseUint idStr of
        Inl _ \<Rightarrow> http_Error ''Invalid node ID'' 400 []
      | Inr _ \<Rightarrow> plain_answer 200 [])"

lemma text_bytes_text: "text_bytes (bytes_text body) = body"
proof -
  have "of_char (char_of (unat b)) = b" for b :: byte
  proof -
    have "unat b < 256" using unsigned_less [of b] by simp
    then have "of_nat (of_char (char_of (unat b)) :: nat) = b" by simp
    then show ?thesis by (simp only: of_nat_of_char)
  qed
  then show ?thesis by (simp add: text_bytes_def bytes_text_def comp_def)
qed

section \<open>What the store holds\<close>

text \<open>The abstract store after a sequence of writes.\<close>

definition contents :: "kv list \<Rightarrow> (string, string) fmap" where
  "contents ps = foldl (\<lambda>m p. fmupd (Key p) (Val p) m) fmempty ps"

lemma contents_snoc: "contents (ps @ [p]) = fmupd (Key p) (Val p) (contents ps)"
  by (simp add: contents_def)

lemma contents_lookup:
  "fmlookup (contents ps) k = map_option Val (find (\<lambda>p. Key p = k) (rev ps))"
  by (induction ps rule: rev_induct) (auto simp: contents_snoc, simp add: contents_def)

lemma find_append: "find P (xs @ ys) = (case find P xs of None \<Rightarrow> find P ys | Some x \<Rightarrow> Some x)"
  by (induction xs) simp_all

lemma apply_data_contents:
  assumes "\<forall>d \<in> set ds. dec d \<noteq> None"
  shows "go_foldl (apply_data dec) s ds =
    Inr (s\<lparr>kv_data := foldl (\<lambda>m p. fmupd (Key p) (Val p) m) (kv_data s) (map (the \<circ> dec) ds)\<rparr>)"
  using assms
proof (induction ds arbitrary: s)
  case (Cons d ds)
  then show ?case by (cases "dec d") (auto simp: apply_data_def)
qed simp

definition commits_data :: "commit option list \<Rightarrow> string list" where
  "commits_data cs = concat (map (\<lambda>c. case c of None \<Rightarrow> [] | Some c \<Rightarrow> commit_data c) cs)"

lemma readCommits_foldl:
  assumes "\<forall>d \<in> set (commits_data cs). dec d \<noteq> None"
  shows "\<exists>chs. readCommits dec cs s =
    Inr (s\<lparr>kv_data := foldl (\<lambda>m p. fmupd (Key p) (Val p) m) (kv_data s) (map (the \<circ> dec) (commits_data cs))\<rparr>, chs)"
  using assms
proof (induction cs arbitrary: s)
  case (Cons c cs)
  show ?case
  proof (cases c)
    case None
    then show ?thesis using Cons by (simp add: commits_data_def)
  next
    case (Some x)
    then have "\<forall>d \<in> set (commit_data x). dec d \<noteq> None" "\<forall>d \<in> set (commits_data cs). dec d \<noteq> None"
      using Cons.prems by (auto simp: commits_data_def)
    note head = apply_data_contents [OF this(1), of s]
    let ?s = "s\<lparr>kv_data := foldl (\<lambda>m p. fmupd (Key p) (Val p) m) (kv_data s) (map (the \<circ> dec) (commit_data x))\<rparr>"
    obtain chs where "readCommits dec cs ?s = Inr (?s\<lparr>kv_data :=
        foldl (\<lambda>m p. fmupd (Key p) (Val p) m) (kv_data ?s) (map (the \<circ> dec) (commits_data cs))\<rparr>, chs)"
      using Cons.IH [OF \<open>\<forall>d \<in> set (commits_data cs). dec d \<noteq> None\<close>, of ?s] by blast
    moreover have "commits_data (c # cs) = commit_data x @ commits_data cs" by (simp add: Some commits_data_def)
    ultimately show ?thesis by (simp add: Some head comp_def)
  qed
qed (simp add: commits_data_def)

lemma readCommits_contents:
  assumes "\<forall>d \<in> set (commits_data cs). dec d \<noteq> None"
  shows "\<exists>chs. readCommits dec cs NewKVStore = Inr (\<lparr>kv_data = contents (map (the \<circ> dec) (commits_data cs))\<rparr>, chs)"
  using readCommits_foldl [OF assms, of NewKVStore] by (simp add: NewKVStore_def contents_def)

section \<open>Properties\<close>

text \<open>C26: a value written through the client interface is read back: once the proposal of an accepted \<open>PUT\<close>
  has been applied as the last write to its key, whatever was applied before it and whatever other
  keys are written after it, \<open>GET\<close> answers with exactly the bytes of the \<open>PUT\<close>.\<close>

theorem put_then_get:
  assumes "handleDataRequest enc ''PUT'' key (Inr body) s = Inr (r, [prop])"
    and "\<forall>p. enc p = Some prop \<longrightarrow> dec prop = Some p"
    and "\<forall>d \<in> set (before @ later). dec d \<noteq> None"
    and "\<forall>d \<in> set later. Key (the (dec d)) \<noteq> key"
    and "commits_data cs = before @ prop # later"
  shows "\<exists>st chs. readCommits dec cs NewKVStore = Inr (st, chs) \<and>
    handleDataRequest enc ''GET'' key req st = Inr (\<lparr>hr_status = 200, hr_header = [], hr_body = body\<rparr>, [])"
proof -
  have "enc \<lparr>Key = key, Val = bytes_text body\<rparr> = Some prop"
    using assms(1) by (auto simp: handleDataRequest_def Kvstore_Propose_def split: option.splits)
  then have d: "dec prop = Some \<lparr>Key = key, Val = bytes_text body\<rparr>" using assms(2) by blast
  let ?st = "\<lparr>kv_data = contents (map (the \<circ> dec) (commits_data cs))\<rparr>"
  have "\<forall>d \<in> set (commits_data cs). dec d \<noteq> None" using assms(3,5) d by auto
  then obtain chs where r: "readCommits dec cs NewKVStore = Inr (?st, chs)"
    using readCommits_contents by blast
  have "find (\<lambda>p. Key p = key) (rev (map (the \<circ> dec) later)) = None"
    using assms(4) by (auto simp: find_None_iff)
  then have "find (\<lambda>p. Key p = key) (rev (map (the \<circ> dec) (commits_data cs))) =
      Some \<lparr>Key = key, Val = bytes_text body\<rparr>"
    by (simp add: assms(5) find_append d)
  then have "Lookup key ?st = (bytes_text body, True)"
    by (simp add: Lookup_def contents_lookup)
  then show ?thesis using r by (auto simp: handleDataRequest_def plain_answer_def text_bytes_text)
qed

text \<open>An encoding for the sample: the key, a separator and the value.\<close>

definition sample_enc :: "kv \<Rightarrow> string option" where
  "sample_enc p = Some (Key p @ ''='' @ Val p)"

definition sample_dec :: "string \<Rightarrow> kv option" where
  "sample_dec d = (case index_byte (CHR ''='') d of
     None \<Rightarrow> None | Some i \<Rightarrow> Some \<lparr>Key = take i d, Val = drop (i + 1) d\<rparr>)"

definition unit_enc :: "kv \<Rightarrow> string option" where
  "unit_enc p = (if p = \<lparr>Key = ''a'', Val = ''1''\<rparr> then sample_enc p else None)"

theorem put_then_get_witness:
  "\<exists>st chs. readCommits sample_dec [Some \<lparr>commit_data = [''a=0'', ''a=1'', ''b=2''], commit_applyDoneC = 7\<rparr>] NewKVStore =
       Inr (st, chs) \<and>
     handleDataRequest unit_enc ''GET'' ''a'' (Inr [] :: unit + byte list) st =
       Inr (\<lparr>hr_status = 200, hr_header = [], hr_body = [49]\<rparr>, [])"
proof -
  have p: "handleDataRequest unit_enc ''PUT'' ''a'' (Inr [49] :: unit + byte list) NewKVStore =
      Inr (plain_answer 204 [], [''a=1''])"
    by (simp add: handleDataRequest_def Kvstore_Propose_def unit_enc_def sample_enc_def bytes_text_def char_of_def bit_0)
  have d: "sample_dec ''a=0'' = Some \<lparr>Key = ''a'', Val = ''0''\<rparr>" "sample_dec ''a=1'' = Some \<lparr>Key = ''a'', Val = ''1''\<rparr>"
      "sample_dec ''b=2'' = Some \<lparr>Key = ''b'', Val = ''2''\<rparr>"
    by (simp_all add: sample_dec_def)
  show ?thesis
    by (rule put_then_get [OF p, where before = "[''a=0'']" and later = "[''b=2'']"])
      (use d in \<open>auto simp: commits_data_def unit_enc_def split: if_splits\<close>)
qed

end
