(* ===== verification/Kv_Raft.thy ===== *)
theory Kv_Raft
  imports Node_Loop Kv_Store
begin

text \<open>
  \<open>src/kv/raftNode.go\<close>: the server that joins the parts.  It starts the raft node and the transport,
  hands proposals to the node, and for every \<open>Ready\<close> stores the entries, sends the messages, publishes
  the committed entries to the key-value store and calls \<open>Advance\<close>.  The storage is shared by pointer
  with the raft log and is kept there.  The commits put on \<open>commitC\<close> and the errors put on \<open>errorC\<close> are
  recorded in order; a channel made for a commit is its number, the other channels are booleans that
  tell whether they are closed (\<open>rs_closed\<close> that of the commits, \<open>rs_errclosed\<close> that of the errors).  The
  write-ahead log and snapshots are not written in the source.
\<close>

section \<open>The server\<close>

record 'e raftNode =
  rs_id :: int
  rs_peers :: "string list"
  rs_join :: bool
  rs_confState :: ConfState
  rs_appliedIndex :: uint64
  rs_node :: node
  rs_transport :: "'e Transport"
  rs_commitC :: "commit list"
  rs_chans :: nat
  rs_stopc :: bool
  rs_httpstopc :: bool
  rs_httpdonec :: bool
  rs_closed :: bool
  rs_errorC :: "string list"
  rs_errclosed :: bool

text \<open>The configuration that \<open>startRaft\<close> gives to the raft node.\<close>

definition replayWAL :: MemoryStorage where
  [simp]: "replayWAL = NewMemoryStorage"

definition start_config :: "int \<Rightarrow> RaftConfig" where
  "start_config i =
     \<lparr>cfgID = word_of_int i, ElectionTick = 10, HeartbeatTick = 1, cfgStorage = Some replayWAL,
      AsyncStorageWrites = False, MaxSizePerMsg = 1024 * 1024, MaxCommittedSizePerReady = 0,
      MaxUncommittedEntriesSize = 2 ^ 30, MaxInflightMsgs = 256, cfgMaxInflightBytes = 0,
      CheckQuorum = False, PreVote = False\<rparr>"

definition start_peers :: "string list \<Rightarrow> Peer list" where
  "start_peers peers = map (\<lambda>i. \<lparr>peerID = of_nat (i + 1), peerContext = None\<rparr>) [0..<length peers]"

fun add_peers :: "int \<Rightarrow> nat \<Rightarrow> string list \<Rightarrow> 'e Transport \<Rightarrow> 'e Transport go" where
  "add_peers me i [] t = Inr t"
| "add_peers me i (u # us) t =
     go_bind (if int i + 1 \<noteq> me then AddPeer (of_nat (i + 1)) [u] t else Inr t) (add_peers me (i + 1) us)"

definition startRaft :: "(nat \<Rightarrow> nat) \<Rightarrow> bool \<Rightarrow> (string \<Rightarrow> 'e + URL) \<Rightarrow> (URL \<Rightarrow> string) \<Rightarrow>
    int \<Rightarrow> string list \<Rightarrow> bool \<Rightarrow> 'e raftNode go" where
  "startRaft rnd resolves parse show i peers join =
     go_bind (if join then RestartNode rnd (start_config i)
              else StartNode rnd (start_config i) (start_peers peers)) (\<lambda>n.
       let t = \<lparr>tr_logger = True, tr_net = \<lparr>nt_parse = parse, nt_show = show, nt_URLs = None,
                 nt_ID = word_of_int i, nt_ClusterID = 0x1000\<rparr>, tr_DialTimeout = 0, tr_DialRetryFrequency = 0,
                 tr_TLSInfo = \<lparr>CertFile = [], KeyFile = [], ServerName = [], LocalAddr = []\<rparr>,
                 tr_streamRt = None, tr_pipelineRt = None, tr_remotes = None, tr_peers = None\<rparr>;
           t = fst (Transport_Start resolves t)
       in go_bind (add_peers i 0 peers t) (\<lambda>t.
         Inr \<lparr>rs_id = i, rs_peers = peers, rs_join = join, rs_confState = zeroConfState,
           rs_appliedIndex = 0, rs_node = n, rs_transport = t, rs_commitC = [], rs_chans = 0,
           rs_stopc = False, rs_httpstopc = False, rs_httpdonec = False, rs_closed = False,
           rs_errorC = [], rs_errclosed = False\<rparr>))"

text \<open>The address at which the server listens for its peers.\<close>

definition serve_host :: "(string \<Rightarrow> 'e + URL) \<Rightarrow> 'e raftNode \<Rightarrow> string go" where
  "serve_host parse rn =
     go_bind (if rs_id rn < 1 then Inl IndexOutOfRange else go_index (rs_peers rn) (nat (rs_id rn - 1))) (\<lambda>s.
       case parse s of Inl e \<Rightarrow> Inl (ExplicitPanic ''Failed parsing URL'') | Inr u \<Rightarrow> Inr (Host u))"

section \<open>Publishing what is committed\<close>

definition set_ConfState :: "ConfState \<Rightarrow> Message \<Rightarrow> Message go" where
  "set_ConfState cs m =
     (case mSnapshot m of
        None \<Rightarrow> Inl NilDereference
      | Some s \<Rightarrow> Inr (set_mSnapshot (Some (s\<lparr>sMetadata := (sMetadata s)\<lparr>smConfState := cs\<rparr>\<rparr>)) m))"

fun processMessages :: "ConfState \<Rightarrow> Message list \<Rightarrow> Message list go" where
  "processMessages cs [] = Inr []"
| "processMessages cs (m # ms) =
     go_bind (if mType m = MsgSnap then set_ConfState cs m else Inr m) (\<lambda>m.
     go_bind (processMessages cs ms) (\<lambda>ms. Inr (m # ms)))"

definition entriesToApply :: "Entry list \<Rightarrow> uint64 \<Rightarrow> Entry list go" where
  "entriesToApply ents applied =
     (if length ents = 0 then Inr ents
      else
        (let firstIdx = eIndex (ents ! 0) in
         if firstIdx > applied + 1 then Inl (ExplicitPanic ''first index of committed entry'')
         else if applied - firstIdx + 1 < of_nat (length ents)
         then go_slice ents (unat (applied - firstIdx + 1)) (length ents)
         else Inr []))"

text \<open>Snapshots are still to be written.\<close>

definition maybeTriggerSnapshot :: "nat option \<Rightarrow> 'e raftNode \<Rightarrow> 'e raftNode" where
  [simp]: "maybeTriggerSnapshot applyDoneC rn = rn"

definition on_raft :: "(raft \<Rightarrow> raft go) \<Rightarrow> node \<Rightarrow> node go" where
  "on_raft f n = go_bind (f (rn_raft (n_rn n))) (\<lambda>r. Inr (set_raft r n))"

definition IsIDRemoved :: "uint64 \<Rightarrow> bool" where
  "IsIDRemoved i = False"

text \<open>The message that \<open>ReportUnreachable\<close> puts on the node's channel.\<close>

definition ReportUnreachable :: "uint64 \<Rightarrow> client" where
  "ReportUnreachable i = SendRecv (unreachable_message i)"

definition Process :: "Message \<Rightarrow> client go" where
  "Process m = node_Step m"

section \<open>The proposing goroutine\<close>

text \<open>It receives from both channels while neither has been closed, and is inside a call of \<open>Propose\<close>
  or not.\<close>

record proposer =
  pr_open :: bool
  pr_confs :: uint64
  pr_call :: "client option"
  pr_taken :: "string list"
  pr_ended :: bool

definition new_proposer :: proposer where
  "new_proposer = \<lparr>pr_open = True, pr_confs = 0, pr_call = None, pr_taken = [], pr_ended = False\<rparr>"

text \<open>\<open>pr_taken\<close> records the proposals received.  The context of the call is \<open>context.TODO()\<close>, which is never
  done.  A configuration change ends in the panic of \<open>ProposeConfChange\<close> and has no step.\<close>

inductive propose_step :: "node \<times> proposer \<Rightarrow> node \<times> proposer \<Rightarrow> bool" where
  take_proposal: "\<lbrakk>pr_open p; pr_call p = None\<rbrakk> \<Longrightarrow>
    propose_step (n, p) (n, p\<lparr>pr_call := Some (node_Propose (Some (text_bytes s))), pr_taken := pr_taken p @ [s]\<rparr>)"
| closed: "\<lbrakk>pr_open p; pr_call p = None\<rbrakk> \<Longrightarrow> propose_step (n, p) (n, p\<lparr>pr_open := False\<rparr>)"
| in_call: "\<lbrakk>pr_call p = Some c; system_step (n, c) (n', c'); c' \<noteq> Returned (Some CtxErr)\<rbrakk> \<Longrightarrow>
    propose_step (n, p) (n', p\<lparr>pr_call := Some c'\<rparr>)"
| call_returned: "pr_call p = Some (Returned e) \<Longrightarrow> propose_step (n, p) (n, p\<lparr>pr_call := None\<rparr>)"
| elsewhere: "\<lbrakk>pr_call p = None; loop_step n ev out n'\<rbrakk> \<Longrightarrow> propose_step (n, p) (n', p)"

definition ProposeConfChange :: "ConfChange \<Rightarrow> unit go" where
  "ProposeConfChange cc = Inl (ExplicitPanic ''implement me'')"

text \<open>What happens to a configuration change that arrives.\<close>

definition propose_conf :: "ConfChange \<Rightarrow> proposer \<Rightarrow> proposer go" where
  "propose_conf cc p =
     (let n = pr_confs p + 1 in
      go_bind (ProposeConfChange (cc\<lparr>ccID := n\<rparr>)) (\<lambda>_. Inr (p\<lparr>pr_confs := n\<rparr>)))"

section \<open>Shutting down\<close>

definition close_chan :: "bool \<Rightarrow> bool go" where
  "close_chan closed = (if closed then Inl (ExplicitPanic ''close of closed channel'') else Inr True)"

text \<open>\<open>stopHTTP\<close> up to the wait for \<open>httpdonec\<close>.\<close>

definition stopHTTP :: "'e raftNode \<Rightarrow> 'e raftNode go" where
  "stopHTTP rn =
     go_bind (close_chan (rs_httpstopc rn)) (\<lambda>b.
       Inr (rn\<lparr>rs_transport := Transport_Stop (rs_transport rn), rs_httpstopc := b\<rparr>))"

text \<open>\<open>stop\<close> after that wait closes the channel of the commits and that of the errors.  \<open>writeError\<close> leaves the
  former open; it hands over the error, which the main goroutine waits for, and then closes the latter.\<close>

definition close_errors :: "'e raftNode \<Rightarrow> 'e raftNode go" where
  "close_errors rn = go_bind (close_chan (rs_errclosed rn)) (\<lambda>b. Inr (rn\<lparr>rs_errclosed := b\<rparr>))"

definition close_commits :: "'e raftNode \<Rightarrow> 'e raftNode go" where
  "close_commits rn = go_bind (close_chan (rs_closed rn)) (\<lambda>b. close_errors (rn\<lparr>rs_closed := b\<rparr>))"

definition send_error :: "string \<Rightarrow> 'e raftNode \<Rightarrow> 'e raftNode" where
  "send_error err rn = rn\<lparr>rs_errorC := rs_errorC rn @ [err]\<rparr>"

section \<open>The serving loop\<close>

text \<open>Where \<open>serveChannels\<close> is: in its \<open>select\<close>; storing a \<open>Ready\<close> it has taken; in \<open>Transport.Send\<close>, with the peers it
  still has to report unreachable, the messages still to be sent and the entries committed; in
  \<open>publishEntries\<close>, with the entries left, the data collected and the index of the last entry; handing
  the data to the store; calling \<open>Advance\<close>; waiting for the HTTP server to end, with the error it will
  report; closing \<open>errorC\<close> after an error; stopping the node; returned.\<close>

datatype serve_pc =
    Selecting
  | Storing Ready
  | Sending "uint64 list" "Message list" "Entry list"
  | Publishing "Entry list" "string list" uint64
  | Committing "string list" nat uint64
  | Advancing
  | Stopping "string option"
  | ClosingErrors
  | StoppingNode
  | Ended

text \<open>A \<open>Ready\<close> is stored, and its messages are made ready for the transport.\<close>

definition store_ready :: "Ready \<Rightarrow> 'e raftNode \<Rightarrow> ('e raftNode \<times> serve_pc) go" where
  "store_ready rd rn =
     go_bind (on_raft (\<lambda>r. go_bind (Storage_Append (rdEntries rd) (l_storage (r_raftLog r))) (\<lambda>st.
         Inr (r\<lparr>r_raftLog := (r_raftLog r)\<lparr>l_storage := st\<rparr>\<rparr>))) (rs_node rn)) (\<lambda>n.
     go_bind (processMessages (rs_confState rn) (rdMessages rd)) (\<lambda>ms.
       Inr (rn\<lparr>rs_node := n\<rparr>, Sending [] ms (rdCommittedEntries rd))))"

text \<open>One message is given to the transport.  The peers it reports are those for which the transport calls
  \<open>ReportUnreachable\<close> before it goes on.\<close>

definition send_next :: "Message \<Rightarrow> Message list \<Rightarrow> Entry list \<Rightarrow> 'e raftNode \<Rightarrow> 'e raftNode \<times> serve_pc" where
  "send_next m ms ces rn =
     (let (t, reported) = send_one m (rs_transport rn) in (rn\<lparr>rs_transport := t\<rparr>, Sending reported ms ces))"

text \<open>\<open>publishEntries\<close> begins.\<close>

definition begin_publish :: "Entry list \<Rightarrow> 'e raftNode \<Rightarrow> ('e raftNode \<times> serve_pc) go" where
  "begin_publish ces rn =
     go_bind (entriesToApply ces (rs_appliedIndex rn)) (\<lambda>ents.
       Inr (if length ents = 0 then (maybeTriggerSnapshot None rn, Advancing)
            else (rn, Publishing ents [] (eIndex (last ents)))))"

text \<open>The configuration change an entry carries; an error of \<open>Unmarshal\<close> is ignored.\<close>

definition entry_data :: "Entry \<Rightarrow> byte list" where
  "entry_data e = (case eData e of None \<Rightarrow> [] | Some b \<Rightarrow> b)"

definition entry_change :: "Entry \<Rightarrow> ConfChange" where
  "entry_change e = fst (ConfChange_Unmarshal zeroConfChange (entry_data e))"

text \<open>The rest of an iteration for an entry that is no configuration change.\<close>

definition collect :: "Entry \<Rightarrow> string list \<Rightarrow> string list" where
  "collect e data =
     (if eType e = EntryNormal \<and> length (entry_data e) \<noteq> 0 then data @ [bytes_text (entry_data e)] else data)"

text \<open>The rest of one for a change, after \<open>ApplyConfChange\<close> has given the configuration.  When the node itself
  was removed, the entries are not all published and the server stops.\<close>

definition stop_with :: "string option \<Rightarrow> 'e raftNode \<Rightarrow> ('e raftNode \<times> serve_pc) go" where
  "stop_with err rn = go_bind (stopHTTP rn) (\<lambda>rn. Inr (rn, Stopping err))"

definition configured ::
  "ConfChange \<Rightarrow> ConfState \<Rightarrow> Entry list \<Rightarrow> string list \<Rightarrow> uint64 \<Rightarrow> 'e raftNode \<Rightarrow> ('e raftNode \<times> serve_pc) go" where
  "configured cc cs es data li rn =
     (let rn = rn\<lparr>rs_confState := cs\<rparr>; ctx = (case ccContext cc of None \<Rightarrow> [] | Some b \<Rightarrow> b) in
      if ccType cc = ConfChangeAddNode then
        (if length ctx > 0 then
           go_bind (AddPeer (ccNodeID cc) [bytes_text ctx] (rs_transport rn)) (\<lambda>t.
             Inr (rn\<lparr>rs_transport := t\<rparr>, Publishing es data li))
         else Inr (rn, Publishing es data li))
      else if ccType cc = ConfChangeRemoveNode then
        (if ccNodeID cc = word_of_int (rs_id rn) then stop_with None rn
         else Inr (rn\<lparr>rs_transport := RemovePeer (ccNodeID cc) (rs_transport rn)\<rparr>, Publishing es data li))
      else Inr (rn, Publishing es data li))"

text \<open>After the entries: without data nothing is handed over; otherwise a channel is made for the commit.\<close>

definition end_publish :: "string list \<Rightarrow> uint64 \<Rightarrow> 'e raftNode \<Rightarrow> 'e raftNode \<times> serve_pc" where
  "end_publish data li rn =
     (if length data > 0 then (rn\<lparr>rs_chans := rs_chans rn + 1\<rparr>, Committing data (rs_chans rn) li)
      else (maybeTriggerSnapshot None (rn\<lparr>rs_appliedIndex := li\<rparr>), Advancing))"

definition commit_taken :: "string list \<Rightarrow> nat \<Rightarrow> uint64 \<Rightarrow> 'e raftNode \<Rightarrow> 'e raftNode \<times> serve_pc" where
  "commit_taken data ch li rn =
     (maybeTriggerSnapshot (Some ch)
        (rn\<lparr>rs_commitC := rs_commitC rn @ [\<lparr>commit_data = data, commit_applyDoneC = ch\<rparr>], rs_appliedIndex := li\<rparr>),
      Advancing)"

text \<open>What the serving loop does by itself, without waiting for another goroutine.\<close>

fun serve_local :: "'e raftNode \<Rightarrow> serve_pc \<Rightarrow> ('e raftNode \<times> serve_pc) go option" where
  "serve_local rn (Storing rd) = Some (store_ready rd rn)"
| "serve_local rn (Sending [] [] ces) = Some (begin_publish ces rn)"
| "serve_local rn (Publishing (e # es) data li) =
     (if eType e = EntryConfChange then None else Some (Inr (rn, Publishing es (collect e data) li)))"
| "serve_local rn (Publishing [] data li) = Some (Inr (end_publish data li rn))"
| "serve_local rn pc = None"

text \<open>What a step shows to the outside: nothing, a message given to the transport, an event that the run loop
  takes from the serving loop, or one it takes from elsewhere.\<close>

datatype serve_label = Silent | Gave Message | Call node_event | Loop node_event

text \<open>The steps of the serving loop.  A step may end in a panic, which is one of the process.  \<open>Tick\<close> does not
  wait; \<open>ReportUnreachable\<close>, \<open>ApplyConfChange\<close>, \<open>Advance\<close> and \<open>Stop\<close> wait until the run loop takes their value, which
  between two steps of the serving loop serves its other callers, or return because the node is done.
  The store receives a commit, or \<open>stopc\<close> has been closed.\<close>

inductive serve_step ::
  "'e raftNode \<times> serve_pc \<Rightarrow> serve_label \<Rightarrow> ('e raftNode \<times> serve_pc) go \<Rightarrow> bool" where
  tick: "node_Tick (rs_node rn) n \<Longrightarrow> serve_step (rn, Selecting) Silent (Inr (rn\<lparr>rs_node := n\<rparr>, Selecting))"
| ready: "loop_step (rs_node rn) EvReady (OutReady rd) n \<Longrightarrow>
    serve_step (rn, Selecting) (Call EvReady) (Inr (rn\<lparr>rs_node := n\<rparr>, Storing rd))"
| alone: "serve_local rn pc = Some res \<Longrightarrow> serve_step (rn, pc) Silent res"
| sends: "serve_step (rn, Sending [] (m # ms) ces) (Gave m) (Inr (send_next m ms ces rn))"
| reports: "loop_step (rs_node rn) (EvRecv (unreachable_message i)) out n \<Longrightarrow>
    serve_step (rn, Sending (i # is) ms ces) (Call (EvRecv (unreachable_message i)))
      (Inr (rn\<lparr>rs_node := n\<rparr>, Sending is ms ces))"
| report_stopped: "n_done (rs_node rn) \<Longrightarrow>
    serve_step (rn, Sending (i # is) ms ces) Silent (Inr (rn, Sending is ms ces))"
| applies: "\<lbrakk>eType e = EntryConfChange; cc = entry_change e;
      loop_step (rs_node rn) (node_ApplyConfChange cc) (OutConf cs) n\<rbrakk> \<Longrightarrow>
    serve_step (rn, Publishing (e # es) data li) (Call (node_ApplyConfChange cc))
      (configured cc cs es data li (rn\<lparr>rs_node := n\<rparr>))"
| apply_stopped: "\<lbrakk>eType e = EntryConfChange; n_done (rs_node rn)\<rbrakk> \<Longrightarrow>
    serve_step (rn, Publishing (e # es) data li) Silent (configured (entry_change e) zeroConfState es data li rn)"
| commits: "serve_step (rn, Committing data ch li) Silent (Inr (commit_taken data ch li rn))"
| commit_stopped: "rs_stopc rn \<Longrightarrow> serve_step (rn, Committing data ch li) Silent (stop_with None rn)"
| advance: "loop_step (rs_node rn) EvAdvance out n \<Longrightarrow>
    serve_step (rn, Advancing) (Call EvAdvance) (Inr (rn\<lparr>rs_node := n\<rparr>, Selecting))"
| advance_stopped: "n_done (rs_node rn) \<Longrightarrow> serve_step (rn, Advancing) Silent (Inr (rn, Selecting))"
| failed: "serve_step (rn, Selecting) Silent (stop_with (Some err) rn)"
| stopped: "rs_stopc rn \<Longrightarrow> serve_step (rn, Selecting) Silent (stop_with None rn)"
| channels_closed: "rs_httpdonec rn \<Longrightarrow>
    serve_step (rn, Stopping None) Silent (go_bind (close_commits rn) (\<lambda>rn. Inr (rn, StoppingNode)))"
| error_sent: "rs_httpdonec rn \<Longrightarrow>
    serve_step (rn, Stopping (Some err)) Silent (Inr (send_error err rn, ClosingErrors))"
| error_closed: "serve_step (rn, ClosingErrors) Silent (go_bind (close_errors rn) (\<lambda>rn. Inr (rn, StoppingNode)))"
| node_stops: "loop_step (rs_node rn) EvStop out n \<Longrightarrow>
    serve_step (rn, StoppingNode) (Call EvStop) (Inr (rn\<lparr>rs_node := n\<rparr>, Ended))"
| already_stopped: "n_done (rs_node rn) \<Longrightarrow> serve_step (rn, StoppingNode) Silent (Inr (rn, Ended))"

inductive_cases serve_stepE: "serve_step (rn, pc) lab res"

text \<open>The results of the closing operations, also the other way round, as rule inversion gives them.\<close>

lemma close_chan_iff [simp]: "close_chan b = Inr c \<longleftrightarrow> \<not> b \<and> c" "Inr c = close_chan b \<longleftrightarrow> \<not> b \<and> c"
  by (auto simp: close_chan_def)

lemma stop_with_iff [simp]:
  "stop_with err rn = Inr x \<longleftrightarrow> \<not> rs_httpstopc rn \<and> x = (rn\<lparr>rs_httpstopc := True\<rparr>, Stopping err)"
  "Inr x = stop_with err rn \<longleftrightarrow> \<not> rs_httpstopc rn \<and> x = (rn\<lparr>rs_httpstopc := True\<rparr>, Stopping err)"
proof -
  show "stop_with err rn = Inr x \<longleftrightarrow> \<not> rs_httpstopc rn \<and> x = (rn\<lparr>rs_httpstopc := True\<rparr>, Stopping err)" for x :: "'a raftNode \<times> serve_pc"
    by (auto simp: stop_with_def stopHTTP_def Transport_Stop_def)
  then show "Inr x = stop_with err rn \<longleftrightarrow> \<not> rs_httpstopc rn \<and> x = (rn\<lparr>rs_httpstopc := True\<rparr>, Stopping err)"
    by metis
qed

lemma close_errors_iff: "close_errors rn = Inr rn' \<longleftrightarrow> \<not> rs_errclosed rn \<and> rn' = rn\<lparr>rs_errclosed := True\<rparr>"
  by (auto simp: close_errors_def)

lemma close_commits_iff:
  "close_commits rn = Inr rn' \<longleftrightarrow>
     \<not> rs_closed rn \<and> \<not> rs_errclosed rn \<and> rn' = rn\<lparr>rs_closed := True, rs_errclosed := True\<rparr>"
  by (auto simp: close_commits_def close_errors_iff)

lemma Inr_go_bind: "Inr y = go_bind x f \<longleftrightarrow> (\<exists>a. x = Inr a \<and> f a = Inr y)"
  by (metis go_bind_eq_Inr)

lemmas serve_results = Inr_go_bind go_bind_eq_Inr close_errors_iff close_commits_iff send_error_def

section \<open>The data published\<close>

text \<open>What the entries of a log carry for the store.\<close>

definition payload :: "Entry \<Rightarrow> string list" where
  "payload e = (if eType e = EntryNormal \<and> entry_data e \<noteq> [] then [bytes_text (entry_data e)] else [])"

definition payloads :: "Entry list \<Rightarrow> string list" where
  "payloads es = concat (map payload es)"

definition committed_data :: "'e raftNode \<Rightarrow> string list" where
  "committed_data rn = concat (map commit_data (rs_commitC rn))"

lemma payloads_simps [simp]:
  "payloads [] = []" "payloads (e # es) = payload e @ payloads es" "payloads (xs @ ys) = payloads xs @ payloads ys"
  by (simp_all add: payloads_def)

lemma collect_payload: "collect e data = data @ payload e"
  by (simp add: collect_def payload_def)

lemma payload_change: "eType e = EntryConfChange \<Longrightarrow> payload e = []"
  by (simp add: payload_def)

text \<open>A committed log: the entries are numbered from 1.  A \<open>Ready\<close> offers any window of it.\<close>

definition numbered :: "Entry list \<Rightarrow> bool" where
  "numbered log \<longleftrightarrow> length log < 2 ^ 63 \<and> (\<forall>k < length log. eIndex (log ! k) = of_nat (k + 1))"

lemma word_le_small:
  assumes "a < 2 ^ 64" and "b < 2 ^ 64"
  shows "(of_nat a :: uint64) \<le> of_nat b \<longleftrightarrow> a \<le> b" "(of_nat a :: uint64) < of_nat b \<longleftrightarrow> a < b"
  using assms by (simp_all add: word_le_nat_alt word_less_nat_alt unat_of_nat)

lemma entriesToApply_window:
  assumes "numbered log" and "ents = take n (drop a log)" and "p \<le> length log"
    and "entriesToApply ents (of_nat p) = Inr new"
  shows "\<exists>m. new = take m (drop p log)"
proof (cases "ents = []")
  case True
  then show ?thesis using assms(4) by (auto simp: entriesToApply_def intro: exI [of _ 0])
next
  case False
  let ?P = "of_nat p :: uint64"
  have a: "a < length log" and len: "length log < 2 ^ 63" using False assms(1,2) by (auto simp: numbered_def)
  have first: "eIndex (ents ! 0) = of_nat (a + 1)" using False assms(1,2) a by (simp add: numbered_def nth_take)
  have le: "a \<le> p"
  proof (rule ccontr)
    assume "\<not> a \<le> p"
    then have "?P + 1 < of_nat (a + 1)" using word_le_small(2) [of "p + 1" "a + 1"] a len by (simp add: add.commute)
    then show False using assms(4) False by (simp add: entriesToApply_def Let_def first add.commute)
  qed
  then have i: "?P - of_nat (a + 1) + 1 = of_nat (p - a)" by (simp add: of_nat_diff)
  have u: "unat (of_nat (p - a) :: uint64) = p - a" using assms(3) len by (intro unat_of_nat_small) simp
  have c: "(of_nat (p - a) :: uint64) < of_nat (length ents) \<longleftrightarrow> p - a < length ents"
    using assms(2,3) len by (intro word_le_small(2)) auto
  have "\<not> of_nat (a + 1) > ?P + 1"
    using word_le_small(1) [of "a + 1" "p + 1"] le assms(3) len by (simp add: add.commute not_less)
  then have "entriesToApply ents ?P =
      (if p - a < length ents then go_slice ents (p - a) (length ents) else Inr [])"
    using False u c by (simp only: entriesToApply_def Let_def first i) simp
  then have "new = drop (p - a) ents" using assms(4) by (auto split: if_splits)
  then have "new = take (n - (p - a)) (drop p log)" using le by (simp add: assms(2) drop_take)
  then show ?thesis by blast
qed

text \<open>A server whose node offers windows of the log one after the other, while the other goroutines do what they
  will to the node and the channels.\<close>

inductive publish_run :: "Entry list \<Rightarrow> 'e raftNode \<times> serve_pc \<Rightarrow> bool" for log where
  start: "\<lbrakk>rs_commitC rn = []; rs_appliedIndex rn = 0\<rbrakk> \<Longrightarrow> publish_run log (rn, Selecting)"
| offer: "\<lbrakk>publish_run log (rn, Selecting); window log (rdCommittedEntries rd)\<rbrakk> \<Longrightarrow>
    publish_run log (rn\<lparr>rs_node := n\<rparr>, Storing rd)"
| serve: "\<lbrakk>publish_run log (rn, pc); serve_step (rn, pc) lab (Inr (rn', pc')); lab \<noteq> Call EvReady\<rbrakk> \<Longrightarrow>
    publish_run log (rn', pc')"
| elsewhere: "publish_run log (rn, pc) \<Longrightarrow>
    publish_run log (rn\<lparr>rs_node := n, rs_stopc := b, rs_httpdonec := d\<rparr>, pc)"

text \<open>What has been published is the data of the log up to the applied index, and what is being published goes
  on from there.\<close>

definition upto :: "Entry list \<Rightarrow> uint64 \<Rightarrow> string list \<Rightarrow> bool" where
  "upto log i data \<longleftrightarrow> unat i \<le> length log \<and> data = payloads (take (unat i) log)"

fun in_step :: "Entry list \<Rightarrow> string list \<Rightarrow> serve_pc \<Rightarrow> bool" where
  "in_step log done_data (Storing rd) \<longleftrightarrow> window log (rdCommittedEntries rd)"
| "in_step log done_data (Sending is ms ces) \<longleftrightarrow> window log ces"
| "in_step log done_data (Publishing es data li) \<longleftrightarrow> upto log li (done_data @ data @ payloads es)"
| "in_step log done_data (Committing data ch li) \<longleftrightarrow> upto log li (done_data @ data)"
| "in_step log done_data _ \<longleftrightarrow> True"

definition publish_inv :: "Entry list \<Rightarrow> 'e raftNode \<times> serve_pc \<Rightarrow> bool" where
  "publish_inv log = (\<lambda>(rn, pc). upto log (rs_appliedIndex rn) (committed_data rn) \<and>
     in_step log (committed_data rn) pc)"

lemma committed_data_fields [simp]:
  "committed_data (rn\<lparr>rs_node := n\<rparr>) = committed_data rn" "committed_data (rn\<lparr>rs_transport := t\<rparr>) = committed_data rn"
  "committed_data (rn\<lparr>rs_confState := cs\<rparr>) = committed_data rn" "committed_data (rn\<lparr>rs_chans := k\<rparr>) = committed_data rn"
  "committed_data (rn\<lparr>rs_appliedIndex := i\<rparr>) = committed_data rn" "committed_data (rn\<lparr>rs_stopc := b\<rparr>) = committed_data rn"
  "committed_data (rn\<lparr>rs_httpdonec := b\<rparr>) = committed_data rn" "committed_data (rn\<lparr>rs_httpstopc := b\<rparr>) = committed_data rn"
  "committed_data (rn\<lparr>rs_closed := b\<rparr>) = committed_data rn" "committed_data (rn\<lparr>rs_errclosed := b\<rparr>) = committed_data rn"
  "committed_data (rn\<lparr>rs_errorC := x\<rparr>) = committed_data rn"
  "committed_data (rn\<lparr>rs_commitC := c\<rparr>) = concat (map commit_data c)"
  by (simp_all add: committed_data_def)

lemma begin_publish_inv:
  assumes "begin_publish ces rn = Inr x" and "numbered log" and "window log ces"
    and u: "upto log (rs_appliedIndex rn) (committed_data rn)"
  shows "publish_inv log x"
proof -
  let ?p = "unat (rs_appliedIndex rn)"
  obtain new where new: "entriesToApply ces (rs_appliedIndex rn) = Inr new"
      and x: "x = (if new = [] then (rn, Advancing) else (rn, Publishing new [] (eIndex (last new))))"
    using assms(1) by (auto simp: begin_publish_def)
  have p: "?p \<le> length log" "committed_data rn = payloads (take ?p log)" using u by (simp_all add: upto_def)
  obtain a n where "ces = take n (drop a log)" using assms(3) by (auto simp: window_def)
  then obtain m where m: "new = take m (drop ?p log)"
    using entriesToApply_window [OF assms(2) _ p(1), of ces n a new] new by auto
  show ?thesis
  proof (cases "new = []")
    case True
    then show ?thesis using u by (simp add: x publish_inv_def)
  next
    case False
    let ?k = "min m (length log - ?p)"
    have k: "0 < ?k" "?p + ?k \<le> length log" using False m p(1) by auto
    have l: "last new = log ! (?p + ?k - 1)" using False k by (simp add: last_conv_nth m min_def)
    obtain q where q: "?p + ?k = Suc q" "q < length log" using k that [of "?p + ?k - 1"] by linarith
    have "eIndex (log ! q) = of_nat (q + 1)" using assms(2) q(2) unfolding numbered_def by blast
    then have i: "eIndex (last new) = of_nat (?p + ?k)" unfolding l q(1) by simp
    have "?p + ?k < 2 ^ 64" using k(2) assms(2) by (simp add: numbered_def)
    then have n: "unat (eIndex (last new)) = ?p + ?k" unfolding i by (simp only: unat_of_nat_small)
    have "take (?p + ?k) log = take ?p log @ new" by (simp add: m take_add min_def)
    then have "upto log (eIndex (last new)) (committed_data rn @ payloads new)"
      using k(2) p(2) unfolding upto_def n by simp
    then show ?thesis using False u by (simp add: x publish_inv_def)
  qed
qed

lemma configured_inv:
  assumes "configured cc cs es data li rn = Inr x" and "upto log (rs_appliedIndex rn) (committed_data rn)"
    and "upto log li (committed_data rn @ data @ payloads es)"
  shows "publish_inv log x"
  using assms
  by (auto simp: configured_def publish_inv_def Let_def
      simp del: ConfChangeAddNode_def ConfChangeRemoveNode_def split: if_splits)

lemma publish_inv_serve:
  assumes "serve_step (rn, pc) lab (Inr x)" and "publish_inv log (rn, pc)" and "numbered log" and "lab \<noteq> Call EvReady"
  shows "publish_inv log x"
  using assms(1)
proof (cases rule: serve_step.cases)
  case alone
  then show ?thesis using assms(2,3)
    by (cases "(rn, pc)" rule: serve_local.cases)
      (auto simp: store_ready_def end_publish_def publish_inv_def collect_payload dest: begin_publish_inv split: if_splits)
next
  case (sends m ms ces)
  then show ?thesis using assms(2) by (auto simp: send_next_def publish_inv_def split: prod.splits)
next
  case (applies e cc cs n es data li)
  then show ?thesis using assms(2) payload_change [of e]
    by (intro configured_inv) (auto simp: publish_inv_def)
next
  case (apply_stopped e es data li)
  then show ?thesis using assms(2) payload_change [of e]
    by (intro configured_inv) (auto simp: publish_inv_def)
next
  case (commits data ch li)
  then show ?thesis using assms(2) by (simp add: commit_taken_def publish_inv_def) (simp add: committed_data_def)
qed (use assms(2,4) in \<open>auto simp: publish_inv_def serve_results\<close>)

lemma publish_run_inv: "\<lbrakk>publish_run log s; numbered log\<rbrakk> \<Longrightarrow> publish_inv log s"
proof (induction rule: publish_run.induct)
  case (start rn)
  then show ?case by (simp add: publish_inv_def upto_def committed_data_def)
next
  case (serve rn pc lab rn' pc')
  then show ?case using publish_inv_serve by blast
qed (simp_all add: publish_inv_def)

lemma publish_run_data:
  assumes "publish_run log (rn, pc)" and "numbered log"
  shows "unat (rs_appliedIndex rn) \<le> length log \<and> committed_data rn = payloads (take (unat (rs_appliedIndex rn)) log)"
  using publish_run_inv [OF assms] by (simp add: publish_inv_def upto_def)

section \<open>Facts on the proposing goroutine\<close>

text \<open>A call under way has not returned unless the node has stopped.\<close>

definition stuck :: "node \<Rightarrow> client \<Rightarrow> bool" where
  "stuck n c \<longleftrightarrow> (\<exists>m. c = SendProp m True) \<or> (\<exists>ch. c = AwaitResult (Some ch)) \<or>
     c = Returned (Some ErrStopped) \<and> n_done n"

lemma loop_no_result: "loop_step k (EvProp \<lparr>pm_m = m, pm_result = None\<rparr>) out k' \<Longrightarrow> out = OutProp None"
  by (auto simp: Let_def elim!: loop_stepE)

lemma loop_not_done: "loop_step n ev out n' \<Longrightarrow> \<not> n_done n"
  by (auto elim!: loop_stepE)

lemma stuck_step:
  assumes "system_step (n, c) (n', c')" and "stuck n c" and "c' \<noteq> Returned (Some CtxErr)"
  shows "stuck n' c' \<and> (n_done n \<longrightarrow> n_done n')"
  using assms(1)
proof (cases rule: system_step.cases)
  case (other ev out)
  then show ?thesis using assms loop_not_done by (auto simp: stuck_def)
next
  case (take_recv m out)
  then show ?thesis using assms by (auto simp: stuck_def elim!: client_stepE)
next
  case (take_prop pm)
  then show ?thesis using assms loop_not_done by (auto simp: stuck_def elim!: client_stepE)
next
  case (answer pm d ch err)
  then show ?thesis using assms by (auto simp: stuck_def elim!: client_stepE dest: loop_no_result)
next
  case give_up
  then show ?thesis using assms by (auto simp: stuck_def elim!: client_stepE)
next
  case node_stopped
  then show ?thesis using assms by (auto simp: stuck_def elim!: client_stepE)
qed

definition proposer_inv :: "node \<times> proposer \<Rightarrow> bool" where
  "proposer_inv = (\<lambda>(n, p). n_done n \<or>
     (case pr_call p of None \<Rightarrow> pr_taken p = [] | Some c \<Rightarrow> length (pr_taken p) \<le> 1 \<and> stuck n c))"

lemma proposer_inv_step:
  assumes "propose_step s s'" and "proposer_inv s"
  shows "proposer_inv s'"
  using assms
proof (cases rule: propose_step.cases)
  case (take_proposal p n x)
  then show ?thesis using assms(2)
    by (auto simp: proposer_inv_def stuck_def node_Propose_def stepWithWaitOption_def)
next
  case (in_call p c n n' c')
  show ?thesis
  proof (cases "n_done n")
    case True
    with in_call(4) have "n_done n'" by (auto elim!: system_step.cases dest: loop_not_done)
    then show ?thesis by (simp add: in_call(2) proposer_inv_def)
  next
    case False
    then show ?thesis
      using assms(2) in_call stuck_step [OF in_call(4) _ in_call(5)] by (auto simp: proposer_inv_def)
  qed
qed (auto simp: proposer_inv_def stuck_def dest: loop_not_done)

section \<open>Properties\<close>

text \<open>C6: the store follows the log: whatever windows of the committed log the server is offered, overlapping
  or repeated, what it has published is exactly the data of the log up to its applied index, each entry
  once and in order; and a store that has read these commits holds the writes of that prefix, so two
  servers that have applied the same prefix hold the same data.\<close>

theorem store_follows_log:
  assumes "publish_run log (rn, pc)" and "numbered log" and "\<forall>d \<in> set (payloads log). dec d \<noteq> None"
  shows "committed_data rn = payloads (take (unat (rs_appliedIndex rn)) log) \<and>
    (\<exists>chs. readCommits dec (map Some (rs_commitC rn)) NewKVStore =
       Inr (\<lparr>kv_data = contents (map (the \<circ> dec) (payloads (take (unat (rs_appliedIndex rn)) log)))\<rparr>, chs))"
proof
  let ?p = "unat (rs_appliedIndex rn)"
  show d: "committed_data rn = payloads (take ?p log)" using publish_run_data [OF assms(1,2)] by blast
  have c: "commits_data (map Some (rs_commitC rn)) = committed_data rn"
    by (simp add: commits_data_def committed_data_def comp_def)
  have "set (payloads (take ?p log)) \<subseteq> set (payloads (take ?p log @ drop ?p log))"
    unfolding payloads_simps by simp
  then have "\<forall>d \<in> set (committed_data rn). dec d \<noteq> None" using assms(3) d by auto
  then show "\<exists>chs. readCommits dec (map Some (rs_commitC rn)) NewKVStore =
       Inr (\<lparr>kv_data = contents (map (the \<circ> dec) (payloads (take ?p log)))\<rparr>, chs)"
    using readCommits_contents [of "map Some (rs_commitC rn)" dec] unfolding c d by blast
qed

text \<open>C25: the server takes at most one proposal from its clients as long as its raft node runs: the call that
  hands the first one over never comes back.\<close>

theorem one_proposal_per_server:
  assumes "propose_step\<^sup>*\<^sup>* (n, new_proposer) (n', p)" and "\<not> n_done n'"
  shows "length (pr_taken p) \<le> 1"
proof -
  have "proposer_inv (n, new_proposer)" by (simp add: proposer_inv_def new_proposer_def)
  with assms(1) have "proposer_inv (n', p)"
    by (induction rule: rtranclp_induct) (auto intro: proposer_inv_step)
  then show ?thesis using assms(2) by (auto simp: proposer_inv_def split: option.splits)
qed

text \<open>A log of two writes, offered in two windows that overlap.\<close>

definition sample_log2 :: "Entry list" where
  "sample_log2 = [\<lparr>eTerm = 1, eIndex = 1, eType = EntryNormal, eData = Some (text_bytes ''a=0'')\<rparr>,
     \<lparr>eTerm = 1, eIndex = 2, eType = EntryNormal, eData = Some (text_bytes ''a=1'')\<rparr>]"

definition sample_server :: "unit raftNode" where
  "sample_server = \<lparr>rs_id = 1, rs_peers = [], rs_join = False, rs_confState = zeroConfState, rs_appliedIndex = 0,
     rs_node = solo_node 1, rs_transport = sample_transport, rs_commitC = [], rs_chans = 0, rs_stopc = False,
     rs_httpstopc = False, rs_httpdonec = False, rs_closed = False, rs_errorC = [], rs_errclosed = False\<rparr>"

text \<open>A node that is done lets every call return.\<close>

definition offered :: "Entry list \<Rightarrow> Ready" where
  "offered ents = zeroReady\<lparr>rdCommittedEntries := ents\<rparr>"

definition served :: "unit raftNode" where
  "served = sample_server\<lparr>rs_node := (solo_node 1)\<lparr>n_done := True\<rparr>, rs_appliedIndex := 2, rs_chans := 2,
     rs_commitC := [\<lparr>commit_data = [''a=0''], commit_applyDoneC = 0\<rparr>, \<lparr>commit_data = [''a=1''], commit_applyDoneC = 1\<rparr>]\<rparr>"

lemma sample_texts: "bytes_text (text_bytes ''a=0'') = ''a=0''" "bytes_text (text_bytes ''a=1'') = ''a=1''"
    "text_bytes ''a=0'' \<noteq> []" "text_bytes ''a=1'' \<noteq> []"
  by code_simp+

text \<open>One round of the serving loop for one entry.\<close>

lemma sample_round:
  assumes r: "publish_run log (rn, Selecting)" and w: "window log ents" and d: "n_done (rs_node rn)"
    and new: "entriesToApply ents (rs_appliedIndex rn) = Inr [e]" and e: "eType e = EntryNormal" "entry_data e \<noteq> []"
  shows "publish_run log (rn\<lparr>rs_chans := rs_chans rn + 1,
    rs_commitC := rs_commitC rn @ [\<lparr>commit_data = [bytes_text (entry_data e)], commit_applyDoneC = rs_chans rn\<rparr>],
    rs_appliedIndex := eIndex e\<rparr>, Selecting)"
proof -
  have s: "publish_run log (rn1, pc1) \<Longrightarrow> serve_local rn1 pc1 = Some (Inr (rn2, pc2)) \<Longrightarrow> publish_run log (rn2, pc2)"
    for rn1 rn2 :: "'a raftNode" and pc1 pc2
    by (rule publish_run.serve [OF _ serve_step.alone]) simp_all
  have st: "store_ready (offered ents) rn = Inr (rn, Sending [] [] ents)"
    by (simp add: store_ready_def offered_def zeroReady_def on_raft_def Storage_Append_def set_raft_def)
  have "publish_run log (rn, Storing (offered ents))"
    using publish_run.offer [OF r, of "offered ents" "rs_node rn"] w by (simp add: offered_def)
  then have "publish_run log (rn, Sending [] [] ents)" by (rule s) (simp add: st)
  then have "publish_run log (rn, Publishing [e] [] (eIndex e))"
    by (rule s) (simp add: begin_publish_def new)
  then have "publish_run log (rn, Publishing [] [bytes_text (entry_data e)] (eIndex e))"
    by (rule s) (use e in \<open>simp add: collect_def\<close>)
  then have "publish_run log (rn\<lparr>rs_chans := rs_chans rn + 1\<rparr>, Committing [bytes_text (entry_data e)] (rs_chans rn) (eIndex e))"
    by (rule s) (simp add: end_publish_def)
  from publish_run.serve [OF this, OF serve_step.commits [unfolded commit_taken_def maybeTriggerSnapshot_def]]
  have "publish_run log (rn\<lparr>rs_chans := rs_chans rn + 1,
    rs_commitC := rs_commitC rn @ [\<lparr>commit_data = [bytes_text (entry_data e)], commit_applyDoneC = rs_chans rn\<rparr>],
    rs_appliedIndex := eIndex e\<rparr>, Advancing)"
    by simp
  then show ?thesis by (rule publish_run.serve [OF _ serve_step.advance_stopped]) (simp_all add: d)
qed

lemma sample_served: "publish_run sample_log2 (served, Selecting)"
proof -
  let ?e = "sample_log2 ! 0" and ?f = "sample_log2 ! 1"
  let ?s = "sample_server\<lparr>rs_node := (solo_node 1)\<lparr>n_done := True\<rparr>\<rparr>"
  have "publish_run sample_log2 (sample_server, Selecting)"
    by (rule publish_run.start) (simp_all add: sample_server_def)
  from publish_run.elsewhere [OF this, where n = "(solo_node 1)\<lparr>n_done := True\<rparr>" and b = False and d = False]
  have 0: "publish_run sample_log2 (?s, Selecting)" by (simp add: sample_server_def)
  have w: "window sample_log2 [?e]" "window sample_log2 [?e, ?f]"
    unfolding window_def by (rule exI [of _ 0], rule exI [of _ 1], simp add: sample_log2_def)
      (rule exI [of _ 0], rule exI [of _ 2], simp add: sample_log2_def)
  have d: "entry_data ?e = text_bytes ''a=0''" "entry_data ?f = text_bytes ''a=1''"
    by (simp_all add: entry_data_def sample_log2_def)
  note 1 = sample_round [OF 0 w(1), of ?e, unfolded d sample_texts(1)]
  then have 1: "publish_run sample_log2 (?s\<lparr>rs_chans := 1,
      rs_commitC := [\<lparr>commit_data = [''a=0''], commit_applyDoneC = 0\<rparr>], rs_appliedIndex := 1\<rparr>, Selecting)"
    using sample_texts(3) d by (simp add: entriesToApply_def sample_log2_def sample_server_def)
  note 2 = sample_round [OF 1 w(2), of ?f, unfolded d sample_texts(2)]
  then show ?thesis
    using sample_texts(4) d by (simp add: entriesToApply_def sample_log2_def sample_server_def served_def eval_nat_numeral)
qed

theorem store_follows_log_witness:
  "\<exists>chs. readCommits sample_dec (map Some (rs_commitC served)) NewKVStore =
     Inr (\<lparr>kv_data = contents (map (the \<circ> sample_dec) [''a=0'', ''a=1''])\<rparr>, chs)"
proof -
  have p: "payloads sample_log2 = [''a=0'', ''a=1'']"
    by (simp add: sample_log2_def payload_def entry_data_def sample_texts)
  have n: "numbered sample_log2" by (simp add: numbered_def sample_log2_def less_Suc_eq)
  have d: "\<forall>d \<in> set (payloads sample_log2). sample_dec d \<noteq> None"
    unfolding p by (simp add: sample_dec_def)
  have "take (unat (rs_appliedIndex served)) sample_log2 = sample_log2"
    by (simp add: served_def sample_log2_def)
  with store_follows_log [OF sample_served n d] p show ?thesis by simp
qed

theorem one_proposal_per_server_witness:
  "\<exists>p. propose_step\<^sup>*\<^sup>* (solo_node 1, new_proposer) (solo_node 1, p) \<and> length (pr_taken p) = 1 \<and>
     length (pr_taken p) \<le> 1"
proof -
  let ?p = "new_proposer\<lparr>pr_call := Some (node_Propose (Some (text_bytes ''a=0''))), pr_taken := [''a=0'']\<rparr>"
  have "propose_step (solo_node 1, new_proposer) (solo_node 1, ?p)"
    using propose_step.take_proposal [of new_proposer "solo_node 1" "''a=0''"] by (simp add: new_proposer_def)
  then have r: "propose_step\<^sup>*\<^sup>* (solo_node 1, new_proposer) (solo_node 1, ?p)" by blast
  have "\<not> n_done (solo_node 1)" by (simp add: solo_node_def solo_rawnode_def newNode_def)
  from one_proposal_per_server [OF r this] r show ?thesis by auto
qed

end
