(* ===== verification/Cluster_Start.thy ===== *)
theory Cluster_Start
  imports Raft_Cluster Kv_Raft
begin

text \<open>
  How a cluster comes up: \<open>startRaft\<close> of \<open>src/kv/raftNode.go\<close> through \<open>setupNode\<close>, \<open>NewRawNode\<close>, \<open>Bootstrap\<close>
  and one configuration change per peer.  Every server that starts reaches a node from which the cluster
  of \<open>Raft_Cluster\<close> may start.
\<close>

section \<open>A new raft node\<close>

lemma Visit_empty: "Visit_ids fmempty = []"
  by (simp add: Visit_ids sorted_list_of_fset.rep_eq)

lemma start_storage_ok: "storage_ok (NewMemoryStorage\<lparr>ms_callStats := c\<rparr>)"
  using NewMemoryStorage_ok by (simp add: storage_ok_def storage_base_def)

lemma newRaft_start:
  assumes "(word_of_int i :: uint64) \<noteq> 0" and "\<not> IsLocalMsgTarget (word_of_int i)"
  shows "\<exists>r c. newRaft rnd (start_config i) = Inr r \<and> r_id r = word_of_int i \<and>
    r_msgs r = [] \<and> r_msgsAfterAppend r = [] \<and> r_electionTimeout r = 10 \<and>
    trkConfig (r_trk r) = zeroConfig\<lparr>cfgVoters := (Some {||}, None)\<rparr> \<and> trkProgress (r_trk r) = fmempty \<and>
    l_storage (r_raftLog r) = NewMemoryStorage\<lparr>ms_callStats := c\<rparr> \<and>
    l_unstable (r_raftLog r) = \<lparr>u_snapshot = None, u_entries = [], u_offset = 1, u_snapshotInProgress = False,
      u_offsetInProgress = 1\<rparr> \<and>
    l_committed (r_raftLog r) = 0 \<and> l_applying (r_raftLog r) = 0 \<and> l_applied (r_raftLog r) = 0"
  using assms
  by (simp add: newRaft_def validate_def start_config_def noLimit_def newLogWithSize_def Storage_FirstIndex_def
      Storage_firstIndex_def becomeFollower_def raft_reset_def resetRandomizedElectionTimeout_def Intn_def
      ResetVotes_def Visit_def Visit_empty lastTerm_def log_term_def maybeTerm_def maybeFirstIndex_def
      log_firstIndex_def Storage_Term_def solo_log MakeProgressTracker_def)

text \<open>Becoming a follower of a term without any peer to reset.\<close>

lemma becomeFollower_start:
  assumes "trkProgress (r_trk r) = fmempty" and "r_electionTimeout r = 10"
  shows "\<exists>r'. becomeFollower t 0 r = Inr r' \<and> r_id r' = r_id r \<and> r_msgs r' = r_msgs r \<and>
    r_msgsAfterAppend r' = r_msgsAfterAppend r \<and> trkConfig (r_trk r') = trkConfig (r_trk r) \<and>
    trkProgress (r_trk r') = fmempty \<and> r_raftLog r' = r_raftLog r"
  using assms
  by (simp add: becomeFollower_def raft_reset_def resetRandomizedElectionTimeout_def Intn_def ResetVotes_def
      Visit_def Visit_empty)

section \<open>The bootstrap entries\<close>

lemma bootstrap_entries_total:
  "\<exists>es. bootstrap_entries k ps = Inr es \<and> length es = length ps \<and>
     (\<forall>j < length ps. eIndex (es ! j) = of_nat (k + j + 1) \<and> eTerm (es ! j) = 1 \<and> eType (es ! j) = EntryConfChange)"
proof (induction ps arbitrary: k)
  case (Cons p ps)
  obtain es where es: "bootstrap_entries (Suc k) ps = Inr es" "length es = length ps"
      "\<forall>j < length ps. eIndex (es ! j) = of_nat (Suc k + j + 1) \<and> eTerm (es ! j) = 1 \<and> eType (es ! j) = EntryConfChange"
    using Cons.IH by blast
  obtain e where e: "bootstrap_entry k p = Inr e" "eIndex e = of_nat (k + 1)" "eTerm e = 1" "eType e = EntryConfChange"
    by (simp add: bootstrap_entry_def ConfChange_Marshal_def confchange.marshal)
  have "eIndex ((e # es) ! j) = of_nat (k + j + 1) \<and> eTerm ((e # es) ! j) = 1 \<and> eType ((e # es) ! j) = EntryConfChange"
    if "j < length (p # ps)" for j
    using that es(2,3) e by (cases j) (simp_all del: EntryConfChange_def)
  then show ?case using es e by (intro exI [of _ "e # es"]) simp
qed simp

section \<open>Adding the peers\<close>

lemma applyConfChange_add:
  assumes "r_state r = StateFollower" and "log_shape (r_raftLog r)"
    and "cfgVoters (trkConfig (r_trk r)) = (Some S, None)" and "fmdom (trkProgress (r_trk r)) = S"
    and "peerID p \<noteq> 0" and "peerID p |\<notin>| S"
  shows "\<exists>cfg trk b cs. applyConfChange (bootstrap_change p) r =
      Inr (r\<lparr>r_trk := (r_trk r)\<lparr>trkConfig := cfg, trkProgress := trk\<rparr>, r_isLearner := b\<rparr>, cs) \<and>
    cfgVoters cfg = (Some (finsert (peerID p) S), None) \<and> fmdom trk = finsert (peerID p) S"
proof -
  have dom: "fmlookup (trkProgress (r_trk r)) (peerID p) = None" using assms(4,6) by (simp add: fmdom_notD)
  have sd: "symdiff (Some S) (Some (finsert (peerID p) S)) \<le> 1"
    using assms(6) by (simp add: symdiff_card insert_Diff_if)
  have "\<exists>cfg trk. Simple \<lparr>chTracker = r_trk r, LastIndex = li\<rparr> (cc2Changes (bootstrap_change p)) = Inr (Inr (cfg, trk)) \<and>
      cfgVoters cfg = (Some (finsert (peerID p) S), None) \<and> fmdom trk = finsert (peerID p) S" for li
    using assms dom sd
    by (simp add: Simple_unfold bootstrap_change_def ConfChange_AsV2_def joint_config_def outgoing_def incoming_def
        makeVoter_def initProgress_def)
  then show ?thesis
    using assms(1) log_last [OF assms(2)] by (fastforce simp: applyConfChange_def switchToConfig_def Let_def)
qed

lemma add_all_peers:
  assumes "r_state r = StateFollower" and "log_shape (r_raftLog r)"
    and "cfgVoters (trkConfig (r_trk r)) = (Some S, None)" and "fmdom (trkProgress (r_trk r)) = S"
    and "distinct (map peerID ps)" and "0 \<notin> peerID ` set ps" and "\<forall>p \<in> set ps. peerID p |\<notin>| S"
  shows "\<exists>trk b. go_foldl (\<lambda>r p. go_bind (applyConfChange (bootstrap_change p) r) (\<lambda>(r, _). Inr r)) r ps =
      Inr (r\<lparr>r_trk := trk, r_isLearner := b\<rparr>) \<and>
    cfgVoters (trkConfig trk) = (Some (S |\<union>| fset_of_list (map peerID ps)), None)"
  using assms
proof (induction ps arbitrary: r S)
  case Nil
  then show ?case by (intro exI [of _ "r_trk r"] exI [of _ "r_isLearner r"]) simp
next
  case (Cons p ps)
  let ?S = "finsert (peerID p) S"
  obtain cfg trk b cs where a: "applyConfChange (bootstrap_change p) r =
        Inr (r\<lparr>r_trk := (r_trk r)\<lparr>trkConfig := cfg, trkProgress := trk\<rparr>, r_isLearner := b\<rparr>, cs)"
      "cfgVoters cfg = (Some ?S, None)" "fmdom trk = ?S"
    using applyConfChange_add [OF Cons.prems(1-4), of p] Cons.prems(6,7) by auto
  let ?r = "r\<lparr>r_trk := (r_trk r)\<lparr>trkConfig := cfg, trkProgress := trk\<rparr>, r_isLearner := b\<rparr>"
  obtain trk' b' where "go_foldl (\<lambda>r p. go_bind (applyConfChange (bootstrap_change p) r) (\<lambda>(r, _). Inr r)) ?r ps =
      Inr (?r\<lparr>r_trk := trk', r_isLearner := b'\<rparr>)"
      "cfgVoters (trkConfig trk') = (Some (?S |\<union>| fset_of_list (map peerID ps)), None)"
  proof -
    have "\<forall>q \<in> set ps. peerID q |\<notin>| ?S" using Cons.prems(5,7) by (auto simp: image_iff)
    with Cons.prems a(2,3) have "\<exists>trk' b'. go_foldl (\<lambda>r p. go_bind (applyConfChange (bootstrap_change p) r) (\<lambda>(r, _). Inr r)) ?r ps =
      Inr (?r\<lparr>r_trk := trk', r_isLearner := b'\<rparr>) \<and>
      cfgVoters (trkConfig trk') = (Some (?S |\<union>| fset_of_list (map peerID ps)), None)"
      by (intro Cons.IH) simp_all
    then show thesis using that by blast
  qed
  then show ?case using a(1) by (intro exI [of _ trk'] exI [of _ b']) simp
qed

section \<open>Setting up a node\<close>

lemma start_log_ok:
  assumes "l_storage l = NewMemoryStorage\<lparr>ms_callStats := c\<rparr>"
    and "l_unstable l = \<lparr>u_snapshot = None, u_entries = [], u_offset = 1, u_snapshotInProgress = False,
      u_offsetInProgress = 1\<rparr>"
    and "l_committed l = 0" and "l_applying l = 0" and "l_applied l = 0"
  shows "log_ok l \<and> log_base l = 0 \<and> log_items l = [zeroEntry]"
  using assms start_storage_ok [of c]
  by (simp add: log_ok_def log_shape_def log_base_def log_items_def storage_base_def NewMemoryStorage_def zeroEntry_def)

lemma log_append_start:
  assumes "log_ok l" and "log_base l = 0" and "log_items l = [zeroEntry]" and "l_committed l = 0"
    and "es \<noteq> []" and "length es < 2 ^ 62" and "\<forall>j < length es. eIndex (es ! j) = of_nat (j + 1)"
    and "u_entries (l_unstable l) = []" and "u_offset (l_unstable l) = 1" and "u_snapshot (l_unstable l) = None"
  shows "\<exists>u last. log_append es l = Inr (l\<lparr>l_unstable := u\<rparr>, last) \<and> log_shape (l\<lparr>l_unstable := u\<rparr>) \<and>
    log_items (l\<lparr>l_unstable := u\<rparr>) = zeroEntry # es \<and>
    u_entries u = es \<and> u_offset u = 1 \<and> u_snapshot u = None"
proof -
  have "unat (of_nat (j + 1) :: uint64) = 1 + j" if "j < length es" for j
    using that assms(6) by (subst unat_of_nat_small) simp_all
  then have run: "contiguous 1 es" using assms(6,7) by (auto simp: contiguous_def)
  obtain u li where u: "log_append es l = Inr (l\<lparr>l_unstable := u\<rparr>, li)" "log_shape (l\<lparr>l_unstable := u\<rparr>)"
      "log_items (l\<lparr>l_unstable := u\<rparr>) = zeroEntry # es"
    using log_append_spec [OF assms(1) run assms(5)] assms(2-4) by (auto simp: put_items_def dest: log_okD)
  have "eIndex (es ! 0) = 1" using assms(5,7) by auto
  then have "truncateAndAppend es (l_unstable l) = Inr ((l_unstable l)\<lparr>u_entries := es\<rparr>)"
    using assms(5,8,9) by (simp add: truncateAndAppend_def)
  then have "l\<lparr>l_unstable := u\<rparr> = l\<lparr>l_unstable := (l_unstable l)\<lparr>u_entries := es\<rparr>\<rparr>"
    using u(1) assms(5) by (auto simp: log_append_def Let_def split: if_splits)
  then have "u = (l_unstable l)\<lparr>u_entries := es\<rparr>" by (metis raftLog.select_convs(2) raftLog.surjective raftLog.update_convs(2))
  then show ?thesis using u assms(9,10) by auto
qed

lemma setupNode_fresh:
  assumes i: "(word_of_int i :: uint64) \<noteq> 0" "\<not> IsLocalMsgTarget (word_of_int i)"
    and peers: "peers \<noteq> []" "distinct (map peerID peers)" "0 \<notin> peerID ` set peers" "length peers < 2 ^ 62"
  shows "\<exists>n B. setupNode rnd (start_config i) peers = Inr n \<and> bootstrap_entries 0 peers = Inr B \<and>
    fresh_node B (Some (fset_of_list (map peerID peers)), None) (word_of_int i) n \<and>
    r_Term (rn_raft (n_rn n)) = 1 \<and>
    length (log_items (r_raftLog (rn_raft (n_rn n)))) = length peers + 1 \<and>
    l_committed (r_raftLog (rn_raft (n_rn n))) = of_nat (length peers)"
proof -
  obtain r0 c where r0: "newRaft rnd (start_config i) = Inr r0" "r_id r0 = word_of_int i" "r_msgs r0 = []"
      "r_msgsAfterAppend r0 = []" "r_electionTimeout r0 = 10"
      "trkConfig (r_trk r0) = zeroConfig\<lparr>cfgVoters := (Some {||}, None)\<rparr>" "trkProgress (r_trk r0) = fmempty"
      "l_storage (r_raftLog r0) = NewMemoryStorage\<lparr>ms_callStats := c\<rparr>"
      "l_unstable (r_raftLog r0) = \<lparr>u_snapshot = None, u_entries = [], u_offset = 1, u_snapshotInProgress = False,
        u_offsetInProgress = 1\<rparr>"
      "l_committed (r_raftLog r0) = 0" "l_applying (r_raftLog r0) = 0" "l_applied (r_raftLog r0) = 0"
    using newRaft_start [OF i, of rnd] by blast
  obtain st c' where st: "Storage_LastIndex (l_storage (r_raftLog r0)) = Inr (0, st)"
      "st = NewMemoryStorage\<lparr>ms_callStats := c'\<rparr>"
    by (simp add: r0(8) Storage_LastIndex_def Storage_lastIndex_def NewMemoryStorage_def zeroEntry_def Let_def)
  define l where "l = (r_raftLog r0)\<lparr>l_storage := st\<rparr>"
  have l: "log_ok l \<and> log_base l = 0 \<and> log_items l = [zeroEntry]"
    by (rule start_log_ok [where c = c']) (simp_all add: l_def st(2) r0)
  obtain r1 where r1: "becomeFollower 1 0 (r0\<lparr>r_raftLog := l\<rparr>) = Inr r1" "r_id r1 = word_of_int i" "r_msgs r1 = []"
      "r_msgsAfterAppend r1 = []" "trkConfig (r_trk r1) = trkConfig (r_trk r0)" "trkProgress (r_trk r1) = fmempty"
      "r_raftLog r1 = l"
    using becomeFollower_start [of "r0\<lparr>r_raftLog := l\<rparr>" 1] r0(2-7) by auto
  note role = becomeFollower_role [OF r1(1)]
  obtain es where es: "bootstrap_entries 0 peers = Inr es" "length es = length peers"
      "\<forall>j < length peers. eIndex (es ! j) = of_nat (j + 1)"
    using bootstrap_entries_total [of 0 peers] by auto
  obtain u last where u: "log_append es l = Inr (l\<lparr>l_unstable := u\<rparr>, last)" "log_shape (l\<lparr>l_unstable := u\<rparr>)"
      "log_items (l\<lparr>l_unstable := u\<rparr>) = zeroEntry # es" "u_entries u = es" "u_offset u = 1" "u_snapshot u = None"
  proof -
    have c: "l_committed l = 0" by (simp add: l_def r0)
    have n: "es \<noteq> []" "length es < 2 ^ 62" "\<forall>j < length es. eIndex (es ! j) = of_nat (j + 1)"
      using es(2,3) peers(1,4) by (cases es; simp)+
    from l have "log_ok l" "log_base l = 0" "log_items l = [zeroEntry]" by blast+
    moreover have "u_entries (l_unstable l) = []" "u_offset (l_unstable l) = 1" "u_snapshot (l_unstable l) = None"
      by (simp_all add: l_def r0)
    ultimately show thesis using log_append_start [OF _ _ _ c n] that by blast
  qed
  let ?l = "l\<lparr>l_unstable := u, l_committed := of_nat (length peers)\<rparr>"
  let ?r = "r1\<lparr>r_raftLog := ?l\<rparr>"
  have sh: "log_shape ?l" and items: "log_items ?l = zeroEntry # es"
    using u(2,3) by (simp_all add: log_shape_def log_base_def log_items_def)
  obtain trk b where t: "go_foldl (\<lambda>r p. go_bind (applyConfChange (bootstrap_change p) r) (\<lambda>(r, _). Inr r)) ?r peers =
      Inr (?r\<lparr>r_trk := trk, r_isLearner := b\<rparr>)"
      "cfgVoters (trkConfig trk) = (Some (fset_of_list (map peerID peers)), None)"
    using add_all_peers [of ?r "{||}" peers] role r1 r0(6) sh peers(2,3) by auto
  define rn where "rn = \<lparr>rn_raft = ?r\<lparr>r_trk := trk, r_isLearner := b\<rparr>, rn_async = False, rn_prevSoftSt = None,
     rn_prevHardSt = zeroHardState, rn_stepsOnAdvance = []\<rparr>"
  have "NewRawNode rnd (start_config i) = Inr \<lparr>rn_raft = r0, rn_async = False, rn_prevSoftSt = None,
     rn_prevHardSt = zeroHardState, rn_stepsOnAdvance = []\<rparr>"
    by (simp add: NewRawNode_def r0(1)) (simp add: start_config_def)
  then have "setupNode rnd (start_config i) peers = Inr (newNode rn)"
    using peers(1) st(1) r1(1,7) es u(1) t(1)
    by (simp add: setupNode_def Bootstrap_def Let_def l_def rn_def)
  moreover have "settled es (?r\<lparr>r_trk := trk, r_isLearner := b\<rparr>)"
    using role(3) r1 u(4-6) es(2,3) peers(1,4) i(1) by (auto simp: settled_def boot_log_def indexed_def add.commute)
  then have "fresh_node es (Some (fset_of_list (map peerID peers)), None) (word_of_int i) (newNode rn)"
    using role r1 t(2) u(4-6) by (simp add: fresh_node_def rn_def newNode_def role_ok_def)
  ultimately show ?thesis
    using role(3) items es(1,2) by (intro exI [of _ "newNode rn"] exI [of _ es]) (simp add: rn_def newNode_def)
qed

section \<open>Starting the servers\<close>

definition start_voters :: "string list \<Rightarrow> JointConfig" where
  "start_voters peers = (Some (fset_of_list (map peerID (start_peers peers))), None)"

definition start_entries :: "string list \<Rightarrow> Entry list" where
  "start_entries peers = (case bootstrap_entries 0 (start_peers peers) of Inr es \<Rightarrow> es | Inl _ \<Rightarrow> [])"

lemma start_peers_ids: "map peerID (start_peers peers) = map (\<lambda>k. of_nat (k + 1)) [0..<length peers]"
  by (simp add: start_peers_def)

lemma start_peers_ok:
  assumes "length peers < 2 ^ 62"
  shows "distinct (map peerID (start_peers peers))" "0 \<notin> peerID ` set (start_peers peers)"
proof -
  have u: "unat (of_nat (k + 1) :: uint64) = k + 1" if "k < length peers" for k
    using that assms by (intro unat_of_nat_small) simp
  have "inj_on (\<lambda>k. of_nat (k + 1) :: uint64) (set [0..<length peers])"
    by (rule inj_onI) (metis u add_right_imp_eq atLeastLessThan_iff set_upt)
  then show "distinct (map peerID (start_peers peers))"
    unfolding start_peers_ids by (simp only: distinct_map distinct_upt)
  have "(of_nat (k + 1) :: uint64) \<noteq> 0" if "k < length peers" for k
    using u [OF that] by (metis add_is_0 one_neq_zero unat_0)
  then show "0 \<notin> peerID ` set (start_peers peers)" by (auto simp: start_peers_def)
qed

lemma of_int_nat_id: "(word_of_int (int k) :: uint64) = of_nat k"
  by simp

lemma small_id:
  assumes "0 < k" and "k < 2 ^ 63"
  shows "(of_nat k :: uint64) \<noteq> 0" "\<not> IsLocalMsgTarget (of_nat k)"
proof -
  have u: "unat (of_nat k :: uint64) = k" using assms(2) by (intro unat_of_nat_small) simp
  then show "(of_nat k :: uint64) \<noteq> 0" using assms(1) by (metis less_irrefl unat_0)
  have n: "(of_nat (k + d) :: uint64) \<noteq> 0" if "d \<le> 2" for d
  proof -
    have "unat (of_nat (k + d) :: uint64) = k + d" using assms that by (intro unat_of_nat_small) simp
    then show ?thesis using assms(1) by (metis add_is_0 less_irrefl unat_0)
  qed
  have "(of_nat k :: uint64) \<noteq> - 1" "(of_nat k :: uint64) \<noteq> - 2"
    using n [of 1] n [of 2] by (auto simp: add.commute)
  then show "\<not> IsLocalMsgTarget (of_nat k)"
    by (simp add: IsLocalMsgTarget_def LocalAppendThread_def LocalApplyThread_def)
qed

text \<open>The peers added are all the others.\<close>

lemma add_peers_total:
  assumes "tr_peers t = Some ps" and "\<forall>u \<in> set us. \<exists>urls. NewURLs (nt_parse (tr_net t)) (nt_show (tr_net t)) [u] = Inr urls"
  shows "\<exists>ps'. add_peers me k us t = Inr (t\<lparr>tr_peers := Some ps'\<rparr>) \<and>
    fset (fmdom ps') = fset (fmdom ps) \<union> {of_nat (k + j + 1) | j. j < length us \<and> int (k + j) + 1 \<noteq> me}"
  using assms
proof (induction us arbitrary: k t ps)
  case Nil
  then show ?case by (intro exI [of _ ps]) (cases t, simp)
next
  case (Cons u us)
  have shift: "{of_nat (k + j + 1) | j. j < length (u # us) \<and> int (k + j) + 1 \<noteq> me} =
      (if int k + 1 \<noteq> me then {of_nat (k + 1) :: uint64} else {}) \<union>
      {of_nat (k + 1 + j + 1) | j. j < length us \<and> int (k + 1 + j) + 1 \<noteq> me}" (is "?L = ?R")
  proof (intro set_eqI iffI)
    fix x assume "x \<in> ?L"
    then obtain j where "x = of_nat (k + j + 1)" "j < length (u # us)" "int (k + j) + 1 \<noteq> me" by blast
    then show "x \<in> ?R" by (cases j) (auto simp: ac_simps intro!: exI [of _ "j - 1"])
  next
    fix x assume "x \<in> ?R"
    then consider "x = of_nat (k + 1)" "int k + 1 \<noteq> me"
      | j where "x = of_nat (k + 1 + j + 1)" "j < length us" "int (k + 1 + j) + 1 \<noteq> me"
      by (auto split: if_splits)
    then show "x \<in> ?L"
    proof cases
      case 1
      then show ?thesis by (auto intro!: exI [of _ 0])
    next
      case (2 j)
      then show ?thesis by (auto simp: ac_simps intro!: exI [of _ "Suc j"])
    qed
  qed
  obtain ps1 where a: "(if int k + 1 \<noteq> me then AddPeer (of_nat (k + 1)) [u] t else Inr t) = Inr (t\<lparr>tr_peers := Some ps1\<rparr>)"
      "fset (fmdom ps1) = fset (fmdom ps) \<union> (if int k + 1 \<noteq> me then {of_nat (k + 1)} else {})"
  proof (cases "int k + 1 \<noteq> me")
    case False
    then show thesis using that [of ps] Cons.prems(1) by (cases t) simp
  next
    case True
    show thesis
    proof (cases "fmlookup ps (of_nat (k + 1))")
      case None
      obtain urls where "NewURLs (nt_parse (tr_net t)) (nt_show (tr_net t)) [u] = Inr urls" using Cons.prems(2) by auto
      then show thesis
        using True None Cons.prems(1) that [of "fmupd (of_nat (k + 1)) (startPeer (nt_ID (tr_net t)) urls (of_nat (k + 1))) ps"]
        by (simp add: AddPeer_def)
    next
      case (Some p)
      then have "of_nat (k + 1) |\<in>| fmdom ps" by (rule fmdomI)
      then show thesis using True Some Cons.prems(1) that [of ps] by (cases t) (auto simp: AddPeer_def)
    qed
  qed
  have "\<exists>ps'. add_peers me (k + 1) us (t\<lparr>tr_peers := Some ps1\<rparr>) = Inr (t\<lparr>tr_peers := Some ps1\<rparr>\<lparr>tr_peers := Some ps'\<rparr>) \<and>
    fset (fmdom ps') = fset (fmdom ps1) \<union> {of_nat (k + 1 + j + 1) | j. j < length us \<and> int (k + 1 + j) + 1 \<noteq> me}"
    by (rule Cons.IH) (use Cons.prems(2) in simp_all)
  then obtain ps' where "add_peers me (k + 1) us (t\<lparr>tr_peers := Some ps1\<rparr>) = Inr (t\<lparr>tr_peers := Some ps'\<rparr>)"
    "fset (fmdom ps') = fset (fmdom ps1) \<union> {of_nat (k + 1 + j + 1) | j. j < length us \<and> int (k + 1 + j) + 1 \<noteq> me}"
    by auto
  then have "add_peers me k (u # us) t = Inr (t\<lparr>tr_peers := Some ps'\<rparr>) \<and>
    fset (fmdom ps') = fset (fmdom ps) \<union> {of_nat (k + j + 1) | j. j < length (u # us) \<and> int (k + j) + 1 \<noteq> me}"
    unfolding shift using a by (simp add: Un_assoc)
  then show ?case by blast
qed

lemma server_node:
  assumes "startRaft rnd resolves parse show (int k) peers False = Inr rn"
    and "0 < k" and "k \<le> length peers" and "length peers < 2 ^ 62"
  shows "fresh_node (start_entries peers) (start_voters peers) (of_nat k) (rs_node rn)"
proof -
  have i: "(word_of_int (int k) :: uint64) \<noteq> 0" "\<not> IsLocalMsgTarget (word_of_int (int k))"
    using small_id [of k] assms(2-4) by simp_all
  have p: "start_peers peers \<noteq> []" "length (start_peers peers) < 2 ^ 62"
    using assms(2-4) by (auto simp: start_peers_def)
  obtain n where n: "setupNode rnd (start_config (int k)) (start_peers peers) = Inr n"
      "fresh_node (start_entries peers) (start_voters peers) (of_nat k) n"
    using setupNode_fresh [OF i p(1) start_peers_ok [OF assms(4)] p(2), of rnd]
    unfolding start_voters_def start_entries_def of_int_nat_id by auto
  then have "rs_node rn = n" using assms(1) by (auto simp: startRaft_def Let_def)
  then show ?thesis using n(2) by simp
qed

lemma start_voters_nonempty: "peers \<noteq> [] \<Longrightarrow> Joint_IDs (start_voters peers) \<noteq> {||}"
  by (cases peers) (auto simp: start_voters_def start_peers_def Joint_IDs_def upt_rec)

text \<open>A server that starts: its node is a follower at term 1 whose voters are all the servers, the bootstrap
  entries are committed, and its transport has a peer for every other server.\<close>

lemma server_starts:
  assumes "0 < k" and "k \<le> length peers" and "length peers < 2 ^ 62"
    and "\<forall>u \<in> set peers. \<exists>urls. NewURLs parse show [u] = Inr urls"
  shows "\<exists>rn. startRaft rnd resolves parse show (int k) peers False = Inr rn \<and>
    r_state (rn_raft (n_rn (rs_node rn))) = StateFollower \<and> r_Term (rn_raft (n_rn (rs_node rn))) = 1 \<and>
    cfgVoters (trkConfig (r_trk (rn_raft (n_rn (rs_node rn))))) = (Some (fset_of_list (map of_nat [1..<length peers + 1])), None) \<and>
    l_committed (r_raftLog (rn_raft (n_rn (rs_node rn)))) = of_nat (length peers) \<and>
    {j. Transport_Get j (rs_transport rn) \<noteq> None} = {of_nat j | j. 0 < j \<and> j \<le> length peers \<and> j \<noteq> k}"
proof -
  have i: "(word_of_int (int k) :: uint64) \<noteq> 0" "\<not> IsLocalMsgTarget (word_of_int (int k))"
    using small_id [of k] assms(1-3) by simp_all
  have p: "start_peers peers \<noteq> []" "length (start_peers peers) < 2 ^ 62" "length (start_peers peers) = length peers"
    using assms(1-3) by (auto simp: start_peers_def)
  obtain n B where n: "setupNode rnd (start_config (int k)) (start_peers peers) = Inr n"
      "fresh_node B (start_voters peers) (of_nat k) n" "r_Term (rn_raft (n_rn n)) = 1"
      "l_committed (r_raftLog (rn_raft (n_rn n))) = of_nat (length peers)"
    using setupNode_fresh [OF i p(1) start_peers_ok [OF assms(3)] p(2), of rnd]
    unfolding start_voters_def of_int_nat_id p(3) by blast
  define t0 where "t0 = \<lparr>tr_logger = True, tr_net = \<lparr>nt_parse = parse, nt_show = show, nt_URLs = None,
     nt_ID = word_of_int (int k), nt_ClusterID = 0x1000\<rparr>, tr_DialTimeout = 0, tr_DialRetryFrequency = 0,
     tr_TLSInfo = \<lparr>CertFile = [], KeyFile = [], ServerName = [], LocalAddr = []\<rparr>,
     tr_streamRt = None, tr_pipelineRt = None, tr_remotes = None, tr_peers = None\<rparr>"
  define t where "t = fst (Transport_Start resolves t0)"
  have t: "tr_peers t = Some fmempty" "tr_net t = tr_net t0"
    using Transport_Start_plain [of t0 resolves] by (simp_all add: t_def t0_def TLSInfo_Empty_def)
  obtain ps where a: "add_peers (int k) 0 peers t = Inr (t\<lparr>tr_peers := Some ps\<rparr>)"
      "fset (fmdom ps) = {of_nat (0 + j + 1) | j. j < length peers \<and> int (0 + j) + 1 \<noteq> int k}"
    using add_peers_total [of t fmempty peers "int k" 0] assms(4) by (auto simp: t) (auto simp: t0_def)
  obtain rn where rn: "startRaft rnd resolves parse show (int k) peers False = Inr rn" "rs_node rn = n"
      "rs_transport rn = t\<lparr>tr_peers := Some ps\<rparr>"
    using n(1) a(1) by (simp add: startRaft_def Let_def t_def t0_def)
  have "{j. Transport_Get j (rs_transport rn) \<noteq> None} = fset (fmdom ps)"
    by (auto simp: rn(3) Transport_Get_def fmlookup_dom_iff)
  also have "\<dots> = {of_nat j | j. 0 < j \<and> j \<le> length peers \<and> j \<noteq> k}"
  proof (intro set_eqI iffI)
    fix x assume "x \<in> fset (fmdom ps)"
    then obtain j where "x = of_nat (j + 1)" "j < length peers" "int j + 1 \<noteq> int k" using a(2) by auto
    then show "x \<in> {of_nat j | j. 0 < j \<and> j \<le> length peers \<and> j \<noteq> k}" by (intro CollectI exI [of _ "j + 1"]) auto
  next
    fix x assume "x \<in> {of_nat j :: uint64 | j. 0 < j \<and> j \<le> length peers \<and> j \<noteq> k}"
    then obtain j where j: "x = of_nat j" "0 < j" "j \<le> length peers" "j \<noteq> k" by blast
    then show "x \<in> fset (fmdom ps)" unfolding a(2) by (intro CollectI exI [of _ "j - 1"]) auto
  qed
  finally have ids: "{j. Transport_Get j (rs_transport rn) \<noteq> None} = {of_nat j | j. 0 < j \<and> j \<le> length peers \<and> j \<noteq> k}" .
  have "map (\<lambda>k. of_nat (k + 1) :: uint64) [0..<length peers] = map of_nat [1..<length peers + 1]"
    by (simp add: map_Suc_upt [symmetric] comp_def del: upt_Suc)
  then have "start_voters peers = (Some (fset_of_list (map of_nat [1..<length peers + 1])), None)"
    by (simp only: start_voters_def start_peers_ids)
  then show ?thesis using n rn(1,2) ids by (auto simp: fresh_node_def Let_def)
qed

end
