(* ===== verification/Kv_Main.thy ===== *)
theory Kv_Main
  imports Cluster_Start Raft_Logger
begin

text \<open>
  The outer shell of the program: \<open>src/main.go\<close>, \<open>src/kv/listener.go\<close>, \<open>serveRaftHttp\<close> and \<open>NewRaftNode\<close> of
  \<open>src/kv/raftNode.go\<close>, \<open>serveHTTPKVAPI\<close> and the routes of \<open>src/httpapi.go\<close>, the constructor of
  \<open>src/raft/snap/snapshotter.go\<close>.  Parameters are the flags' values, whether an address can be listened on,
  what the system's \<open>accept\<close> gives, and the router (gorilla/mux), which is a function of the routes.
\<close>

section \<open>The listener\<close>

record tcp_conn =
  tcp_keepAlive :: bool
  tcp_period :: duration

record stoppableListener =
  sl_addr :: string

definition newStoppableListener :: "(string \<Rightarrow> 'x option) \<Rightarrow> string \<Rightarrow> 'x + stoppableListener" where
  "newStoppableListener listens addr = (case listens addr of Some err \<Rightarrow> Inl err | None \<Rightarrow> Inr \<lparr>sl_addr = addr\<rparr>)"

datatype 'x accept_err = ServerStopped | AcceptErr 'x

text \<open>One call of \<open>Accept\<close>: the buffers \<open>errc\<close> and \<open>connc\<close> that its goroutine fills, and the cases its
  \<open>select\<close> may take, given whether \<open>stopc\<close> is closed.  Nothing closes a connection that is left in \<open>connc\<close>.\<close>

record 'x accept_call =
  ac_errc :: "'x option"
  ac_connc :: "tcp_conn option"

definition accept_begin :: "'x accept_call" where
  "accept_begin = \<lparr>ac_errc = None, ac_connc = None\<rparr>"

definition accept_tcp :: "'x + tcp_conn \<Rightarrow> 'x accept_call \<Rightarrow> 'x accept_call" where
  "accept_tcp res a = (case res of Inl err \<Rightarrow> a\<lparr>ac_errc := Some err\<rparr> | Inr tc \<Rightarrow> a\<lparr>ac_connc := Some tc\<rparr>)"

definition Accept :: "bool \<Rightarrow> 'x accept_call \<Rightarrow> ('x accept_err + tcp_conn) list" where
  "Accept stopped a =
     (if stopped then [Inl ServerStopped] else []) @
     (case ac_errc a of None \<Rightarrow> [] | Some err \<Rightarrow> [Inl (AcceptErr err)]) @
     (case ac_connc a of None \<Rightarrow> [] | Some tc \<Rightarrow> [Inr (tc\<lparr>tcp_keepAlive := True, tcp_period := 180 * second\<rparr>)])"

section \<open>The HTTP server of the raft transport\<close>

text \<open>\<open>Serve\<close> accepts until an error that is not a temporary one of the network; then the goroutine looks
  whether the server was to stop.\<close>

datatype http_pc = HttpServing | ServeReturned | HttpDone

definition serveRaftHttp :: "(string \<Rightarrow> 'e + URL) \<Rightarrow> (string \<Rightarrow> 'x option) \<Rightarrow> 'e raftNode \<Rightarrow> (stoppableListener \<times> http_pc) go" where
  "serveRaftHttp parse listens rn =
     go_bind (serve_host parse rn) (\<lambda>host.
       case newStoppableListener listens host of
         Inl err \<Rightarrow> Inl (ExplicitPanic ''Failed to listen rafthttp'')
       | Inr ln \<Rightarrow> Inr (ln, HttpServing))"

inductive http_step :: "'e raftNode \<times> http_pc \<Rightarrow> ('e raftNode \<times> http_pc) go \<Rightarrow> bool" where
  connection: "Inr tc \<in> set (Accept (rs_httpstopc rn) (a :: unit accept_call)) \<Longrightarrow>
    http_step (rn, HttpServing) (Inr (rn, HttpServing))"
| temporary: "Inl (AcceptErr err) \<in> set (Accept (rs_httpstopc rn) (a :: unit accept_call)) \<Longrightarrow>
    http_step (rn, HttpServing) (Inr (rn, HttpServing))"
| serve_returns: "Inl err \<in> set (Accept (rs_httpstopc rn) (a :: unit accept_call)) \<Longrightarrow>
    http_step (rn, HttpServing) (Inr (rn, ServeReturned))"
| http_done: "rs_httpstopc rn \<Longrightarrow>
    http_step (rn, ServeReturned) (go_bind (close_chan (rs_httpdonec rn)) (\<lambda>b. Inr (rn\<lparr>rs_httpdonec := b\<rparr>, HttpDone)))"
| http_fatal: "\<not> rs_httpstopc rn \<Longrightarrow>
    http_step (rn, ServeReturned) (Inl (ExplicitPanic ''raftexample: Failed to serve rafthttp''))"

text \<open>The goroutines of one server together: the serving loop, the HTTP server, the proposing goroutine, which
  closes \<open>stopc\<close> when it ends, and the run loop serving other callers.  A step that panics, or that ends in
  \<open>log.Fatalf\<close>, ends the process.\<close>

type_synonym 'e goroutines = "'e raftNode \<times> serve_pc \<times> http_pc \<times> proposer"

definition end_proposing :: "'e raftNode \<Rightarrow> proposer \<Rightarrow> ('e raftNode \<times> proposer) go" where
  "end_proposing rn p =
     go_bind (close_chan (rs_stopc rn)) (\<lambda>b. Inr (rn\<lparr>rs_stopc := b\<rparr>, p\<lparr>pr_ended := True\<rparr>))"

inductive server_step :: "'e goroutines \<Rightarrow> 'e goroutines go \<Rightarrow> bool" where
  serving: "serve_step (rn, pc) lab res \<Longrightarrow>
    server_step (rn, pc, h, p) (go_bind res (\<lambda>(rn, pc). Inr (rn, pc, h, p)))"
| http: "http_step (rn, h) res \<Longrightarrow> server_step (rn, pc, h, p) (go_bind res (\<lambda>(rn, h). Inr (rn, pc, h, p)))"
| proposing: "propose_step (rs_node rn, p) (n, p') \<Longrightarrow>
    server_step (rn, pc, h, p) (Inr (rn\<lparr>rs_node := n\<rparr>, pc, h, p'))"
| conf_change: "\<lbrakk>pr_open p; pr_call p = None\<rbrakk> \<Longrightarrow>
    server_step (rn, pc, h, p) (go_bind (propose_conf cc p) (\<lambda>p. Inr (rn, pc, h, p)))"
| proposing_ends: "\<lbrakk>\<not> pr_open p; pr_call p = None; \<not> pr_ended p\<rbrakk> \<Longrightarrow>
    server_step (rn, pc, h, p) (go_bind (end_proposing rn p) (\<lambda>(rn, p). Inr (rn, pc, h, p)))"
| elsewhere: "\<lbrakk>loop_step (rs_node rn) ev out n; ev \<noteq> EvReady; ev \<noteq> EvAdvance; ev \<noteq> EvStop\<rbrakk> \<Longrightarrow>
    server_step (rn, pc, h, p) (Inr (rn\<lparr>rs_node := n\<rparr>, pc, h, p))"

abbreviation server_goes :: "'e goroutines \<Rightarrow> 'e goroutines \<Rightarrow> bool" where
  "server_goes s s' \<equiv> server_step s (Inr s')"

text \<open>How the process ends: \<open>serveHTTPKVAPI\<close> waits for \<open>errorC\<close>, exits with the error it receives and returns
  from \<open>main\<close> when the channel is closed without one.\<close>

datatype process_end = ExitFatal string | ExitNormal

definition serveHTTPKVAPI :: "'e raftNode \<Rightarrow> process_end option" where
  "serveHTTPKVAPI rn =
     (case rs_errorC rn of
        err # _ \<Rightarrow> Some (ExitFatal err)
      | [] \<Rightarrow> if rs_errclosed rn then Some ExitNormal else None)"

section \<open>The routes of the client interface\<close>

datatype kv_handler = DataRequest | TopologyChangeRequest

definition kv_routes :: "(string \<times> kv_handler \<times> string list) list" where
  "kv_routes =
     [(''/data/{key}'', DataRequest, [''PUT'', ''GET'', ''DELETE'']),
      (''/node/{id}'', TopologyChangeRequest, [''POST'', ''DELETE''])]"

text \<open>\<open>router\<close> gives the handler and the path variables, or its own answer.\<close>

definition httpKVAPI_ServeHTTP ::
  "((string \<times> kv_handler \<times> string list) list \<Rightarrow> string \<Rightarrow> string \<Rightarrow> HttpResponse + kv_handler \<times> (string \<Rightarrow> string)) \<Rightarrow>
   (kv \<Rightarrow> string option) \<Rightarrow> string \<Rightarrow> string \<Rightarrow> 'x + byte list \<Rightarrow> Kvstore \<Rightarrow> (HttpResponse \<times> string list) go" where
  "httpKVAPI_ServeHTTP router enc meth path body s =
     (case router kv_routes meth path of
        Inl answer \<Rightarrow> Inr (answer, [])
      | Inr (DataRequest, vars) \<Rightarrow> handleDataRequest enc meth (vars ''key'') body s
      | Inr (TopologyChangeRequest, vars) \<Rightarrow> Inr (handleTopologyChangeRequest (vars ''id''), []))"

section \<open>The start of the program\<close>

record 'l Snapshotter =
  sn_lg :: 'l
  sn_dir :: string

definition snap_New :: "'l \<Rightarrow> 'l option \<Rightarrow> string \<Rightarrow> 'l Snapshotter" where
  "snap_New nop lg dir = \<lparr>sn_lg = (case lg of None \<Rightarrow> nop | Some l \<Rightarrow> l), sn_dir = dir\<rparr>"

text \<open>A node that has been made and not yet been started: its fields that are set, and the channel by which it
  hands out its snapshotter, which holds one.\<close>

record 'l new_node =
  nn_id :: int
  nn_peers :: "string list"
  nn_join :: bool
  nn_snapdir :: string
  nn_logger :: "'l zap_logger"

definition NewRaftNode :: "'l \<Rightarrow> int \<Rightarrow> string list \<Rightarrow> bool \<Rightarrow> 'l new_node" where
  "NewRaftNode globalLogLevel i peers join =
     \<lparr>nn_id = i, nn_peers = peers, nn_join = join, nn_snapdir = [], nn_logger = CreateZapLogger globalLogLevel\<rparr>"

record flags =
  fl_cluster :: string
  fl_id :: int
  fl_port :: int
  fl_join :: bool
  fl_loggingLevel :: string

definition default_flags :: flags where
  "default_flags = \<lparr>fl_cluster = ''http://127.0.0.1:9000'', fl_id = 1, fl_port = 9121, fl_join = False,
     fl_loggingLevel = ''info''\<rparr>"

text \<open>\<open>strconv.Itoa\<close>.\<close>

definition Itoa :: "int \<Rightarrow> string" where
  "Itoa i = (if i < 0 then CHR ''-'' # decimal (nat (- i)) else decimal (nat i))"

record ('e, 'l) program =
  pg_node :: "'l new_node"
  pg_server :: "'e raftNode"
  pg_listener :: stoppableListener
  pg_http :: http_pc
  pg_kvs :: Kvstore
  pg_proposer :: proposer
  pg_addr :: string

text \<open>\<open>main\<close> up to the wait in \<open>serveHTTPKVAPI\<close>, together with the goroutines it starts.\<close>

definition main_start ::
  "'l \<Rightarrow> (Level \<Rightarrow> 'l \<Rightarrow> 'l) \<Rightarrow> (nat \<Rightarrow> nat) \<Rightarrow> bool \<Rightarrow> (string \<Rightarrow> 'e + URL) \<Rightarrow> (URL \<Rightarrow> string) \<Rightarrow>
   (string \<Rightarrow> 'x option) \<Rightarrow> flags \<Rightarrow> ('e, 'l) program go" where
  "main_start new_level set_level rnd resolves parse show listens fl =
     (let level = InitLoggerLevel new_level set_level (fl_loggingLevel fl);
          nn = NewRaftNode level (fl_id fl) (Split (CHR '','') (fl_cluster fl)) (fl_join fl) in
      go_bind (startRaft rnd resolves parse show (nn_id nn) (nn_peers nn) (nn_join nn)) (\<lambda>rn.
      go_bind (serveRaftHttp parse listens rn) (\<lambda>(ln, h).
        Inr \<lparr>pg_node = nn, pg_server = rn, pg_listener = ln, pg_http = h, pg_kvs = NewKVStore,
          pg_proposer = new_proposer, pg_addr = CHR '':'' # Itoa (fl_port fl)\<rparr>)))"

section \<open>Facts on the channels of a server\<close>

definition chans :: "'e raftNode \<Rightarrow> (bool \<times> bool \<times> bool) \<times> bool \<times> bool \<times> string list" where
  "chans rn = ((rs_stopc rn, rs_httpstopc rn, rs_httpdonec rn), rs_closed rn, rs_errclosed rn, rs_errorC rn)"

lemma chans_fields [simp]:
  "chans (rn\<lparr>rs_node := n\<rparr>) = chans rn" "chans (rn\<lparr>rs_transport := t\<rparr>) = chans rn"
  "chans (rn\<lparr>rs_confState := cs\<rparr>) = chans rn" "chans (rn\<lparr>rs_chans := k\<rparr>) = chans rn"
  "chans (rn\<lparr>rs_commitC := c\<rparr>) = chans rn" "chans (rn\<lparr>rs_appliedIndex := a\<rparr>) = chans rn"
  by (simp_all add: chans_def)

text \<open>Whether the serving loop has not yet begun to stop.\<close>

fun serving_pc :: "serve_pc \<Rightarrow> bool" where
  "serving_pc (Stopping err) \<longleftrightarrow> False"
| "serving_pc ClosingErrors \<longleftrightarrow> False"
| "serving_pc StoppingNode \<longleftrightarrow> False"
| "serving_pc Ended \<longleftrightarrow> False"
| "serving_pc _ \<longleftrightarrow> True"

text \<open>How far the shutdown is, for the goroutines.\<close>

fun shutdown_ok :: "'e goroutines \<Rightarrow> bool" where
  "shutdown_ok (rn, pc, h, p) \<longleftrightarrow>
     rs_stopc rn = pr_ended p \<and> rs_httpdonec rn = (h = HttpDone) \<and> (rs_httpdonec rn \<longrightarrow> rs_httpstopc rn) \<and>
     (if serving_pc pc then \<not> rs_httpstopc rn else rs_httpstopc rn) \<and>
     (case pc of
        ClosingErrors \<Rightarrow> rs_httpdonec rn \<and> \<not> rs_closed rn \<and> \<not> rs_errclosed rn \<and> length (rs_errorC rn) = 1
      | StoppingNode \<Rightarrow> rs_httpdonec rn \<and> rs_errclosed rn \<and> (if rs_closed rn then rs_errorC rn = [] else length (rs_errorC rn) = 1)
      | Ended \<Rightarrow> rs_httpdonec rn \<and> rs_errclosed rn \<and> (if rs_closed rn then rs_errorC rn = [] else length (rs_errorC rn) = 1)
      | _ \<Rightarrow> \<not> rs_closed rn \<and> \<not> rs_errclosed rn \<and> rs_errorC rn = [])"

lemma serve_local_chans:
  "serve_local rn pc = Some (Inr (rn', pc')) \<Longrightarrow> chans rn' = chans rn \<and> serving_pc pc \<and> serving_pc pc'"
  by (cases "(rn, pc)" rule: serve_local.cases)
    (auto simp: store_ready_def begin_publish_def end_publish_def split: if_splits)

lemma configured_chans:
  "configured cc cs es data li rn = Inr (rn', pc') \<Longrightarrow>
     chans rn' = chans rn \<and> serving_pc pc' \<or>
     \<not> rs_httpstopc rn \<and> chans rn' = chans (rn\<lparr>rs_httpstopc := True\<rparr>) \<and> pc' = Stopping None"
  by (auto simp: configured_def Let_def chans_def simp del: ConfChangeAddNode_def ConfChangeRemoveNode_def split: if_splits)

lemma shutdown_ok_chans:
  "\<lbrakk>shutdown_ok (rn, pc, h, p); chans rn' = chans rn; serving_pc pc; serving_pc pc'\<rbrakk> \<Longrightarrow> shutdown_ok (rn', pc', h, p)"
  by (cases pc; cases pc') (auto simp: chans_def)

lemma shutdown_ok_node:
  "pr_ended p' = pr_ended p \<Longrightarrow> shutdown_ok (rn\<lparr>rs_node := n\<rparr>, pc, h, p') = shutdown_ok (rn, pc, h, p)"
  by (cases pc) simp_all

lemma shutdown_ok_configured:
  assumes "configured cc cs es data li rn = Inr (rn', pc')" and "shutdown_ok (rn, pc, h, p)" and "serving_pc pc"
  shows "shutdown_ok (rn', pc', h, p)"
  using configured_chans [OF assms(1)] assms(2,3)
proof (elim disjE)
  assume "\<not> rs_httpstopc rn \<and> chans rn' = chans (rn\<lparr>rs_httpstopc := True\<rparr>) \<and> pc' = Stopping None"
  then show ?thesis using assms(2,3) by (cases pc) (auto simp: chans_def)
qed (use shutdown_ok_chans assms(2,3) in blast)

lemma shutdown_ok_serving:
  assumes "serve_step (rn, pc) lab (Inr (rn', pc'))" and "shutdown_ok (rn, pc, h, p)"
  shows "shutdown_ok (rn', pc', h, p)"
  using assms(1)
proof (cases rule: serve_step.cases)
  case alone
  then show ?thesis using serve_local_chans [of rn pc rn' pc'] shutdown_ok_chans assms(2) by metis
next
  case (applies e cc cs n es data li)
  show ?thesis
    by (rule shutdown_ok_configured [OF applies(3) [symmetric], where pc = pc])
      (use applies assms(2) in \<open>auto simp: shutdown_ok_node\<close>)
next
  case (apply_stopped e es data li)
  show ?thesis
    by (rule shutdown_ok_configured [OF apply_stopped(3) [symmetric], where pc = pc]) (use apply_stopped assms(2) in auto)
qed (use assms(2) in \<open>auto simp: serve_results send_next_def commit_taken_def split: prod.splits if_splits\<close>)

lemma propose_ended: "propose_step (n, p) (n', p') \<Longrightarrow> pr_ended p' = pr_ended p"
  by (cases rule: propose_step.cases) auto

lemma shutdown_ok_step: "\<lbrakk>server_goes x (y :: 'e goroutines); shutdown_ok x\<rbrakk> \<Longrightarrow> shutdown_ok y"
proof (induction x "Inr y :: 'e goroutines go" rule: server_step.induct)
  case (serving rn pc lab res h p)
  then show ?case using shutdown_ok_serving by (auto simp: Inr_go_bind simp del: shutdown_ok.simps)
next
  case (http rn h res pc p)
  then show ?case by (cases pc) (auto elim!: http_step.cases simp: Inr_go_bind)
next
  case (proposing rn p n p' pc h)
  then show ?case using propose_ended [OF proposing.hyps(1)] shutdown_ok_node by metis
next
  case (conf_change p cc rn pc h)
  then show ?case by (simp add: propose_conf_def ProposeConfChange_def Let_def Inr_go_bind)
next
  case (proposing_ends p rn pc h)
  then show ?case by (cases pc) (auto simp: end_proposing_def Inr_go_bind)
next
  case (elsewhere rn ev out n pc h p)
  then show ?case using shutdown_ok_node by metis
qed

lemma shutdown_ok_run: "\<lbrakk>server_goes\<^sup>*\<^sup>* x y; shutdown_ok x\<rbrakk> \<Longrightarrow> shutdown_ok y"
  by (induction rule: rtranclp_induct) (auto intro: shutdown_ok_step)

lemma startRaft_chans:
  "startRaft rnd resolves parse show i peers join = Inr rn \<Longrightarrow> shutdown_ok (rn, Selecting, HttpServing, new_proposer)"
  by (auto simp: startRaft_def Let_def new_proposer_def)

text \<open>Closing a channel that is closed.\<close>

abbreviation closed_twice :: go_panic where
  "closed_twice \<equiv> ExplicitPanic ''close of closed channel''"

lemma close_chan_twice: "close_chan b = Inl e \<longleftrightarrow> b \<and> e = closed_twice"
  by (auto simp: close_chan_def)

lemma processMessages_panic: "processMessages cs ms = Inl e \<Longrightarrow> e = NilDereference"
  by (induction ms) (auto simp: go_bind_eq_Inl set_ConfState_def split: if_splits option.splits)

lemma store_ready_panic: "store_ready rd rn \<noteq> Inl closed_twice"
  by (auto simp: store_ready_def on_raft_def Storage_Append_def Storage_firstIndex_def go_bind_eq_Inl go_slice_def
      go_index_def Let_def dest: processMessages_panic split: if_splits)

lemma begin_publish_panic: "begin_publish ces rn \<noteq> Inl closed_twice"
  by (auto simp: begin_publish_def entriesToApply_def go_bind_eq_Inl go_slice_def Let_def split: if_splits)

lemma serve_local_panic: "serve_local rn pc \<noteq> Some (Inl closed_twice)"
  by (cases "(rn, pc)" rule: serve_local.cases) (auto simp: store_ready_panic begin_publish_panic)

lemma configured_panic:
  "\<not> rs_httpstopc rn \<Longrightarrow> configured cc cs es data li rn \<noteq> Inl closed_twice"
  by (auto simp: configured_def stop_with_def stopHTTP_def AddPeer_def go_bind_eq_Inl close_chan_twice Let_def
      simp del: ConfChangeAddNode_def ConfChangeRemoveNode_def split: if_splits option.splits sum.splits)

lemma serving_panic:
  assumes "serve_step (rn, pc) lab res" and "shutdown_ok (rn, pc, h, p)"
  shows "res \<noteq> Inl closed_twice"
  using assms(1)
proof (cases rule: serve_step.cases)
  case alone
  then show ?thesis using serve_local_panic [of rn pc] by auto
next
  case (applies e cc cs n es data li)
  then show ?thesis using assms(2) configured_panic [of "rn\<lparr>rs_node := n\<rparr>"] by simp
next
  case (apply_stopped e es data li)
  then show ?thesis using assms(2) configured_panic [of rn] by simp
qed (use assms(2) in \<open>auto simp: stop_with_def stopHTTP_def close_commits_def close_errors_def go_bind_eq_Inl close_chan_twice\<close>)

lemma nothing_closed_twice:
  assumes "server_step s res" and "shutdown_ok s"
  shows "res \<noteq> Inl closed_twice"
  using assms
proof (induction rule: server_step.induct)
  case (serving rn pc lab res h p)
  show ?case using serving_panic [OF serving] by (auto simp: go_bind_eq_Inl)
next
  case (http rn h res pc p)
  then show ?case by (cases pc) (auto elim!: http_step.cases simp: go_bind_eq_Inl close_chan_def)
next
  case (conf_change p cc rn pc h)
  then show ?case by (simp add: propose_conf_def ProposeConfChange_def Let_def)
next
  case (proposing_ends p rn pc h)
  then show ?case by (cases pc) (auto simp: end_proposing_def go_bind_eq_Inl close_chan_twice)
qed simp_all

text \<open>The HTTP goroutine ends once it is told to.\<close>

lemma http_ends:
  assumes "shutdown_ok (rn, Stopping err, h, p)"
  shows "server_goes\<^sup>*\<^sup>* (rn, Stopping err, h, p) (rn\<lparr>rs_httpdonec := True\<rparr>, Stopping err, HttpDone, p)"
proof -
  have s: "rs_httpstopc rn" "rs_httpdonec rn = (h = HttpDone)" using assms by auto
  have "Inl ServerStopped \<in> set (Accept (rs_httpstopc rn) (accept_begin :: unit accept_call))"
    using s(1) by (simp add: Accept_def)
  from server_step.http [OF http_step.serve_returns [OF this]]
  have a: "server_goes (rn, Stopping err, HttpServing, p) (rn, Stopping err, ServeReturned, p)" by simp
  have b: "server_goes (rn, Stopping err, ServeReturned, p) (rn\<lparr>rs_httpdonec := True\<rparr>, Stopping err, HttpDone, p)"
    if "\<not> rs_httpdonec rn"
    using server_step.http [OF http_step.http_done [OF s(1)], of "Stopping err" p] that by (simp add: close_chan_def)
  show ?thesis
  proof (cases h)
    case HttpDone
    then have "rn\<lparr>rs_httpdonec := True\<rparr> = rn" using s(2) by simp
    then show ?thesis using HttpDone by simp
  qed (use a b s in \<open>auto intro: converse_rtranclp_into_rtranclp\<close>)
qed

lemma shutdown_proceeds:
  assumes "shutdown_ok (rn, Stopping err, h, p)"
  shows "\<exists>rn'. server_goes\<^sup>*\<^sup>* (rn, Stopping err, h, p) (rn', StoppingNode, HttpDone, p) \<and>
    serveHTTPKVAPI rn' = Some (case err of None \<Rightarrow> ExitNormal | Some e \<Rightarrow> ExitFatal e)"
proof -
  let ?rn = "rn\<lparr>rs_httpdonec := True\<rparr>"
  have s: "\<not> rs_closed rn" "\<not> rs_errclosed rn" "rs_errorC rn = []" using assms by auto
  have "\<exists>rn'. server_goes\<^sup>*\<^sup>* (?rn, Stopping err, HttpDone, p) (rn', StoppingNode, HttpDone, p) \<and>
    serveHTTPKVAPI rn' = Some (case err of None \<Rightarrow> ExitNormal | Some e \<Rightarrow> ExitFatal e)"
  proof (cases err)
    case None
    have "server_goes (?rn, Stopping None, HttpDone, p) (?rn\<lparr>rs_closed := True, rs_errclosed := True\<rparr>, StoppingNode, HttpDone, p)"
      using server_step.serving [OF serve_step.channels_closed [of ?rn], of HttpDone p] s
      by (simp add: close_commits_def close_errors_def close_chan_def)
    then show ?thesis using s None
      by (intro exI [of _ "?rn\<lparr>rs_closed := True, rs_errclosed := True\<rparr>"]) (auto simp: serveHTTPKVAPI_def)
  next
    case (Some e)
    have "server_goes (?rn, Stopping (Some e), HttpDone, p) (send_error e ?rn, ClosingErrors, HttpDone, p)"
      using server_step.serving [OF serve_step.error_sent [of ?rn e], of HttpDone p] by simp
    moreover have "server_goes (send_error e ?rn, ClosingErrors, HttpDone, p)
        ((send_error e ?rn)\<lparr>rs_errclosed := True\<rparr>, StoppingNode, HttpDone, p)"
      using server_step.serving [OF serve_step.error_closed [of "send_error e ?rn"], of HttpDone p] s
      by (simp add: close_errors_def close_chan_def send_error_def)
    ultimately show ?thesis using s Some
      by (intro exI [of _ "(send_error e ?rn)\<lparr>rs_errclosed := True\<rparr>"])
        (auto simp: serveHTTPKVAPI_def send_error_def intro: converse_rtranclp_into_rtranclp)
  qed
  then show ?thesis using http_ends [OF assms] by (meson rtranclp_trans)
qed

section \<open>Facts on the start\<close>

lemma startRaft_sel: "startRaft rnd resolves parse show i peers join = Inr rn \<Longrightarrow> rs_id rn = i \<and> rs_peers rn = peers"
  by (auto simp: startRaft_def Let_def)

lemma serve_host_ok:
  assumes "rs_id rn = int k" and "0 < k" and "k \<le> length (rs_peers rn)" and "parse (rs_peers rn ! (k - 1)) = Inr u"
  shows "serve_host parse rn = Inr (Host u)"
proof -
  have "nat (int k - 1) = k - 1" by simp
  then show ?thesis using assms by (simp add: serve_host_def)
qed

section \<open>Properties\<close>

text \<open>C23: the program starts: with a list of valid addresses, a number that is one of theirs and a free
  address, \<open>main\<close> comes to serve its clients with an empty store.  Its raft node is a follower at term 1
  whose voters are all the servers, its transport has a peer for every other server and none for itself,
  and it listens for them at its own address.\<close>

theorem program_starts:
  assumes "Split (CHR '','') (fl_cluster fl) = peers" and "fl_id fl = int k" and "\<not> fl_join fl"
    and "0 < k" and "k \<le> length peers" and "length peers < 2 ^ 62"
    and "\<forall>u \<in> set peers. \<exists>urls. NewURLs parse show [u] = Inr urls"
    and "parse (peers ! (k - 1)) = Inr u" and "listens (Host u) = None"
  shows "\<exists>p. main_start new_level set_level rnd resolves parse show listens fl = Inr p \<and>
    r_state (rn_raft (n_rn (rs_node (pg_server p)))) = StateFollower \<and>
    r_Term (rn_raft (n_rn (rs_node (pg_server p)))) = 1 \<and>
    cfgVoters (trkConfig (r_trk (rn_raft (n_rn (rs_node (pg_server p)))))) =
      (Some (fset_of_list (map of_nat [1..<length peers + 1])), None) \<and>
    {j. Transport_Get j (rs_transport (pg_server p)) \<noteq> None} = {of_nat j | j. 0 < j \<and> j \<le> length peers \<and> j \<noteq> k} \<and>
    sl_addr (pg_listener p) = Host u \<and> pg_http p = HttpServing \<and>
    kv_data (pg_kvs p) = fmempty \<and> serveHTTPKVAPI (pg_server p) = None"
proof -
  obtain rn where rn: "startRaft rnd resolves parse show (int k) peers False = Inr rn"
      "r_state (rn_raft (n_rn (rs_node rn))) = StateFollower" "r_Term (rn_raft (n_rn (rs_node rn))) = 1"
      "cfgVoters (trkConfig (r_trk (rn_raft (n_rn (rs_node rn))))) =
         (Some (fset_of_list (map of_nat [1..<length peers + 1])), None)"
      "{j. Transport_Get j (rs_transport rn) \<noteq> None} = {of_nat j | j. 0 < j \<and> j \<le> length peers \<and> j \<noteq> k}"
    using server_starts [OF assms(4-7), of rnd resolves] by blast
  have "serve_host parse rn = Inr (Host u)"
    using startRaft_sel [OF rn(1)] assms(4,5,8) by (intro serve_host_ok) simp_all
  moreover have "serveHTTPKVAPI rn = None" using startRaft_chans [OF rn(1)] by (simp add: serveHTTPKVAPI_def)
  ultimately show ?thesis
    using rn assms(1-3,9)
    by (simp add: main_start_def NewRaftNode_def serveRaftHttp_def newStoppableListener_def NewKVStore_def Let_def)
qed

lemma default_urls: "\<forall>u \<in> set [''http://127.0.0.1:9000'']. \<exists>urls. NewURLs plain_parse plain_show [u] = Inr urls"
proof -
  have "TrimSpace ''http://127.0.0.1:9000'' = ''http://127.0.0.1:9000''" by code_simp
  then show ?thesis
    by (simp add: NewURLs_def check_url_def plain_parse_def plain_url_def plain_show_def SplitHostPort_def
        last_index_byte_def Let_def)
qed

lemma default_cluster: "Split (CHR '','') (fl_cluster default_flags) = [''http://127.0.0.1:9000'']"
  by code_simp

theorem program_starts_witness:
  "\<exists>p. main_start () (\<lambda>_ _. ()) (\<lambda>_. 0) True plain_parse plain_show (\<lambda>_. None :: unit option) default_flags = Inr p \<and>
     cfgVoters (trkConfig (r_trk (rn_raft (n_rn (rs_node (pg_server p)))))) = (Some {|1|}, None) \<and>
     sl_addr (pg_listener p) = ''127.0.0.1:9000''"
proof -
  let ?peers = "[''http://127.0.0.1:9000'']" and ?listens = "\<lambda>_ :: string. None :: unit option"
  have u: "plain_parse (?peers ! (1 - 1)) = Inr (plain_url ''127.0.0.1:9000'')" by (simp add: plain_parse_def)
  have f: "fl_id default_flags = int 1" "\<not> fl_join default_flags" by (simp_all add: default_flags_def)
  have n: "(0 :: nat) < 1" "1 \<le> length ?peers" "length ?peers < 2 ^ 62" by simp_all
  obtain p where p: "main_start () (\<lambda>_ _. ()) (\<lambda>_. 0) True plain_parse plain_show ?listens default_flags = Inr p"
      "cfgVoters (trkConfig (r_trk (rn_raft (n_rn (rs_node (pg_server p)))))) =
        (Some (fset_of_list (map of_nat [1..<length ?peers + 1])), None)"
      "sl_addr (pg_listener p) = Host (plain_url ''127.0.0.1:9000'')"
    using program_starts [where listens = ?listens, OF default_cluster f n default_urls u refl,
      where new_level = "()" and set_level = "\<lambda>_ _. ()" and rnd = "\<lambda>_. 0" and resolves = True] by blast
  have "fset_of_list (map of_nat [1..<length [''http://127.0.0.1:9000''] + 1]) = {|1 :: uint64|}" by (simp add: upt_rec)
  with p show ?thesis by (simp add: plain_url_def)
qed



end
