(* ===== verification/Raft_Replicate.thy ===== *)
theory Raft_Replicate
  imports Raft_Commit
begin

text \<open>
  How the log of a node that was set up changes, and what its append messages say about it: a leader only
  adds entries of its own term at the end, a follower either keeps its log or takes over that of the sender
  up to the entries of the message, and every append message carries a part of its sender's log.
\<close>

section \<open>Logs that agree\<close>

text \<open>Entries of the same term at the same place have the same past.\<close>

definition agree :: "Entry list \<Rightarrow> Entry list \<Rightarrow> bool" where
  "agree U V \<longleftrightarrow> (\<forall>k. k < length U \<and> k < length V \<and> eTerm (U ! k) = eTerm (V ! k) \<longrightarrow> take (Suc k) U = take (Suc k) V)"

text \<open>The entries of a message are a part of the log \<open>V\<close> that begins after its index.\<close>

definition part_of :: "Entry list \<Rightarrow> Message \<Rightarrow> bool" where
  "part_of V m \<longleftrightarrow> mEntries m = [] \<or>
     unat (mIndex m) + length (mEntries m) \<le> length V \<and> unat (mIndex m) + length (mEntries m) < 2 ^ 64 \<and>
     mEntries m = take (length (mEntries m)) (drop (unat (mIndex m)) V) \<and>
     (mIndex m = 0 \<or> mLogTerm m = eTerm (V ! (unat (mIndex m) - 1)))"

lemma agree_refl [simp]: "agree U U"
  by (simp add: agree_def)

lemma agree_sym: "agree U V \<Longrightarrow> agree V U"
  by (auto simp: agree_def)

lemma agree_take: "agree U V \<Longrightarrow> agree (take n U) V"
  unfolding agree_def by (auto simp: min_def)

lemma part_of_sent [simp]: "part_of V (sent m r) = part_of V m"
  by (simp add: part_of_def)

lemma part_of_longer:
  assumes "part_of U m" and "take (length U) V = U" and "length U \<le> length V"
  shows "part_of V m"
proof (cases "mEntries m = []")
  case False
  define p n where "p = unat (mIndex m)" and "n = length (mEntries m)"
  have n: "0 < n" using False by (simp add: n_def)
  have p: "p + n \<le> length U" "p + n < 2 ^ 64" "mEntries m = take n (drop p U)"
    "mIndex m = 0 \<or> mLogTerm m = eTerm (U ! (p - 1))"
    using assms(1) False by (simp_all add: part_of_def p_def n_def)
  have U: "U ! k = V ! k" if "k < length U" for k using that assms(2) by (metis nth_take)
  have "take n (drop p U) = take n (drop p V)"
    using p(1) assms(3) by (intro nth_equalityI) (simp_all add: U)
  moreover have "p - 1 < length U" using p(1) n by simp
  ultimately show ?thesis
    using p assms(3) by (simp add: part_of_def p_def [symmetric] n_def [symmetric] U)
qed (simp add: part_of_def)

lemma part_of_append: "part_of U m \<Longrightarrow> part_of (U @ es) m"
  by (erule part_of_longer) simp_all

lemma part_of_take: "part_of (take n V) m \<Longrightarrow> part_of V m"
  by (erule part_of_longer) (simp_all add: min_def)

section \<open>Reading and writing the log of a node that was set up\<close>

lemma boot_term:
  assumes b: "boot_log B l" and t: "log_term i l = Inr (Inr t)" and i: "i \<noteq> 0"
  shows "unat i \<le> length (entries_of l) \<and> t = eTerm (entries_of l ! (unat i - 1))"
proof -
  let ?U = "entries_of l"
  have off: "u_offset (l_unstable l) = 1" using b by (simp add: boot_log_def)
  have ne: "?U \<noteq> []" using b boot_length [OF b] by (auto simp: boot_log_def)
  have i1: "\<not> i < 1" using i by (simp add: word_less_nat_alt unat_gt_0)
  have m: "maybeTerm i (l_unstable l) =
      (if i > of_nat (length ?U) then Inr None else go_bind (go_index ?U (unat (i - 1))) (\<lambda>e. Inr (Some (eTerm e))))"
    using i1 ne by (simp add: maybeTerm_def maybeLastIndex_def off)
  have "\<not> i > of_nat (length ?U)"
    using t m boot_last [OF b] by (auto simp: log_term_def split: if_splits)
  then have x: "unat (i - 1) < length ?U" "t = eTerm (?U ! unat (i - 1))"
    using t m by (auto simp: log_term_def go_index_def split: if_splits)
  moreover have "unat (i - 1) = unat i - 1" using i by (simp add: unat_minus_one)
  moreover have "0 < unat i" using i by (simp add: unat_gt_0)
  ultimately show ?thesis by simp
qed

lemma boot_match:
  assumes "boot_log B l" and "matchTerm i t l = Inr True" and "i \<noteq> 0"
  shows "unat i \<le> length (entries_of l) \<and> t = eTerm (entries_of l ! (unat i - 1))"
proof -
  obtain r where "log_term i l = Inr r" "(case r of Inl _ \<Rightarrow> False | Inr t' \<Rightarrow> t' = t)"
    using assms(2) by (auto simp: matchTerm_def)
  then have "log_term i l = Inr (Inr t)" by (cases r) simp_all
  then show ?thesis using boot_term assms(1,3) by blast
qed

lemma findConflict_before:
  "findConflict es l = Inr ci \<Longrightarrow> ci = 0 \<or>
     (\<exists>k < length es. ci = eIndex (es ! k) \<and> (\<forall>j < k. matchTerm (eIndex (es ! j)) (eTerm (es ! j)) l = Inr True))"
proof (induction es l rule: findConflict.induct)
  case (2 ne es l)
  then obtain m where m: "matchTerm (eIndex ne) (eTerm ne) l = Inr m" by auto
  show ?case
  proof (cases m)
    case True
    then have "findConflict es l = Inr ci" using "2.prems" m by simp
    from "2.IH" [OF m True this] show ?thesis
    proof (elim disjE exE conjE)
      fix k assume k: "k < length es" "ci = eIndex (es ! k)"
        "\<forall>j < k. matchTerm (eIndex (es ! j)) (eTerm (es ! j)) l = Inr True"
      have "\<forall>j < Suc k. matchTerm (eIndex ((ne # es) ! j)) (eTerm ((ne # es) ! j)) l = Inr True"
        using k(3) m True by (auto simp: less_Suc_eq_0_disj)
      then show ?thesis using k(1,2) by (intro disjI2 exI [of _ "Suc k"]) simp
    qed simp
  next
    case False
    then have "ci = eIndex ne" using "2.prems" m by (auto split: if_splits)
    then show ?thesis by (intro disjI2 exI [of _ 0]) simp
  qed
qed simp

lemma truncate_entries:
  assumes "truncateAndAppend es u = Inr u'" and "u_offset u = 1" and "es \<noteq> []"
  shows "eIndex (es ! 0) = 1 + of_nat (length (u_entries u)) \<and> u_entries u' = u_entries u @ es \<or> eIndex (es ! 0) \<le> 1 \<or>
    unat (eIndex (es ! 0) - 1) \<le> length (u_entries u) \<and> u_entries u' = take (unat (eIndex (es ! 0) - 1)) (u_entries u) @ es"
  using assms
  by (auto simp: truncateAndAppend_def Let_def unstable_slice_def go_slice_def split: if_splits)

lemma appended_truncates:
  assumes "log_append es l = Inr (l', li)" and "es \<noteq> []"
  obtains u where "truncateAndAppend es (l_unstable l) = Inr u" "l' = l\<lparr>l_unstable := u\<rparr>"
  using assms by (auto simp: log_append_def Let_def split: if_splits)

lemma boot_splice:
  assumes b: "boot_log B l" and room: "length (entries_of l) < 2 ^ 64" and ap: "log_append es l = Inr (l', li)" and es: "es \<noteq> []"
    and q: "l_committed l < eIndex (es ! 0)" "q = unat (eIndex (es ! 0) - 1)"
  shows "q \<le> length (entries_of l) \<and> entries_of l' = take q (entries_of l) @ es"
proof -
  from appended_truncates [OF ap es] obtain u where
    u: "truncateAndAppend es (l_unstable l) = Inr u" "l' = l\<lparr>l_unstable := u\<rparr>" .
  have "\<not> eIndex (es ! 0) \<le> 1"
  proof
    assume "eIndex (es ! 0) \<le> 1"
    moreover have "0 < l_committed l" using b boot_mark(2) [OF b] by (simp add: boot_log_def)
    ultimately show False using q(1) by (simp add: word_le_nat_alt word_less_nat_alt)
  qed
  moreover have "q = length (entries_of l)" if "eIndex (es ! 0) = 1 + of_nat (length (entries_of l))"
    using room unfolding q(2) that by (simp add: unat_of_nat_small)
  ultimately show ?thesis using truncate_entries [OF u(1)] b es q(2) by (auto simp: boot_log_def u(2))
qed

text \<open>Where the entries of a part stand.\<close>

lemma part_position:
  assumes "part_of V m" and "j < length (mEntries m)"
  shows "unat (mIndex m + of_nat j) = unat (mIndex m) + j" "unat (mIndex m + 1 + of_nat j) = unat (mIndex m) + j + 1"
    "mEntries m ! j = V ! (unat (mIndex m) + j)"
proof -
  have n: "unat (mIndex m) + length (mEntries m) < 2 ^ 64" "unat (mIndex m) + length (mEntries m) \<le> length V"
    "mEntries m = take (length (mEntries m)) (drop (unat (mIndex m)) V)"
    using assms by (auto simp: part_of_def)
  have pos: "unat (mIndex m + of_nat i) = unat (mIndex m) + i" if "i \<le> length (mEntries m)" for i
  proof -
    have "unat (of_nat i :: uint64) = i" using that n(1) by (intro unat_of_nat_small) simp
    then show ?thesis using that n(1) by (simp add: unat_word_ariths)
  qed
  show "unat (mIndex m + of_nat j) = unat (mIndex m) + j" using pos assms(2) by simp
  show "unat (mIndex m + 1 + of_nat j) = unat (mIndex m) + j + 1" using pos [of "Suc j"] assms(2) by (simp add: ac_simps)
  show "mEntries m ! j = V ! (unat (mIndex m) + j)" using n(2) assms(2) by (subst n(3)) simp
qed

text \<open>Up to the first conflict the receiver has what the sender has.\<close>

lemma matched_prefix:
  assumes b: "boot_log B l" and same: "agree (entries_of l) V" and part: "part_of V m"
    and es: "indexed (mIndex m + 1) (mEntries m)" and k: "k < length (mEntries m)"
    and prev: "matchTerm (mIndex m) (mLogTerm m) l = Inr True"
    and before: "\<forall>j < k. matchTerm (eIndex (mEntries m ! j)) (eTerm (mEntries m ! j)) l = Inr True"
    and le: "unat (mIndex m) + k \<le> length (entries_of l)"
  shows "take (unat (mIndex m) + k) (entries_of l) = take (unat (mIndex m) + k) V"
proof (cases "unat (mIndex m) + k")
  case (Suc q)
  have V: "unat (mIndex m) + length (mEntries m) \<le> length V" "mIndex m = 0 \<or> mLogTerm m = eTerm (V ! (unat (mIndex m) - 1))"
    using part k by (auto simp: part_of_def)
  have "eTerm (entries_of l ! q) = eTerm (V ! q)"
  proof (cases k)
    case 0
    then have "mIndex m \<noteq> 0" "unat (mIndex m) - 1 = q" using Suc by auto
    then show ?thesis using boot_match [OF b prev] V(2) by simp
  next
    case (Suc j)
    have q: "q = unat (mIndex m) + j" using Suc \<open>unat (mIndex m) + k = Suc q\<close> by simp
    have "unat (eIndex (mEntries m ! j)) = Suc q" using es Suc k part_position(2) [OF part, of j] q by (simp add: indexed_def)
    moreover from this have "eIndex (mEntries m ! j) \<noteq> 0" by auto
    moreover have "matchTerm (eIndex (mEntries m ! j)) (eTerm (mEntries m ! j)) l = Inr True" using before Suc by simp
    ultimately have "eTerm (mEntries m ! j) = eTerm (entries_of l ! q)"
      using boot_match [OF b, of "eIndex (mEntries m ! j)" "eTerm (mEntries m ! j)"] by simp
    then show ?thesis using part_position(3) [OF part, of j] Suc k q by simp
  qed
  moreover have "q < length (entries_of l)" "q < length V" using le Suc V(1) k by simp_all
  ultimately show ?thesis using same Suc by (simp add: agree_def)
qed simp

lemma splice_take:
  assumes "k \<le> n"
  shows "take (p + k) V @ drop k (take n (drop p V)) = take (p + n) V"
proof -
  have "drop k (take n (drop p V)) = take (n - k) (drop (p + k) V)" by (simp add: drop_take add.commute)
  moreover have "take (p + k) V @ take (n - k) (drop (p + k) V) = take (p + k + (n - k)) V" by (simp add: take_add)
  ultimately show ?thesis using assms by simp
qed

text \<open>A follower whose log agrees with the sender's keeps its log or takes over the sender's.\<close>

lemma boot_follow:
  assumes b: "boot_log B l" and es: "indexed (mIndex m + 1) (mEntries m)" and c: "mCommit m \<le> of_nat (length B)"
    and a: "maybeAppend (mIndex m) (mLogTerm m) (mCommit m) (mEntries m) l = Inr (l', res)"
    and room: "length (entries_of l) < 2 ^ 64" and same: "agree (entries_of l) V" and part: "part_of V m"
  shows "entries_of l' = entries_of l \<or> entries_of l' = take (unat (mIndex m) + length (mEntries m)) V"
  using a
proof (cases rule: maybeAppend_cases)
  case same
  then show ?thesis by simp
next
  case (matched ci l1)
  let ?es = "mEntries m" and ?p = "unat (mIndex m)"
  have l': "entries_of l' = entries_of l1" using matched(3) by (auto simp: commitTo_def split: if_splits)
  show ?thesis
  proof (cases "ci = 0")
    case True
    then show ?thesis using matched(4) l' by simp
  next
    case False
    then obtain k where k: "k < length ?es" "ci = eIndex (?es ! k)"
        "\<forall>j < k. matchTerm (eIndex (?es ! j)) (eTerm (?es ! j)) l = Inr True"
      using findConflict_before [OF matched(2)] by auto
    have ci: "ci = mIndex m + 1 + of_nat k" using k es by (simp add: indexed_def)
    have n: "?p + length ?es < 2 ^ 64" "?es = take (length ?es) (drop ?p V)" using part k(1) by (auto simp: part_of_def)
    then have "unat (ci - (mIndex m + 1)) = k" using k(1) by (simp add: ci unat_of_nat_small)
    then obtain li where ap: "log_append (drop k ?es) l = Inr (l1, li)" and hi: "l_committed l < ci"
      using matched(4) False by auto
    have x: "drop k ?es \<noteq> []" "eIndex (drop k ?es ! 0) = ci" using k by simp_all
    have "?p + k = unat (ci - 1)" using part_position(1) [OF part k(1)] by (simp add: ci)
    then have w: "?p + k \<le> length (entries_of l)" "entries_of l1 = take (?p + k) (entries_of l) @ drop k ?es"
      using boot_splice [OF b room ap x(1)] hi x(2) by simp_all
    have "take (?p + k) (entries_of l) = take (?p + k) V"
      by (rule matched_prefix [OF b same part es k(1) matched(1) k(3) w(1)])
    then have "entries_of l' = take (?p + k) V @ drop k (take (length ?es) (drop ?p V))" using w l' n(2) by simp
    then show ?thesis using splice_take [of k "length ?es" ?p V] k(1) by simp
  qed
qed

section \<open>Operations that do not write the log\<close>

abbreviation queued :: "raft \<Rightarrow> Message set" where
  "queued r \<equiv> set (r_msgs r) \<union> set (r_msgsAfterAppend r)"

text \<open>The log is \<open>U\<close>, and the queued appends are from \<open>Q\<close> or a part of it.\<close>

definition telling :: "Entry list \<Rightarrow> Entry list \<Rightarrow> Message set \<Rightarrow> raft \<Rightarrow> bool" where
  "telling B U Q r \<longleftrightarrow> settled B r \<and> ulog r = U \<and> (\<forall>m \<in> queued r. mType m = MsgApp \<longrightarrow> m \<in> Q \<or> part_of U m)"

lemma send_queued:
  assumes "send m r = Inr r'"
  shows "r_raftLog r' = r_raftLog r" "queued r' = insert (sent m r) (queued r)"
  using assms unfolding send_unfold by (auto split: if_splits)

lemma telling_send:
  assumes "send m r = Inr r'" and "telling B U Q r" and "settled B r'" and "mType m = MsgApp \<Longrightarrow> part_of U m"
  shows "telling B U Q r'"
  using assms(2-4) send_queued [OF assms(1)] by (auto simp: telling_def simp del: MsgApp_def)

text \<open>What a leader reads from its log for a peer is a part of it.\<close>

lemma entries_part:
  assumes b: "boot_log B l" and t: "log_term (i - 1) l = Inr (Inr t)"
    and e: "es = [] \<or> log_entries i mx l = Inr (Inr es)"
    and m: "mIndex m = i - 1" "mLogTerm m = t" "mEntries m = es"
  shows "part_of (entries_of l) m"
proof (cases "es = []")
  case False
  with e obtain hi where "log_slice i hi mx l = Inr (Inr es)" by (auto simp: log_entries_def split: if_splits)
  from boot_slice [OF b this] False obtain k where
    es: "es = take k (take (unat (hi - 1) - unat (i - 1)) (drop (unat (i - 1)) (entries_of l)))" by blast
  define p where "p = unat (i - 1)"
  define n where "n = min k (unat (hi - 1) - p)"
  have es: "es = take n (drop p (entries_of l))" unfolding es p_def [symmetric] by (simp add: n_def)
  have "length es \<le> unat (hi - 1) - p" using es by (simp add: n_def)
  moreover have "unat (hi - 1) < 2 ^ 64" using unsigned_less [of "hi - 1"] by simp
  moreover have "0 < length es" using False by simp
  ultimately have "p + length es < 2 ^ 64" by linarith
  moreover have "p + length es \<le> length (entries_of l)" using es False by auto
  moreover have "es = take (length es) (drop p (entries_of l))" using es by (simp add: min_def)
  moreover have "i - 1 = 0 \<or> t = eTerm (entries_of l ! (p - 1))" using boot_term [OF b t] by (auto simp: p_def)
  ultimately show ?thesis using m p_def by (simp add: part_of_def)
qed (use m in \<open>simp add: part_of_def\<close>)

interpretation telling: kept_by_sending "telling B U Q" for B U Q
proof unfold_locales
  show "telling B U Q r \<Longrightarrow> r_Term r \<noteq> 0" for r
    by (auto simp: telling_def dest: settledD(2))
  show "\<lbrakk>telling B U Q r; r_raftLog s = r_raftLog r; r_Term s = r_Term r; r_id s = r_id r; r_msgs s = r_msgs r;
      r_msgsAfterAppend s = r_msgsAfterAppend r\<rbrakk> \<Longrightarrow> telling B U Q s" for r s
    using settled_same [of B r s] by (simp add: telling_def)
  show "\<lbrakk>reset_rel t r s; telling B U Q r; t \<noteq> 0\<rbrakk> \<Longrightarrow> telling B U Q s" for t r s
    using settled.reset [of t r s B] by (simp add: telling_def reset_rel_sel)
  show "\<lbrakk>send m r = Inr s; telling B U Q r; mType m \<notin> {MsgApp, MsgSnap}\<rbrakk> \<Longrightarrow> telling B U Q s" for m r s
    using telling_send [of m r s B U Q] settled_send_other [of m r s B] by (simp add: telling_def del: MsgApp_def MsgSnap_def)
  show "telling B U Q s" if a: "maybeSendAppend i b r = Inr (s, x)" and t: "telling B U Q r" for i b r s x
    using a
  proof (cases rule: maybeSendAppend_sends)
    case nothing
    then show ?thesis using t by simp
  next
    case (append pr pr' tm es)
    have r: "settled B r" "ulog r = U" using t by (simp_all add: telling_def)
    have p: "telling B U Q (set_progress i pr' r)"
      using t settled_same [of B r "set_progress i pr' r"] by (simp add: telling_def set_progress_def)
    show ?thesis
    proof (rule telling_send [OF append(3) p settled_maybeSendAppend [OF a r(1)]])
      show "part_of U (set_mTo i (set_mType MsgApp (set_mIndex (Next pr - 1) (set_mLogTerm tm
          (set_mEntries es (set_mCommit (l_committed (r_raftLog r)) zeroMessage))))))"
        using entries_part [OF settledD(1) [OF r(1)] append(1,2)] r(2) by simp
    qed
  qed
qed

lemma telling_start: "settled B r \<Longrightarrow> telling B (ulog r) (queued r) r"
  by (simp add: telling_def)

section \<open>A leader appends\<close>

lemma appendEntry_telling:
  assumes a: "appendEntry es r = Inr (r', b)" and t: "telling B U Q r"
  obtains es' where "telling B (U @ es') Q r'" "\<forall>e \<in> set es'. eTerm e = r_Term r"
proof -
  have r: "settled B r" "ulog r = U" using t by (simp_all add: telling_def)
  let ?n = "of_nat (length U) :: uint64"
  let ?es = "stamp_entries (r_Term r) ?n es"
  from a obtain l li where l: "log_append ?es (r_raftLog r) = Inr (l, li)"
    and s: "send (set_mTo (r_id r) (set_mType MsgAppResp (set_mIndex li zeroMessage))) (r\<lparr>r_raftLog := l\<rparr>) = Inr r'"
    by (auto simp: appendEntry_def boot_last [OF settledD(1) [OF r(1)]] r(2))
  have "entries_of l = U @ ?es"
  proof (cases "?es = []")
    case True
    then show ?thesis using l r(2) by (simp add: log_append_def)
  next
    case False
    obtain u where u: "truncateAndAppend ?es (l_unstable (r_raftLog r)) = Inr u" "l = (r_raftLog r)\<lparr>l_unstable := u\<rparr>"
      using appended_truncates [OF l False] .
    have "eIndex (?es ! 0) = 1 + ?n"
      using False by (cases es) (simp_all add: stamp_entries_def enumerate_eq_zip upt_conv_Cons del: upt_Suc)
    then show ?thesis
      using u r settledD(1) [OF r(1)] False by (auto simp: truncateAndAppend_def boot_log_def Let_def)
  qed
  then have log: "ulog r' = U @ ?es" using send_queued(1) [OF s] by simp
  have "settled B r'" by (rule settled_appendEntry [OF a r(1)])
  then have "telling B (U @ ?es) Q r'"
    using t log send_queued(2) [OF s] by (auto simp: telling_def intro: part_of_append)
  moreover have "\<forall>e \<in> set ?es. eTerm e = r_Term r"
    by (auto simp: stamp_entries_def)
  ultimately show ?thesis by (rule that)
qed

text \<open>Entries of the leader's own term have come at the end, if any.\<close>

definition grown :: "Entry list \<Rightarrow> raft \<Rightarrow> bool" where
  "grown U r' \<longleftrightarrow> (\<exists>es. ulog r' = U @ es \<and> (es \<noteq> [] \<longrightarrow> r_state r' = StateLeader) \<and> (\<forall>e \<in> set es. eTerm e = r_Term r'))"

definition told :: "Entry list \<Rightarrow> Entry list \<Rightarrow> Message set \<Rightarrow> raft \<Rightarrow> bool" where
  "told B U Q r' \<longleftrightarrow> grown U r' \<and> telling B (ulog r') Q r'"

lemma told_same: "telling B U Q r' \<Longrightarrow> told B U Q r'"
  unfolding told_def grown_def by (auto simp: telling_def)

lemma told_appendEntry:
  assumes a: "appendEntry es r = Inr (u, b)" and t: "telling B U Q r" and l: "r_state r = StateLeader"
    and q: "r' = u \<or> bcastAppend u = Inr r'"
  shows "told B U Q r'"
proof -
  obtain es' where es: "telling B (U @ es') Q u" "\<forall>e \<in> set es'. eTerm e = r_Term r"
    using appendEntry_telling [OF a t] .
  have "telling B (U @ es') Q r'" using q es(1) telling.keep_bcastAppend by blast
  moreover have "r_state r' = r_state u" "r_Term r' = r_Term u" using q quiet_sel [OF quiet_bcastAppend] by auto
  moreover have "r_state u = StateLeader" "r_Term u = r_Term r"
    using calm_appendEntry [OF a] l by (simp_all add: calm_def)
  ultimately show ?thesis unfolding told_def grown_def using es(2) by (auto simp: telling_def)
qed

lemma told_becomeLeader:
  assumes a: "becomeLeader r = Inr u" "bcastAppend u = Inr r'" and t: "telling B U Q r"
  shows "told B U Q r'"
proof -
  obtain s v where s: "raft_reset (r_Term r) (r\<lparr>r_step := stepLeaderF\<rparr>) = Inr s" "appendEntry [zeroEntry] v = Inr (u, True)"
      and v: "r_raftLog v = r_raftLog s" "r_Term v = r_Term s" "r_id v = r_id s" "r_msgs v = r_msgs s"
        "r_msgsAfterAppend v = r_msgsAfterAppend s" "r_state v = StateLeader"
    using a(1) by (rule becomeLeader_appends)
  have "telling B U Q (r\<lparr>r_step := stepLeaderF\<rparr>)" using t by (rule telling.same) simp_all
  then have "telling B U Q s" using telling.reset [OF raft_reset_rel [OF s(1)]] telling.term_set [OF t] by blast
  then have "telling B U Q v" using v(1-5) by (rule telling.same)
  then show ?thesis using told_appendEntry [OF s(2) _ v(6)] a(2) by blast
qed

lemma told_leader_propose:
  assumes a: "leader_propose m r = Inr (r', e)" and t: "telling B U Q r" and l: "r_state r = StateLeader"
  shows "told B U Q r'"
  using a
proof (cases rule: leader_propose_appends)
  case dropped
  then show ?thesis using t by (simp add: told_same)
next
  case (appended s es u b)
  have s: "telling B U Q s" using t by (rule telling.same) (use filter_changes_votes [OF appended(1)] in simp_all)
  have "r_state s = StateLeader" using filter_changes_votes [OF appended(1)] l by simp
  with s show ?thesis by (rule told_appendEntry [OF appended(2) _ _ appended(3)])
qed

section \<open>The effect of a message on the log\<close>

text \<open>The log has been extended by \<open>maybeAppend\<close> with the entries of an append message.\<close>

definition followed :: "Entry list \<Rightarrow> Message \<Rightarrow> raft \<Rightarrow> raft \<Rightarrow> bool" where
  "followed B m r r' \<longleftrightarrow> mType m = MsgApp \<and> r_state r' = StateFollower \<and>
     (\<exists>l l' res. boot_log B l \<and> entries_of l = ulog r \<and>
        maybeAppend (mIndex m) (mLogTerm m) (mCommit m) (mEntries m) l = Inr (l', res) \<and> ulog r' = entries_of l')"

text \<open>The appends queued after the step are old ones, or a part of the old log or of the new.\<close>

definition log_step :: "Entry list \<Rightarrow> Message \<Rightarrow> raft \<Rightarrow> raft \<Rightarrow> bool" where
  "log_step B m r r' \<longleftrightarrow> (grown (ulog r) r' \<or> followed B m r r') \<and>
     (\<forall>x \<in> queued r'. mType x = MsgApp \<longrightarrow> x \<in> queued r \<or> part_of (ulog r) x \<or> part_of (ulog r') x)"

lemma log_step_told: "told B (ulog r) (queued r) r' \<Longrightarrow> log_step B m r r'"
  unfolding told_def log_step_def telling_def by blast

lemma log_step_kept: "telling B (ulog r) (queued r) r' \<Longrightarrow> log_step B m r r'"
  by (rule log_step_told) (rule told_same)

lemma handleAppendEntries_log:
  assumes a: "handleAppendEntries m s = Inr r'" and t: "telling B (ulog r) (queued r) s"
    and m: "mType m = MsgApp" and f: "r_state s = StateFollower"
  shows "log_step B m r r'"
  using a
proof (rule handleAppendEntries_sends)
  fix l x assume s: "send x (s\<lparr>r_raftLog := l\<rparr>) = Inr r'" "mType x = MsgAppResp" and l: "l = r_raftLog s \<or>
    (\<exists>res. maybeAppend (mIndex m) (mLogTerm m) (mCommit m) (mEntries m) (r_raftLog s) = Inr (l, res))"
  have st: "r_state r' = StateFollower" using calm_send [OF s(1)] f by (simp add: calm_def)
  have r': "ulog r' = entries_of l" "queued r' = insert (sent x (s\<lparr>r_raftLog := l\<rparr>)) (queued s)"
    using send_queued [OF s(1)] by simp_all
  have b: "boot_log B (r_raftLog s)" "entries_of (r_raftLog s) = ulog r"
    using t settledD(1) [of B s] by (simp_all add: telling_def)
  have "grown (ulog r) r' \<or> followed B m r r'"
    using l
  proof
    assume "l = r_raftLog s"
    then show ?thesis using r'(1) b(2) by (simp add: grown_def)
  next
    assume "\<exists>res. maybeAppend (mIndex m) (mLogTerm m) (mCommit m) (mEntries m) (r_raftLog s) = Inr (l, res)"
    then show ?thesis using b m st r'(1) unfolding followed_def by blast
  qed
  moreover have "x' \<in> queued r \<or> part_of (ulog r) x'" if "x' \<in> queued r'" "mType x' = MsgApp" for x'
    using that t s(2) unfolding r'(2) by (auto simp: telling_def)
  ultimately show ?thesis unfolding log_step_def by blast
qed

lemma call_step_log:
  assumes a: "call_step m s = Inr (r', e)" and t: "telling B (ulog r) (queued r) s" and ok: "role_ok s"
    and m: "sound_msg (of_nat (length B)) m" and fin: "r_Term s \<noteq> - 1"
  shows "log_step B m r r'"
proof (cases "r_step s")
  case stepFollowerF
  then have st: "r_state s = StateFollower" using ok by (auto simp: role_ok_def split: RoleType.splits)
  have "stepFollower m s = Inr (r', e)" using a stepFollowerF by (simp add: call_step_def)
  then show ?thesis using t
  proof (rule telling.keep_stepFollower)
    show "telling B (ulog r) (queued r) r' \<Longrightarrow> ?thesis" by (rule log_step_kept)
  next
    fix x assume "mType m = MsgApp" "telling B (ulog r) (queued r) (s\<lparr>r_electionElapsed := 0, r_lead := x\<rparr>)"
      "handleAppendEntries m (s\<lparr>r_electionElapsed := 0, r_lead := x\<rparr>) = Inr r'"
    then show ?thesis using st by (intro handleAppendEntries_log [where s = "s\<lparr>r_electionElapsed := 0, r_lead := x\<rparr>"]) simp_all
  qed
next
  case stepCandidateF
  then have "stepCandidate m s = Inr (r', e)" using a by (simp add: call_step_def)
  then show ?thesis using t m fin
    by (rule telling.keep_stepCandidate) (blast intro: log_step_kept log_step_told told_becomeLeader)+
next
  case stepLeaderF
  then have st: "r_state s = StateLeader" using ok by (auto simp: role_ok_def split: RoleType.splits)
  have "stepLeader m s = Inr (r', e)" using a stepLeaderF by (simp add: call_step_def)
  then show ?thesis using t
    by (rule telling.keep_stepLeader) (use t st in \<open>blast intro: log_step_kept log_step_told told_leader_propose\<close>)+
qed (use a in \<open>simp add: call_step_def\<close>)

lemma Step_log:
  assumes "Step m r = Inr (r', e)" and r: "settled B r" "role_ok r" and m: "sound_msg (of_nat (length B)) m"
    and fin: "r_Term r \<noteq> - 1" "mTerm m \<noteq> - 1"
  shows "log_step B m r r'"
proof -
  from assms(1) obtain s b where s: "check_term m r = Inr (s, b)"
      and d: "(if b then dispatch m s else ok_step s) = Inr (r', e)"
    by (auto simp: Step_def)
  have t: "telling B (ulog r) (queued r) s" by (rule telling.keep_check_term [OF s telling_start [OF r(1)]])
  have fin': "r_Term s \<noteq> - 1" by (rule check_term_bound [OF s fin])
  have ok: "role_ok s" using check_term_role [OF s] role_ok_calm [of r s] r(2) by blast
  show ?thesis
  proof (cases b)
    case True
    then have "dispatch m s = Inr (r', e)" using d by simp
    then show ?thesis using t fin'
      by (rule telling.keep_dispatch) (use t ok m fin' in \<open>blast intro: log_step_kept call_step_log\<close>)+
  next
    case False
    then show ?thesis using d t by (auto simp: ok_step_def intro: log_step_kept)
  qed
qed

lemma tick_log:
  assumes "tick r = Inr r'" and r: "settled B r" "role_ok r" and fin: "r_Term r \<noteq> - 1"
  shows "\<exists>m. mType m \<noteq> MsgApp \<and> log_step B m r r'"
  using assms(1)
proof (cases rule: tick_cases)
  case (still x y)
  have "telling B (ulog r) (queued r) r'"
    using telling_start [OF r(1)] by (rule telling.same) (simp_all add: still)
  then have "log_step B zeroMessage r r'" by (rule log_step_kept)
  moreover have "mType zeroMessage \<noteq> MsgApp" by simp
  ultimately show ?thesis by blast
next
  case (steps x y ty e)
  let ?m = "set_mFrom (r_id r) (set_mType ty zeroMessage)" and ?s = "r\<lparr>r_heartbeatElapsed := x, r_electionElapsed := y\<rparr>"
  have "settled B ?s" "role_ok ?s" using r settled_same [of B r ?s] by (simp_all add: role_ok_def)
  then have "log_step B ?m ?s r'"
    using steps(2) fin by (intro Step_log [OF steps(1)]) (auto intro: sound_other)
  then have "log_step B ?m r r'" by (simp add: log_step_def followed_def)
  moreover have "mType ?m \<noteq> MsgApp" using steps(2) by auto
  ultimately show ?thesis by blast
qed

section \<open>Becoming a candidate\<close>

text \<open>A node becomes a candidate only in a new term.\<close>

definition aged :: "raft \<Rightarrow> raft \<Rightarrow> bool" where
  "aged r r' \<longleftrightarrow> (r_state r' = StateCandidate \<longrightarrow>
     r_state r = StateCandidate \<and> r_Term r' = r_Term r \<or> r_Term r < r_Term r')"

lemma aged_calm: "calm r r' \<Longrightarrow> aged r r'"
  by (simp add: aged_def calm_def)

lemma aged_not: "r_state r' \<noteq> StateCandidate \<Longrightarrow> aged r r'"
  by (simp add: aged_def)

lemma aged_campaign:
  assumes "campaign t r = Inr r'" and "r_Term r \<noteq> - 1"
  shows "aged r r'"
proof -
  from assms obtain s tm ty where
      s: "(if t = campaignPreElection then becomePreCandidate r else becomeCandidate r) = Inr s"
      and loop: "go_foldl (\<lambda>r i. campaign_to t tm ty i r) s
        (sorted_list_of_fset (Joint_IDs (cfgVoters (trkConfig (r_trk s))))) = Inr r'"
    unfolding campaign_def by (cases "t = campaignPreElection") auto
  have "calm s r'" by (rule go_foldl_invariant [where P = "calm s", OF loop])
    (auto intro: calm_trans dest: calm_campaign_to)
  moreover have "aged r s"
  proof (cases "t = campaignPreElection")
    case True
    then show ?thesis using s becomePreCandidate_role(2) by (intro aged_not) simp
  next
    case False
    then have b: "becomeCandidate r = Inr s" using s by simp
    note v = becomeCandidate_votes(1,2) [OF b assms(2)]
    have "r_Term s \<noteq> r_Term r" using v(2) by simp
    moreover have "r_Term r \<le> r_Term s" using v(1) by (auto simp: votes_kept_def)
    ultimately show ?thesis by (simp add: aged_def order_less_le)
  qed
  ultimately show ?thesis by (simp add: aged_def calm_def)
qed

lemma aged_stepCandidate:
  assumes a: "stepCandidate m r = Inr (r', e)" and fin: "r_Term r \<noteq> - 1"
  shows "aged r r'"
  using a
proof (cases rule: stepCandidate_cases)
  case down then show ?thesis using becomeFollower_role(2) by (intro aged_not) fastforce
next
  case (beat s)
  then show ?thesis using becomeFollower_role(2) [OF beat(2)] calm_quiet [OF quiet_handleHeartbeat [OF beat(3)]]
    by (intro aged_not) (simp add: calm_def)
next
  case lost then show ?thesis using becomeFollower_role(2) by (intro aged_not) fastforce
next
  case again
  have "aged (with_vote m r) r'" by (rule aged_campaign [OF again(3)]) (use fin in simp)
  then show ?thesis by (simp add: aged_def)
next
  case (won u)
  have "r_state r' = r_state u" using calm_quiet [OF quiet_bcastAppend [OF won(5)]] by (simp add: calm_def)
  then show ?thesis using becomeLeader_role(2) [OF won(4)] by (intro aged_not) simp
qed (simp_all add: aged_def)

lemma aged_dispatch:
  assumes a: "dispatch m r = Inr (r', e)" and fin: "r_Term r \<noteq> - 1"
  shows "aged r r'"
proof -
  have h: "aged r s" if "hup t r = Inr s" for s t
    using that fin by (auto simp: hup_def split: if_splits intro: aged_calm aged_campaign)
  have c: "aged r s" if "call_step m r = Inr (s, x)" for s x
    using that fin unfolding call_step_def
    by (cases "r_step r")
      (auto intro: aged_stepCandidate aged_calm calm_stepFollower calm_stepLeader)
  show ?thesis
    using a h c aged_calm [OF calm_refl] aged_calm [OF calm_handle_vote] unfolding dispatch_def ok_step_def
    by (auto split: if_splits)
qed

lemma Step_aged:
  assumes "Step m r = Inr (r', e)" and m: "wire_ok m" and r: "r_id r \<noteq> 0" and fin: "r_Term r \<noteq> - 1"
  shows "aged r r'"
proof -
  from assms(1) obtain s b where s: "check_term m r = Inr (s, b)"
      and d: "(if b then dispatch m s else ok_step s) = Inr (r', e)"
    by (auto simp: Step_def)
  have "r_Term r \<le> r_Term s" "r_Term s \<noteq> - 1"
    using check_term_votes [OF s m fin] by (auto simp: votes_kept_def)
  moreover have "aged s r'"
    using d calculation(2) by (cases b) (auto simp: ok_step_def intro: aged_calm aged_dispatch)
  ultimately show ?thesis
    using check_term_role [OF s] by (auto simp: aged_def calm_def)
qed

lemma tick_aged:
  assumes "tick r = Inr r'" and r: "r_id r \<noteq> 0" and fin: "r_Term r \<noteq> - 1"
  shows "aged r r'"
  using assms(1)
proof (cases rule: tick_cases)
  case (still x y)
  then show ?thesis by (simp add: aged_def)
next
  case (steps x y ty e)
  let ?m = "set_mFrom (r_id r) (set_mType ty zeroMessage)" and ?s = "r\<lparr>r_heartbeatElapsed := x, r_electionElapsed := y\<rparr>"
  have "wire_ok ?m" using steps(2) by (auto simp: wire_ok_def)
  then have "aged ?s r'" using r fin by (intro Step_aged [OF steps(1)]) simp_all
  then show ?thesis by (simp add: aged_def)
qed

text \<open>Adopting a configuration writes no log and makes nobody a candidate.\<close>

lemma conf_log:
  assumes "applyConfChange cc r = Inr (r', cs)" and r: "settled B r"
  shows "log_step B m r r'"
  using telling.keep_applyConfChange [OF assms(1) telling_start [OF r]] by (rule log_step_kept)

end
