(* ===== verification/Raft_Matching.thy ===== *)
theory Raft_Matching
  imports Raft_Cluster Raft_Replicate
begin

text \<open>
  The logs of the nodes of a cluster.  The invariant speaks of a set of histories, the logs that leaders
  have had: any two of them agree, every node's log is the beginning of one, every append message carries a
  part of one, and whatever a history holds of a leader's term its present log holds too.  So two nodes whose
  logs have entries of the same term at the same place have the same log up to there.
\<close>

section \<open>Histories\<close>

text \<open>An append message carries a part of a history.\<close>

definition traced :: "Entry list set \<Rightarrow> Message \<Rightarrow> bool" where
  "traced H m \<longleftrightarrow> (mType m = MsgApp \<longrightarrow> (\<exists>V \<in> H. part_of V m))"

text \<open>Somebody won the term \<open>t\<close> and is no longer its candidate.\<close>

definition led :: "JointConfig \<Rightarrow> (uint64 \<Rightarrow> raft) \<Rightarrow> Message set \<Rightarrow> uint64 \<Rightarrow> bool" where
  "led C R S t \<longleftrightarrow> (\<exists>j. j \<noteq> 0 \<and> cert C S t j \<and> t \<le> r_Term (R j) \<and>
     (t = r_Term (R j) \<longrightarrow> r_state (R j) \<noteq> StateCandidate))"

text \<open>Every entry of the term \<open>t\<close> in \<open>V\<close>, after the first \<open>n\<close>, is at the same place in \<open>U\<close>.\<close>

definition holds_term :: "nat \<Rightarrow> uint64 \<Rightarrow> Entry list \<Rightarrow> Entry list \<Rightarrow> bool" where
  "holds_term n t U V \<longleftrightarrow> (\<forall>k. n \<le> k \<and> k < length V \<and> eTerm (V ! k) = t \<longrightarrow> k < length U \<and> eTerm (U ! k) = t)"

definition node_logs :: "Entry list \<Rightarrow> Entry list set \<Rightarrow> raft \<Rightarrow> bool" where
  "node_logs B H r \<longleftrightarrow> (\<exists>V \<in> H. \<exists>n. ulog r = take n V) \<and> (\<forall>m \<in> queued r. traced H m) \<and>
     (r_state r = StateLeader \<longrightarrow> (\<forall>V \<in> H. holds_term (length B) (r_Term r) (ulog r) V))"

definition log_inv :: "Entry list \<Rightarrow> JointConfig \<Rightarrow> Entry list set \<Rightarrow> (uint64 \<Rightarrow> raft) \<Rightarrow> Message set \<Rightarrow> bool" where
  "log_inv B C H R S \<longleftrightarrow> (\<forall>U \<in> H. \<forall>V \<in> H. agree U V) \<and>
     (\<forall>V \<in> H. \<forall>k. length B \<le> k \<and> k < length V \<longrightarrow> led C R S (eTerm (V ! k))) \<and>
     (\<forall>i. i \<noteq> 0 \<longrightarrow> node_logs B H (R i)) \<and> (\<forall>m \<in> S. traced H m)"

lemma traced_mono: "\<lbrakk>traced H m; H \<subseteq> H'\<rbrakk> \<Longrightarrow> traced H' m"
  by (auto simp: traced_def)

lemma led_mono: "\<lbrakk>led C R S t; S \<subseteq> S'\<rbrakk> \<Longrightarrow> led C R S' t"
  unfolding led_def using cert_mono by blast

lemma led_step:
  assumes "led C R S t" and "r_Term (R i) \<le> r_Term r'" and "aged (R i) r'"
  shows "led C (R(i := r')) S t"
proof -
  obtain j where j: "j \<noteq> 0" "cert C S t j" "t \<le> r_Term (R j)" "t = r_Term (R j) \<Longrightarrow> r_state (R j) \<noteq> StateCandidate"
    using assms(1) unfolding led_def by blast
  have "t \<le> r_Term ((R(i := r')) j) \<and> (t = r_Term ((R(i := r')) j) \<longrightarrow> r_state ((R(i := r')) j) \<noteq> StateCandidate)"
  proof (cases "j = i")
    case True
    have "r_state r' \<noteq> StateCandidate" if "t = r_Term r'"
      using that j(3,4) True assms(2,3) by (auto simp: aged_def)
    then show ?thesis using True j(3) assms(2) by (auto intro: order_trans)
  next
    case False
    then show ?thesis using j(3,4) by simp
  qed
  then show ?thesis using j(1,2) unfolding led_def by blast
qed

section \<open>One node changes\<close>

text \<open>What a step of node \<open>i\<close> does to its log, with the histories in view: it stays the beginning of a history,
  or, when the node leads, entries of its term come at the end.\<close>

definition new_log :: "Entry list set \<Rightarrow> raft \<Rightarrow> raft \<Rightarrow> bool" where
  "new_log H r r' \<longleftrightarrow> grown (ulog r) r' \<or> r_state r' \<noteq> StateLeader \<and> (\<exists>V \<in> H. \<exists>n. ulog r' = take n V)"

lemma leader_holds:
  assumes inv: "log_inv B C H R S" and one: "one_vote R S" "Joint_IDs C \<noteq> {||}" and i: "i \<noteq> 0"
    and l: "cert C S (r_Term r') i" "r_Term r' = r_Term (R i)" "r_state (R i) = StateLeader \<or> r_state (R i) = StateCandidate"
    and V: "V \<in> H"
  shows "holds_term (length B) (r_Term r') (ulog (R i)) V"
proof (cases "r_state (R i) = StateLeader")
  case True
  then show ?thesis using inv i l(2) V by (simp add: log_inv_def node_logs_def)
next
  case False
  have "\<not> eTerm (V ! k) = r_Term r'" if "length B \<le> k" "k < length V" for k
  proof
    assume e: "eTerm (V ! k) = r_Term r'"
    have "led C R S (eTerm (V ! k))" using inv V that unfolding log_inv_def by blast
    then obtain j where j: "cert C S (r_Term r') j" "r_Term r' = r_Term (R j) \<longrightarrow> r_state (R j) \<noteq> StateCandidate"
      unfolding e led_def by blast
    have "j = i" using cert_unique [OF one j(1) l(1)] .
    then show False using j(2) l(2,3) False by simp
  qed
  then show ?thesis unfolding holds_term_def by blast
qed

lemma agree_grown:
  assumes U: "agree V0 V" "U = take n V0" and es: "\<forall>e \<in> set es. eTerm e = t"
    and h: "holds_term b t U V" and b: "b \<le> length U"
  shows "agree (U @ es) V"
  unfolding agree_def
proof (intro allI impI)
  fix k assume k: "k < length (U @ es) \<and> k < length V \<and> eTerm ((U @ es) ! k) = eTerm (V ! k)"
  show "take (Suc k) (U @ es) = take (Suc k) V"
  proof (cases "k < length U")
    case True
    then show ?thesis using k agree_take [OF U(1), of n] U(2) unfolding agree_def by (simp add: nth_append)
  next
    case False
    have "k - length U < length es" using k False by auto
    then have "(U @ es) ! k \<in> set es" using False by (simp add: nth_append)
    then have "eTerm (V ! k) = t" using k es by metis
    moreover have "b \<le> k" using b False by simp
    ultimately have "k < length U" using h k unfolding holds_term_def by blast
    then show ?thesis using False by simp
  qed
qed

lemma holds_other:
  assumes h: "holds_term b t U V" and W: "W = take n V @ es" and es: "\<forall>e \<in> set es. eTerm e \<noteq> t"
  shows "holds_term b t U W"
  unfolding holds_term_def
proof (intro allI impI)
  fix k assume k: "b \<le> k \<and> k < length W \<and> eTerm (W ! k) = t"
  have "k < length (take n V)"
  proof (rule ccontr)
    assume a: "\<not> k < length (take n V)"
    then have "k - length (take n V) < length es" using k W by (auto simp del: length_take)
    then have "W ! k \<in> set es" using a W by (simp add: nth_append del: length_take)
    then show False using k es by auto
  qed
  then have "k < length V \<and> eTerm (V ! k) = t" using k W by (simp add: nth_append)
  then show "k < length U \<and> eTerm (U ! k) = t" using h k unfolding holds_term_def by blast
qed

lemma holds_append: "holds_term b t U V \<Longrightarrow> holds_term b t (U @ es) V"
  by (auto simp: holds_term_def nth_append)

text \<open>The new log is within the histories.\<close>

lemma log_inv_within:
  assumes inv: "log_inv B C H R S" and later: "r_Term (R i) \<le> r_Term r'" "aged (R i) r'" and n: "node_logs B H r'"
  shows "log_inv B C H (R(i := r')) S"
proof -
  have "led C (R(i := r')) S (eTerm (V ! k))" if "V \<in> H" "length B \<le> k" "k < length V" for V k
    using inv that by (intro led_step [where i = i and R = R, OF _ later]) (simp add: log_inv_def)
  then show ?thesis using inv n by (simp add: log_inv_def)
qed

text \<open>A leader's new log is a new history.\<close>

lemma log_inv_grown:
  assumes inv: "log_inv B C H R S" and i: "i \<noteq> 0" and one: "one_vote R S" "Joint_IDs C \<noteq> {||}"
    and certs: "\<And>j. \<lbrakk>j \<noteq> 0; r_state ((R(i := r')) j) = StateLeader\<rbrakk> \<Longrightarrow> cert C S (r_Term ((R(i := r')) j)) j"
    and b: "length B \<le> length U" and later: "r_Term (R i) \<le> r_Term r'" "aged (R i) r'"
    and V0: "V0 \<in> H" "U = take n V0" and W: "W = U @ es" "\<forall>e \<in> set es. eTerm e = r_Term r'"
    and l: "r_state r' = StateLeader" and holds: "\<And>V. V \<in> H \<Longrightarrow> holds_term (length B) (r_Term r') U V"
    and me: "node_logs B (insert W H) r'"
  shows "log_inv B C (insert W H) (R(i := r')) S"
  unfolding log_inv_def
proof (intro conjI allI impI)
  have agree: "agree X V" if "X \<in> H" "V \<in> H" for X V using inv that unfolding log_inv_def by blast
  have cert: "cert C S (r_Term r') i" using certs [OF i] l by simp
  have "agree W V" if "V \<in> H" for V
    unfolding W(1) by (rule agree_grown [OF agree [OF V0(1) that] V0(2) W(2) holds [OF that] b])
  then show "\<forall>X \<in> insert W H. \<forall>V \<in> insert W H. agree X V" using agree agree_sym by auto
  show "\<forall>m \<in> S. traced (insert W H) m" using inv unfolding log_inv_def by (blast intro: traced_mono)
  have old: "led C (R(i := r')) S (eTerm (V ! k))" if "V \<in> H" "length B \<le> k" "k < length V" for V k
    using inv that by (intro led_step [where i = i and R = R, OF _ later]) (simp add: log_inv_def)
  have "led C (R(i := r')) S (eTerm (W ! k))" if "length B \<le> k" "k < length W" for k
  proof (cases "k < length U")
    case True
    then show ?thesis using old [OF V0(1) that(1)] V0(2) W(1) by (simp add: nth_append)
  next
    case False
    then have "eTerm (W ! k) = r_Term r'" using that W by (simp add: nth_append)
    then show ?thesis using cert l i unfolding led_def by (intro exI [of _ i]) simp
  qed
  then show "\<forall>V \<in> insert W H. \<forall>k. length B \<le> k \<and> k < length V \<longrightarrow> led C (R(i := r')) S (eTerm (V ! k))"
    using old by auto
  fix j :: uint64 assume j: "j \<noteq> 0"
  show "node_logs B (insert W H) ((R(i := r')) j)"
  proof (cases "j = i")
    case False
    have nj: "node_logs B H (R j)" using inv j by (simp add: log_inv_def)
    have "holds_term (length B) (r_Term (R j)) (ulog (R j)) W" if lj: "r_state (R j) = StateLeader"
    proof -
      have "cert C S (r_Term (R j)) j" using certs [OF j] lj False by simp
      then have "r_Term (R j) \<noteq> r_Term r'" using cert_unique [OF one _ cert] False by metis
      moreover have "holds_term (length B) (r_Term (R j)) (ulog (R j)) V0"
        using nj lj V0(1) by (simp add: node_logs_def)
      ultimately show ?thesis using V0(2) W by (intro holds_other [of _ _ _ V0 W n es]) auto
    qed
    then have "node_logs B (insert W H) (R j)"
      using nj traced_mono [of H _ "insert W H"] unfolding node_logs_def by blast
    then show ?thesis using False by simp
  qed (use me in simp)
qed

lemma log_inv_change:
  assumes inv: "log_inv B C H R S" and i: "i \<noteq> 0" and one: "one_vote R S" "Joint_IDs C \<noteq> {||}"
    and certs: "\<And>j. \<lbrakk>j \<noteq> 0; r_state ((R(i := r')) j) = StateLeader\<rbrakk> \<Longrightarrow> cert C S (r_Term ((R(i := r')) j)) j"
    and b: "length B \<le> length (ulog (R i))"
    and later: "r_Term (R i) \<le> r_Term r'" "aged (R i) r'"
    and role: "r_state r' = StateLeader \<Longrightarrow> r_Term r' = r_Term (R i) \<and> r_state (R i) \<in> {StateLeader, StateCandidate}"
    and log: "new_log H (R i) r'"
    and qs: "\<forall>m \<in> queued r'. mType m = MsgApp \<longrightarrow> m \<in> queued (R i) \<or> part_of (ulog (R i)) m \<or> part_of (ulog r') m"
  shows "\<exists>H'. H \<subseteq> H' \<and> log_inv B C H' (R(i := r')) S"
proof -
  have n: "node_logs B H (R i)" using inv i by (simp add: log_inv_def)
  obtain V0 n0 where V0: "V0 \<in> H" "ulog (R i) = take n0 V0" using n unfolding node_logs_def by blast
  have holds: "holds_term (length B) (r_Term r') (ulog (R i)) V" if "r_state r' = StateLeader" "V \<in> H" for V
    using role [OF that(1)] certs [OF i] that by (intro leader_holds [OF inv one i _ _ _ that(2)]) auto
  have leads: "holds_term (length B) (r_Term r') (ulog r') V" if l: "r_state r' = StateLeader" and V: "V \<in> H" for V
  proof -
    obtain es where "ulog r' = ulog (R i) @ es" using log l by (auto simp: new_log_def grown_def)
    then show ?thesis using holds_append [OF holds [OF l V]] by simp
  qed
  show ?thesis
  proof (cases "\<exists>V \<in> H. \<exists>k. ulog r' = take k V")
    case True
    then have "traced H m" if "m \<in> queued r'" for m
      using that qs n V0 part_of_take unfolding node_logs_def traced_def by metis
    then have "node_logs B H r'" using True leads unfolding node_logs_def by blast
    then show ?thesis using log_inv_within [OF inv later] by blast
  next
    case False
    then obtain es where es: "ulog r' = ulog (R i) @ es" "es \<noteq> [] \<longrightarrow> r_state r' = StateLeader" "\<forall>e \<in> set es. eTerm e = r_Term r'"
      using log unfolding new_log_def grown_def by blast
    have "es \<noteq> []" using False V0 es(1) by (metis append_Nil2)
    then have l: "r_state r' = StateLeader" using es(2) by simp
    have "traced (insert (ulog r') H) m" if "m \<in> queued r'" for m
      using that qs n V0 part_of_take unfolding node_logs_def traced_def by (metis insert_iff)
    moreover have "\<exists>k. ulog r' = take k (ulog r')" by (intro exI [of _ "length (ulog r')"]) simp
    moreover have "holds_term (length B) (r_Term r') (ulog r') (ulog r')" by (simp add: holds_term_def)
    ultimately have "node_logs B (insert (ulog r') H) r'" using leads unfolding node_logs_def by blast
    then show ?thesis using log_inv_grown [OF inv i one certs b later V0 es(1,3) l holds [OF l]] by blast
  qed
qed

section \<open>The operations of a node\<close>

lemma log_inv_step:
  assumes inv: "log_inv B C H R S" and i: "i \<noteq> 0" and C: "Joint_IDs C \<noteq> {||}"
    and el: "election_inv B C R S" "election_inv B C (R(i := r')) S"
    and later: "r_Term (R i) \<le> r_Term r'" "aged (R i) r'"
    and role: "r_state r' = StateLeader \<Longrightarrow> r_Term r' = r_Term (R i) \<and> r_state (R i) \<in> {StateLeader, StateCandidate}"
    and ls: "log_step B m (R i) r'"
    and m: "mType m = MsgApp \<Longrightarrow> sound_msg (of_nat (length B)) m \<and> traced H m \<and> length (ulog (R i)) < 2 ^ 62"
  shows "\<exists>H'. H \<subseteq> H' \<and> log_inv B C H' (R(i := r')) S"
proof (rule log_inv_change [OF inv i _ C])
  have n: "node_inv B C S i (R i)" using el(1) i by (simp add: election_inv_def)
  show "one_vote R S" using el(1) by (simp add: election_inv_def)
  show "cert C S (r_Term ((R(i := r')) j)) j" if "j \<noteq> 0" "r_state ((R(i := r')) j) = StateLeader" for j
    using el(2) that unfolding election_inv_def node_inv_def count_ok_def by blast
  show "length B \<le> length (ulog (R i))" using n by (simp add: node_inv_def settled_def boot_length)
  show "\<forall>x \<in> queued r'. mType x = MsgApp \<longrightarrow> x \<in> queued (R i) \<or> part_of (ulog (R i)) x \<or> part_of (ulog r') x"
    using ls unfolding log_step_def by blast
  have "new_log H (R i) r'" if f: "followed B m (R i) r'"
  proof -
    from f obtain l l' res where l: "mType m = MsgApp" "r_state r' = StateFollower" "boot_log B l" "entries_of l = ulog (R i)"
        "maybeAppend (mIndex m) (mLogTerm m) (mCommit m) (mEntries m) l = Inr (l', res)" "ulog r' = entries_of l'"
      unfolding followed_def by blast
    obtain V where V: "V \<in> H" "part_of V m" using m [OF l(1)] l(1) by (auto simp: traced_def)
    have "node_logs B H (R i)" using inv i by (simp add: log_inv_def)
    then obtain V0 n0 where V0: "V0 \<in> H" "ulog (R i) = take n0 V0" unfolding node_logs_def by blast
    have "agree V0 V" using inv V(1) V0(1) unfolding log_inv_def by blast
    then have "agree (entries_of l) V" using V0(2) l(4) by (simp add: agree_take)
    then have "entries_of l' = entries_of l \<or> entries_of l' = take (unat (mIndex m) + length (mEntries m)) V"
      using m [OF l(1)] l V(2) by (intro boot_follow [OF l(3) _ _ l(5)]) (auto simp: sound_msg_def)
    then show ?thesis using V0 V(1) l unfolding new_log_def by auto
  qed
  then show "new_log H (R i) r'" using ls unfolding log_step_def new_log_def by blast
qed (use later role in auto)

lemma log_inv_Step:
  assumes inv: "log_inv B C H R S" and i: "i \<noteq> 0" and C: "Joint_IDs C \<noteq> {||}" and el: "election_inv B C R S"
    and s: "Step m (R i) = Inr (r', e)" and w: "sound_msg (of_nat (length B)) m" "numbers_left [m] (R i)"
    and tr: "traced H m" and vote: "mType m = MsgVoteResp \<Longrightarrow> \<not> mReject m \<Longrightarrow> m \<in> S \<and> mTo m = i"
  shows "\<exists>H'. H \<subseteq> H' \<and> log_inv B C H' (R(i := r')) S"
proof -
  have n: "settled B (R i)" "role_ok (R i)" "r_id (R i) = i" using el i by (simp_all add: election_inv_def node_inv_def)
  have fin: "r_Term (R i) \<noteq> - 1" "mTerm m \<noteq> - 1" "length (ulog (R i)) < 2 ^ 62" using w(2) by auto
  note wire = sound_wire [OF w(1) fin(2)]
  show ?thesis
  proof (rule log_inv_step [OF inv i C el])
    show "election_inv B C (R(i := r')) S" by (rule election_inv_Step [OF el i s w(1) fin(1,2) vote])
    show "r_Term (R i) \<le> r_Term r'" using Step_votes [OF s wire _ fin(1)] n(3) i by (simp add: votes_kept_def)
    show "aged (R i) r'" using Step_aged [OF s wire _ fin(1)] n(3) i by simp
    show "r_Term r' = r_Term (R i) \<and> r_state (R i) \<in> {StateLeader, StateCandidate}" if "r_state r' = StateLeader"
      using Step_role [OF s n(2)] that by (auto simp: step_role_def counted_def)
    show "log_step B m (R i) r'" by (rule Step_log [OF s n(1,2) w(1) fin(1,2)])
  qed (use w(1) tr fin(3) in simp)
qed

lemma log_inv_tick:
  assumes inv: "log_inv B C H R S" and i: "i \<noteq> 0" and C: "Joint_IDs C \<noteq> {||}" and el: "election_inv B C R S"
    and s: "tick (R i) = Inr r'" and fin: "r_Term (R i) \<noteq> - 1"
  shows "\<exists>H'. H \<subseteq> H' \<and> log_inv B C H' (R(i := r')) S"
proof -
  have n: "settled B (R i)" "role_ok (R i)" "r_id (R i) \<noteq> 0" using el i by (simp_all add: election_inv_def node_inv_def)
  obtain m where m: "mType m \<noteq> MsgApp" "log_step B m (R i) r'" using tick_log [OF s n(1,2) fin] by blast
  obtain x where x: "step_role x (R i) r'" using tick_role [OF s n(2)] by blast
  show ?thesis
  proof (rule log_inv_step [OF inv i C el])
    show "election_inv B C (R(i := r')) S" by (rule election_inv_tick [OF el i s fin])
    show "r_Term (R i) \<le> r_Term r'" using tick_votes [OF s n(3) fin] by (simp add: votes_kept_def)
    show "aged (R i) r'" by (rule tick_aged [OF s n(3) fin])
    show "r_Term r' = r_Term (R i) \<and> r_state (R i) \<in> {StateLeader, StateCandidate}" if "r_state r' = StateLeader"
      using x that by (auto simp: step_role_def counted_def)
    show "log_step B m (R i) r'" by (rule m(2))
  qed (use m(1) in simp)
qed

lemma log_inv_conf:
  assumes inv: "log_inv B C H R S" and i: "i \<noteq> 0" and C: "Joint_IDs C \<noteq> {||}" and el: "election_inv B C R S"
    and s: "applyConfChange cc (R i) = Inr (r', cs)" and same: "cfgVoters (trkConfig (r_trk r')) = C"
  shows "\<exists>H'. H \<subseteq> H' \<and> log_inv B C H' (R(i := r')) S"
proof -
  have n: "settled B (R i)" "role_ok (R i)" using el i by (simp_all add: election_inv_def node_inv_def)
  obtain cfg trk where sw: "switchToConfig cfg trk (R i) = Inr (r', cs)" using applyConfChange_switch [OF s] .
  note sel = switchToConfig_role [OF sw n(2)]
  show ?thesis
    by (rule log_inv_step [OF inv i C el election_inv_conf [OF el i s same], where m = zeroMessage])
      (use sel(3,5) conf_log [OF s n(1)] in \<open>auto simp: aged_def\<close>)
qed

text \<open>Changes that the histories do not see.\<close>

lemma log_inv_unseen:
  assumes inv: "log_inv B C H R S" and i: "i \<noteq> 0" and S: "S \<subseteq> S'" "\<forall>m \<in> S'. m \<in> S \<or> m \<in> queued (R i)"
    and r': "ulog r' = ulog (R i)" "r_Term r' = r_Term (R i)" "r_state r' = r_state (R i)" "queued r' \<subseteq> queued (R i)"
  shows "log_inv B C H (R(i := r')) S'"
proof -
  have n: "node_logs B H (R j)" if "j \<noteq> 0" for j using inv that by (simp add: log_inv_def)
  have "led C (R(i := r')) S' t" if "led C R S t" for t
    by (rule led_mono [OF led_step [where i = i and R = R, OF that] S(1)]) (simp_all add: r' aged_def)
  moreover have "node_logs B H r'" using n [OF i] r' by (auto simp: node_logs_def)
  moreover have "\<forall>m \<in> S'. traced H m" using inv n [OF i] S(2) by (auto simp: log_inv_def node_logs_def)
  ultimately show ?thesis using inv by (simp add: log_inv_def)
qed

lemma log_inv_steps:
  assumes "go_foldl (\<lambda>r m. go_bind (Step m r) (\<lambda>(r, _). Inr r)) r ms = Inr r'"
    and "election_inv B C (R(i := r)) S" and "log_inv B C H (R(i := r)) S" and "i \<noteq> 0" and "Joint_IDs C \<noteq> {||}"
    and "numbers_left ms r" and "\<forall>m \<in> set ms. m \<in> S \<and> mTo m = i"
  shows "\<exists>H'. H \<subseteq> H' \<and> log_inv B C H' (R(i := r')) S"
  using assms
proof (induction ms arbitrary: r H)
  case (Cons m ms)
  then obtain s e where s: "Step m r = Inr (s, e)"
      and rest: "go_foldl (\<lambda>r m. go_bind (Step m r) (\<lambda>(r, _). Inr r)) s ms = Inr r'" by auto
  have snd: "sound_msg (of_nat (length B)) m" using Cons.prems(2,7) by (simp add: election_inv_def)
  have left: "numbers_left [m] r" "numbers_left ms s" using Cons.prems(6) s
    by (cases ms; simp)+
  have tr: "traced H m" using Cons.prems(3,7) by (simp add: log_inv_def)
  have "election_inv B C ((R(i := r))(i := s)) S"
    by (rule election_inv_Step [OF Cons.prems(2,4) _ snd]) (use s Cons.prems(6,7) in auto)
  moreover have "\<exists>H'. H \<subseteq> H' \<and> log_inv B C H' ((R(i := r))(i := s)) S"
    by (rule log_inv_Step [OF Cons.prems(3-5,2) _ snd _ tr]) (use s left(1) Cons.prems(7) in simp_all)
  ultimately obtain H1 where H1: "H \<subseteq> H1" "election_inv B C (R(i := s)) S" "log_inv B C H1 (R(i := s)) S" by auto
  have "\<forall>m \<in> set ms. m \<in> S \<and> mTo m = i" using Cons.prems(7) by simp
  from Cons.IH [OF rest H1(2,3) Cons.prems(4,5) left(2) this] H1(1) show ?case by (blast intro: order_trans)
qed auto

section \<open>The cluster takes a step\<close>

definition matching :: "Entry list \<Rightarrow> JointConfig \<Rightarrow> cluster \<Rightarrow> bool" where
  "matching B C c \<longleftrightarrow> (\<exists>H. log_inv B C H (raft_of c) (cl_sent c))"

lemma matching_put:
  assumes inv: "cluster_inv B C c" and i: "i \<noteq> 0" and h: "handed out = []"
    and s: "set (rn_stepsOnAdvance (n_rn n)) \<subseteq> set (rn_stepsOnAdvance (n_rn (cl_nodes c i)))"
    and l: "\<exists>H'. H \<subseteq> H' \<and> log_inv B C H' ((raft_of c)(i := rn_raft (n_rn n))) (cl_sent c)"
  shows "matching B C (put_node i n out c)"
proof -
  have "set (rn_stepsOnAdvance (n_rn (cl_nodes c i))) \<subseteq> cl_sent c" using inv i by (auto simp: cluster_inv_def)
  then have "cl_sent (put_node i n out c) = cl_sent c" using h s by (auto simp: put_node_def)
  then show ?thesis using l unfolding matching_def raft_of_put by auto
qed

lemma matching_event:
  assumes inv: "cluster_inv B C c" and mt: "matching B C c" and C: "Joint_IDs C \<noteq> {||}" and i: "i \<noteq> 0"
    and top: "loop_top (cl_nodes c i) = Inr n1" and en: "enabled ev n1" and ev: "loop_event ev n1 = Inr (n, out)"
    and ok: "(\<And>cc. ev \<noteq> EvConf cc) \<Longrightarrow> allowed c i ev \<and> numbers_left (stepped ev (cl_nodes c i)) (raft_of c i)"
    and same: "\<And>cc. ev = EvConf cc \<Longrightarrow> cfgVoters (trkConfig (r_trk (rn_raft (n_rn n)))) = C"
  shows "matching B C (put_node i n out c)"
proof -
  obtain H where H: "log_inv B C H (raft_of c) (cl_sent c)" using mt unfolding matching_def by blast
  have el: "election_inv B C (raft_of c) (cl_sent c)" and net: "cl_net c \<subseteq> cl_sent c"
    and st: "\<forall>m \<in> set (rn_stepsOnAdvance (n_rn (cl_nodes c i))). m \<in> cl_sent c \<and> mTo m = i"
    and off: "offers B (cl_nodes c i)"
    using inv i by (simp_all add: cluster_inv_def)
  have r: "rn_raft (n_rn (cl_nodes c i)) = raft_of c i" by (simp add: raft_of_def)
  note put = matching_put [OF inv i]
  show ?thesis
    using top en ev
  proof (cases rule: event_cases)
    case idle
    have "log_inv B C H ((raft_of c)(i := rn_raft (n_rn n))) (cl_sent c)" using H idle(1) r by simp
    then show ?thesis using idle by (intro put) auto
  next
    case (step m e)
    have "sound_msg (of_nat (length B)) m \<and> traced H m \<and> (mType m = MsgVoteResp \<longrightarrow> m \<in> cl_sent c \<and> mTo m = i)"
      using step(3)
    proof
      assume e: "ev = EvRecv m"
      consider "m \<in> cl_sent c" "mTo m = i" | "local_input m" using ok e net by fastforce
      then show ?thesis
        using el H local_input_type [of m] by cases (auto simp: election_inv_def log_inv_def traced_def intro: sound_other)
    next
      assume "\<exists>pm. ev = EvProp pm \<and> mType m = mType (pm_m pm)"
      then have "mType m = MsgProp" using ok by auto
      then show ?thesis by (auto simp: traced_def intro: sound_other)
    qed
    moreover have "numbers_left [m] (raft_of c i)" using step(1,3) ok by fastforce
    ultimately have "\<exists>H'. H \<subseteq> H' \<and> log_inv B C H' ((raft_of c)(i := rn_raft (n_rn n))) (cl_sent c)"
      using step(2) r by (intro log_inv_Step [OF H i C el, where m = m and e = e]) auto
    then show ?thesis using step by (intro put) auto
  next
    case tick
    have "r_Term (raft_of c i) \<noteq> - 1" using ok tick(1) by simp
    then show ?thesis using log_inv_tick [OF H i C el] tick r by (intro put) auto
  next
    case ready
    have st': "settled B (rn_raft (n_rn (cl_nodes c i)))" using el i r by (simp add: election_inv_def node_inv_def)
    have "set (rdMessages (n_rd n1)) \<subseteq> queued (raft_of c i)"
      using loop_top_offers [OF top off st'] ready(1) loop_top_sel [OF top] r by (simp add: offers_def)
    then have "\<forall>m \<in> cl_sent (put_node i n out c). m \<in> cl_sent c \<or> m \<in> queued (raft_of c i)"
      using ready(2,4) st r by (auto simp: put_node_def)
    then have "log_inv B C H ((raft_of c)(i := rn_raft (n_rn n))) (cl_sent (put_node i n out c))"
      using ready(3) r by (intro log_inv_unseen [OF H i]) (auto simp: put_node_def)
    then show ?thesis unfolding matching_def raft_of_put by blast
  next
    case advance
    have "\<exists>H'. H \<subseteq> H' \<and> log_inv B C H' ((raft_of c)(i := rn_raft (n_rn n))) (cl_sent c)"
      using advance(1) ok st r el H by (intro log_inv_steps [OF advance(2) _ _ i C]) simp_all
    then show ?thesis using advance by (intro put) auto
  next
    case (conf cc cs)
    have "\<exists>H'. H \<subseteq> H' \<and> log_inv B C H' ((raft_of c)(i := rn_raft (n_rn n))) (cl_sent c)"
      using log_inv_conf [OF H i C el _ same [OF conf(1)]] conf(2) r by simp
    then show ?thesis using conf by (intro put) auto
  qed
qed

lemma matching_step:
  assumes "cluster_step C c c'" and inv: "cluster_inv B C c" and mt: "matching B C c" and C: "Joint_IDs C \<noteq> {||}"
  shows "matching B C c'"
  using assms(1)
proof (cases rule: cluster_step.cases)
  case (event i ev out n)
  from event(3) show ?thesis unfolding event(1)
    by (elim loop_stepE) (rule matching_event [OF inv mt C event(2)], (use event(4,5) in auto))
next
  case (conf i cc out n)
  from conf(3) show ?thesis unfolding conf(1)
    by (elim loop_stepE) (rule matching_event [OF inv mt C conf(2)], (use conf(4) in auto))
next
  case (store i r es st)
  obtain H where H: "log_inv B C H (raft_of c) (cl_sent c)" using mt unfolding matching_def by blast
  let ?n = "set_raft (r\<lparr>r_raftLog := (r_raftLog r)\<lparr>l_storage := st\<rparr>\<rparr>) (cl_nodes c i)"
  have "log_inv B C H ((raft_of c)(i := rn_raft (n_rn ?n))) (cl_sent c)"
    using store(3) by (intro log_inv_unseen [OF H store(2)]) (auto simp: set_raft_def)
  then show ?thesis unfolding store(1) by (intro matching_put [OF inv store(2)]) (auto simp: set_raft_def)
next
  case (clock i n)
  obtain H where H: "log_inv B C H (raft_of c) (cl_sent c)" using mt unfolding matching_def by blast
  have n: "n_rn n = n_rn (cl_nodes c i)" using clock(3) by (auto elim: node_Tick.cases)
  have "log_inv B C H ((raft_of c)(i := rn_raft (n_rn n))) (cl_sent c)"
    by (intro log_inv_unseen [OF H clock(2)]) (auto simp: n raft_of_def)
  then show ?thesis unfolding clock(1) using n by (intro matching_put [OF inv clock(2)]) auto
qed

lemma matching_initial:
  assumes "initial B C c"
  shows "matching B C c"
proof -
  have "node_logs B {B} (raft_of c i)" if "i \<noteq> 0" for i
  proof -
    have r: "ulog (raft_of c i) = B" "r_state (raft_of c i) = StateFollower" "queued (raft_of c i) = {}"
      using assms that by (simp_all add: initial_def fresh_node_def raft_of_def Let_def)
    have "\<exists>n. ulog (raft_of c i) = take n B" using r(1) by (intro exI [of _ "length B"]) simp
    then show ?thesis using r(2,3) by (simp add: node_logs_def)
  qed
  then have "log_inv B C {B} (raft_of c) (cl_sent c)"
    using assms by (auto simp: log_inv_def initial_def)
  then show ?thesis unfolding matching_def by blast
qed

lemma reachable_matching: "\<lbrakk>reachable B C c; Joint_IDs C \<noteq> {||}\<rbrakk> \<Longrightarrow> matching B C c"
  by (induction rule: reachable.induct) (auto intro: matching_initial matching_step reachable_inv)

lemma reachable_logs_agree:
  assumes "reachable B C c" and "Joint_IDs C \<noteq> {||}" and "i \<noteq> 0" and "j \<noteq> 0"
  shows "agree (ulog (raft_of c i)) (ulog (raft_of c j))"
proof -
  obtain H where H: "log_inv B C H (raft_of c) (cl_sent c)"
    using reachable_matching [OF assms(1,2)] unfolding matching_def by blast
  then have n: "node_logs B H (raft_of c i)" "node_logs B H (raft_of c j)" using assms(3,4) by (simp_all add: log_inv_def)
  obtain U m where u: "U \<in> H" "ulog (raft_of c i) = take m U" using n(1) unfolding node_logs_def by blast
  obtain V n where v: "V \<in> H" "ulog (raft_of c j) = take n V" using n(2) unfolding node_logs_def by blast
  have "agree U V" using H u(1) v(1) unfolding log_inv_def by blast
  then have "agree V (take m U)" by (intro agree_sym [OF agree_take])
  then have "agree (take n V) (take m U)" by (rule agree_take)
  then show ?thesis unfolding u v by (rule agree_sym)
qed

text \<open>The leader's log holds every entry of its own term that any node's log holds.\<close>

lemma reachable_leader_holds:
  assumes "reachable B C c" and "Joint_IDs C \<noteq> {||}" and "i \<noteq> 0" and "j \<noteq> 0" and "r_state (raft_of c i) = StateLeader"
  shows "holds_term (length B) (r_Term (raft_of c i)) (ulog (raft_of c i)) (ulog (raft_of c j))"
proof -
  obtain H where H: "log_inv B C H (raft_of c) (cl_sent c)"
    using reachable_matching [OF assms(1,2)] unfolding matching_def by blast
  then have "node_logs B H (raft_of c i)" "node_logs B H (raft_of c j)" using assms(3,4) by (simp_all add: log_inv_def)
  then obtain V n where "V \<in> H" "ulog (raft_of c j) = take n V"
      "\<forall>V \<in> H. holds_term (length B) (r_Term (raft_of c i)) (ulog (raft_of c i)) V"
    using assms(5) unfolding node_logs_def by blast
  then show ?thesis unfolding holds_term_def by auto
qed

end
