(* ===== verification/Server_System.thy ===== *)
theory Server_System
  imports Cluster_Start Raft_Matching
begin

text \<open>
  The whole program: the servers that \<open>startRaft\<close> of \<open>src/kv/raftNode.go\<close> starts for one list of addresses,
  each with its serving loop, the run loop of its raft node and its key-value store, joined by a network
  that loses, repeats and reorders messages.  Their clients may propose at any time.

  Every run of the servers is a run of the nodes of \<open>Raft_Cluster\<close>: the only configuration changes a
  server ever applies are those \<open>Bootstrap\<close> put into its log, and they add voters that are voters already,
  so the assumption of fixed voters holds by itself.
\<close>

section \<open>The bootstrap entries as configuration changes\<close>

text \<open>An entry that adds a voter of \<open>C\<close> and nothing else.\<close>

definition adds_voter :: "JointConfig \<Rightarrow> Entry \<Rightarrow> bool" where
  "adds_voter C e \<longleftrightarrow> eType e = EntryConfChange \<and> ccType (entry_change e) = ConfChangeAddNode \<and>
     ccContext (entry_change e) = None \<and> ccNodeID (entry_change e) |\<in>| ids_of (fst C)"

lemma adds_voter_type: "adds_voter C e \<Longrightarrow> eType e = EntryConfChange"
  by (simp add: adds_voter_def)

lemma bit_len_le: "n < 2 ^ k \<Longrightarrow> bit_len n \<le> k"
proof (induction k arbitrary: n)
  case 0
  then show ?case by (simp add: bit_len.simps)
next
  case (Suc k)
  then have "n div 2 < 2 ^ k" by simp
  from Suc.IH [OF this] show ?case by (subst bit_len.simps) simp
qed

lemma sovRaft_le: "sovRaft v \<le> 10"
proof -
  have "unat (v OR 1) < 2 ^ 64" using unsigned_less [of "v OR 1"] by simp
  then have "bit_len (unat (v OR 1)) \<le> 64" by (rule bit_len_le)
  then show ?thesis by (simp add: sovRaft_def Len64_def)
qed

lemma bootstrap_entry_adds:
  assumes "bootstrap_entry k p = Inr e" and "peerContext p = None" and "peerID p |\<in>| ids_of (fst C)"
  shows "adds_voter C e"
proof -
  let ?cc = "zeroConfChange\<lparr>ccType := ConfChangeAddNode, ccNodeID := peerID p, ccContext := peerContext p\<rparr>"
  have "ConfChange_Size ?cc \<le> 33"
    using sovRaft_le [of "ccID ?cc"] sovRaft_le [of "scast (ccType ?cc)"] sovRaft_le [of "ccNodeID ?cc"]
    by (simp add: ConfChange_Size_def assms(2))
  then have u: "ConfChange_Unmarshal zeroConfChange (ConfChange_bytes ?cc) = (?cc, None)"
    by (intro confchange.reader_bytes) simp
  have "eData e = Some (ConfChange_bytes ?cc)" "eType e = EntryConfChange"
    using assms(1) by (auto simp: bootstrap_entry_def ConfChange_Marshal_def confchange.marshal)
  then show ?thesis using u assms(2,3)
    by (simp add: adds_voter_def entry_change_def entry_data_def del: EntryConfChange_def ConfChangeAddNode_def)
qed

lemma bootstrap_entries_add:
  assumes "bootstrap_entries k ps = Inr es" and "\<forall>p \<in> set ps. peerContext p = None \<and> peerID p |\<in>| ids_of (fst C)"
  shows "\<forall>e \<in> set es. adds_voter C e"
  using assms by (induction ps arbitrary: k es) (auto dest: bootstrap_entry_adds)

lemma start_entries_add: "\<forall>e \<in> set (start_entries peers). adds_voter (start_voters peers) e"
proof -
  have "\<forall>p \<in> set (start_peers peers). peerContext p = None \<and> peerID p |\<in>| ids_of (fst (start_voters peers))"
    by (auto simp: start_peers_def start_voters_def fset_of_list_elem)
  from bootstrap_entries_add [OF _ this, of 0] show ?thesis
    by (cases "bootstrap_entries 0 (start_peers peers)") (simp_all add: start_entries_def)
qed

lemma length_start_entries: "length (start_entries peers) = length peers"
  using bootstrap_entries_total [of 0 "start_peers peers"] by (auto simp: start_entries_def start_peers_def)

lemma window_subset: "window B es \<Longrightarrow> set es \<subseteq> set B"
  by (auto simp: window_def dest: in_set_takeD in_set_dropD)

text \<open>Adding a voter again changes no voter.\<close>

lemma readd_voter:
  assumes "applyConfChange (AsV2 (CCV1 cc)) r = Inr (r', cs)" and "role_ok r"
    and "ccType cc = ConfChangeAddNode" and "ccNodeID cc |\<in>| S" and "cfgVoters (trkConfig (r_trk r)) = (Some S, None)"
  shows "cfgVoters (trkConfig (r_trk r')) = (Some S, None)"
proof -
  from assms(1) obtain li res where res: "Simple \<lparr>chTracker = r_trk r, LastIndex = li\<rparr> (cc2Changes (AsV2 (CCV1 cc))) = Inr res"
    and sw: "(case res of
         Inl e \<Rightarrow> Inl (ExplicitPanic ''configuration change error'')
       | Inr (cfg, trk) \<Rightarrow> switchToConfig cfg trk r) = Inr (r', cs)"
    unfolding applyConfChange_def go_bind_eq_Inr by (elim exE conjE) (rule that)
  then obtain cfg trk where c: "res = Inr (cfg, trk)" "switchToConfig cfg trk r = Inr (r', cs)"
    by (cases res) auto
  have "finsert (ccNodeID cc) S = S" using assms(4) by auto
  then have "cfgVoters cfg = (Some S, None)"
    using res c(1) assms(3,5)
    by (auto simp: Simple_unfold ConfChange_AsV2_def joint_config_def incoming_def outgoing_def makeVoter_def
        initProgress_def set_insert_def Config_Clone_def Let_def split: if_splits option.splits)
  then show ?thesis using switchToConfig_role(4) [OF c(2) assms(2)] by simp
qed

section \<open>The servers\<close>

record 'e servers =
  sv_srv :: "uint64 \<Rightarrow> 'e raftNode \<times> serve_pc"
  sv_net :: "Message set"
  sv_leaders :: "(uint64 \<times> uint64) set"

definition node_of :: "'e servers \<Rightarrow> uint64 \<Rightarrow> node" where
  "node_of s i = rs_node (fst (sv_srv s i))"

text \<open>A step of one server: one of its serving loop, its run loop serving another caller, or its other goroutines
  closing \<open>stopc\<close> or ending the HTTP server (\<open>server_step\<close> of \<open>Kv_Main\<close> has them one by one).  A step that panics
  ends the process.\<close>

inductive local_step :: "'e raftNode \<times> serve_pc \<Rightarrow> serve_label \<Rightarrow> 'e raftNode \<times> serve_pc \<Rightarrow> bool" where
  serving: "serve_step x lab (Inr y) \<Longrightarrow> local_step x lab y"
| elsewhere: "\<lbrakk>loop_step (rs_node rn) ev out n; ev \<noteq> EvReady; ev \<noteq> EvAdvance; ev \<noteq> EvStop\<rbrakk> \<Longrightarrow>
    local_step (rn, pc) (Loop ev) (rn\<lparr>rs_node := n\<rparr>, pc)"
| channels: "local_step (rn, pc) Silent (rn\<lparr>rs_stopc := b, rs_httpdonec := d\<rparr>, pc)"

text \<open>What may reach the run loop of server \<open>i\<close>: what its serving loop calls for, a message from the network, a
  message the server itself makes, a proposal of a client or one forwarded by another server, the clock,
  a question for the status; and neither terms nor log indices run out.\<close>

fun may_happen :: "Message set \<Rightarrow> node \<Rightarrow> uint64 \<Rightarrow> serve_label \<Rightarrow> bool" where
  "may_happen net n i (Call ev) \<longleftrightarrow> numbers_left (stepped ev n) (rn_raft (n_rn n))"
| "may_happen net n i (Loop ev) \<longleftrightarrow>
     (case ev of
        EvRecv m \<Rightarrow> m \<in> net \<and> mTo m = i \<or> local_input m
      | EvProp pm \<Rightarrow> mType (pm_m pm) = MsgProp
      | EvConf cc \<Rightarrow> False
      | _ \<Rightarrow> True) \<and>
     numbers_left (stepped ev n) (rn_raft (n_rn n))"
| "may_happen net n i _ \<longleftrightarrow> True"

fun sent_by :: "serve_label \<Rightarrow> Message list" where
  "sent_by (Gave m) = [m]"
| "sent_by _ = []"

definition put_server :: "uint64 \<Rightarrow> 'e raftNode \<times> serve_pc \<Rightarrow> Message list \<Rightarrow> 'e servers \<Rightarrow> 'e servers" where
  "put_server i x ms s =
     (let r = rn_raft (n_rn (rs_node (fst x))) in
      s\<lparr>sv_srv := (sv_srv s)(i := x), sv_net := sv_net s \<union> set ms,
        sv_leaders := sv_leaders s \<union> (if r_state r = StateLeader then {(r_Term r, i)} else {})\<rparr>)"

inductive servers_step :: "nat \<Rightarrow> 'e servers \<Rightarrow> 'e servers \<Rightarrow> bool" for N where
  serve: "\<lbrakk>0 < k; k \<le> N; i = of_nat k; local_step (sv_srv s i) lab x; may_happen (sv_net s) (node_of s i) i lab\<rbrakk> \<Longrightarrow>
    servers_step N s (put_server i x (sent_by lab) s)"

definition servers_start :: "(string \<Rightarrow> 'e + URL) \<Rightarrow> (URL \<Rightarrow> string) \<Rightarrow> string list \<Rightarrow> 'e servers \<Rightarrow> bool" where
  "servers_start parse show peers s \<longleftrightarrow>
     (\<forall>k. 0 < k \<and> k \<le> length peers \<longrightarrow>
        (\<exists>rnd resolves rn. startRaft rnd resolves parse show (int k) peers False = Inr rn \<and>
           sv_srv s (of_nat k) = (rn, Selecting))) \<and>
     sv_net s = {} \<and> sv_leaders s = {}"

section \<open>The servers as a cluster of nodes\<close>

lemma reachable_steps: "\<lbrakk>(cluster_step C)\<^sup>*\<^sup>* c c'; reachable B C c\<rbrakk> \<Longrightarrow> reachable B C c'"
  by (induction rule: rtranclp_induct) (auto intro: reachable.step)

lemma reachable_node:
  assumes "reachable B C c" and "i \<noteq> 0"
  shows "node_inv B C (cl_sent c) i (raft_of c i)"
  using reachable_inv [OF assms(1)] assms(2) by (simp add: cluster_inv_def election_inv_def)

text \<open>A node that is leader has been recorded as one.\<close>

lemma leader_recorded:
  "\<lbrakk>reachable B C c; i \<noteq> 0; r_state (raft_of c i) = StateLeader\<rbrakk> \<Longrightarrow> (r_Term (raft_of c i), i) \<in> cl_leaders c"
proof (induction arbitrary: i rule: reachable.induct)
  case (init c)
  then show ?case by (simp add: initial_def fresh_node_def raft_of_def Let_def)
next
  case (step c c')
  from step.hyps(2) obtain j n out where c': "c' = put_node j n out c"
    by (auto elim!: cluster_step.cases)
  show ?case
  proof (cases "i = j")
    case True
    then show ?thesis using step.prems by (simp add: c' put_node_def raft_of_def)
  next
    case False
    then have "(r_Term (raft_of c i), i) \<in> cl_leaders c" using step.IH [OF step.prems(1)] step.prems(2) by (simp add: c')
    then show ?thesis using False by (simp add: c' put_node_def raft_of_def)
  qed
qed

text \<open>\<open>follows c i n ms c'\<close>: the cluster can go from \<open>c\<close> to \<open>c'\<close>, in which node \<open>i\<close> is \<open>n\<close> and \<open>ms\<close> has been sent.\<close>

definition follows :: "JointConfig \<Rightarrow> cluster \<Rightarrow> uint64 \<Rightarrow> node \<Rightarrow> Message list \<Rightarrow> cluster \<Rightarrow> bool" where
  "follows C c i n ms c' \<longleftrightarrow> (cluster_step C)\<^sup>*\<^sup>* c c' \<and> cl_nodes c' = (cl_nodes c)(i := n) \<and>
     cl_net c \<union> set ms \<subseteq> cl_net c' \<and> cl_leaders c \<subseteq> cl_leaders c'"

lemma follows_same: "follows C c i (cl_nodes c i) [] c"
  by (simp add: follows_def)

lemma follows_step: "cluster_step C c (put_node i n out c) \<Longrightarrow> follows C c i n (handed out) (put_node i n out c)"
  by (auto simp: follows_def put_node_def)

lemma follows_trans:
  assumes "follows C c i n ms c1" and "follows C c1 i n' ms' c2"
  shows "follows C c i n' (ms @ ms') c2"
  using assms unfolding follows_def by auto

section \<open>What the serving loop is at\<close>

text \<open>The messages and entries it still has to deal with: the messages are on the network, the entries are of
  \<open>Bootstrap\<close>, so there are no data to hand over.\<close>

fun pc_ok :: "JointConfig \<Rightarrow> Message set \<Rightarrow> serve_pc \<Rightarrow> bool" where
  "pc_ok C net (Storing rd) \<longleftrightarrow> set (rdMessages rd) \<subseteq> net \<and> (\<forall>e \<in> set (rdCommittedEntries rd). adds_voter C e)"
| "pc_ok C net (Sending is ms ces) \<longleftrightarrow> set ms \<subseteq> net \<and> (\<forall>e \<in> set ces. adds_voter C e)"
| "pc_ok C net (Publishing es data li) \<longleftrightarrow> data = [] \<and> (\<forall>e \<in> set es. adds_voter C e)"
| "pc_ok C net (Committing data ch li) \<longleftrightarrow> False"
| "pc_ok C net _ \<longleftrightarrow> True"

lemma pc_ok_mono: "\<lbrakk>pc_ok C net pc; net \<subseteq> net'\<rbrakk> \<Longrightarrow> pc_ok C net' pc"
  by (cases "(C, net, pc)" rule: pc_ok.cases) auto

lemma entriesToApply_all: "\<lbrakk>entriesToApply ents i = Inr new; \<forall>e \<in> set ents. P e\<rbrakk> \<Longrightarrow> \<forall>e \<in> set new. P e"
  by (auto simp: entriesToApply_def go_slice_def Let_def split: if_splits dest: in_set_takeD in_set_dropD)

lemma processMessages_same: "\<forall>m \<in> set ms. mType m \<noteq> MsgSnap \<Longrightarrow> processMessages cs ms = Inr ms"
  by (induction ms) (simp_all del: MsgSnap_def)

text \<open>What a step of a server comes to: the cluster can follow it, nothing has been committed by the store, and
  the serving loop is at something it may be at.\<close>

definition served_by :: "JointConfig \<Rightarrow> cluster \<Rightarrow> uint64 \<Rightarrow> 'e raftNode \<times> serve_pc \<Rightarrow> Message list \<Rightarrow> bool" where
  "served_by C c i x ms \<longleftrightarrow> rs_commitC (fst x) = [] \<and>
     (\<exists>c'. follows C c i (rs_node (fst x)) ms c' \<and> pc_ok C (cl_net c') (snd x))"

lemma served_same:
  "\<lbrakk>cl_nodes c i = rs_node (fst x); rs_commitC (fst x) = []; pc_ok C (cl_net c) (snd x)\<rbrakk> \<Longrightarrow> served_by C c i x []"
  unfolding served_by_def using follows_same [of C c i] by metis

lemma served_step:
  assumes "cluster_step C c (put_node i n out c)" and "rs_node (fst x) = n" and "rs_commitC (fst x) = []"
    and "pc_ok C (cl_net (put_node i n out c)) (snd x)" and "set ms \<subseteq> cl_net c \<union> set (handed out)"
  shows "served_by C c i x ms"
proof -
  have "follows C c i n ms (put_node i n out c)"
    using follows_step [OF assms(1)] assms(5) by (auto simp: follows_def put_node_def)
  then show ?thesis using assms(2-4) by (auto simp: served_by_def)
qed

text \<open>Taking a \<open>Ready\<close> and storing it.\<close>

lemma ready_served:
  assumes c: "reachable B C c" "i \<noteq> 0" "cl_nodes c i = rs_node rn" and B: "\<forall>e \<in> set B. adds_voter C e"
    and l: "loop_step (rs_node rn) EvReady (OutReady rd) n" and t: "numbers_left (stepped EvReady (rs_node rn)) (raft_of c i)"
    and co: "rs_commitC rn = []"
  shows "served_by C c i (rn\<lparr>rs_node := n\<rparr>, Storing rd) []"
proof (rule served_step)
  show "cluster_step C c (put_node i n (OutReady rd) c)"
    by (rule cluster_step.event [OF c(2), where ev = EvReady]) (use l t c(3) in simp_all)
  have "window B (rdCommittedEntries rd)" using ready_window [OF reachable_inv [OF c(1)] c(2)] l c(3) by simp
  then show "pc_ok C (cl_net (put_node i n (OutReady rd) c)) (snd (rn\<lparr>rs_node := n\<rparr>, Storing rd))"
    using B window_subset by (auto simp: put_node_def)
qed (use co in simp_all)

lemma store_served:
  assumes c: "reachable B C c" "i \<noteq> 0" "cl_nodes c i = rs_node rn" and st: "store_ready rd rn = Inr x"
    and ok: "pc_ok C (cl_net c) (Storing rd)" and co: "rs_commitC rn = []"
  shows "served_by C c i x []"
proof -
  have "\<forall>m \<in> cl_net c. sound_msg (of_nat (length B)) m"
    using reachable_inv [OF c(1)] by (auto simp: cluster_inv_def election_inv_def)
  then have "\<forall>m \<in> set (rdMessages rd). mType m \<noteq> MsgSnap" using ok by (auto simp: sound_msg_def)
  then have pm: "processMessages (rs_confState rn) (rdMessages rd) = Inr (rdMessages rd)" by (rule processMessages_same)
  obtain st' where st': "Storage_Append (rdEntries rd) (l_storage (r_raftLog (raft_of c i))) = Inr st'"
      "x = (rn\<lparr>rs_node := set_raft ((raft_of c i)\<lparr>r_raftLog := (r_raftLog (raft_of c i))\<lparr>l_storage := st'\<rparr>\<rparr>) (cl_nodes c i)\<rparr>,
        Sending [] (rdMessages rd) (rdCommittedEntries rd))"
    using st c(3) pm by (auto simp: store_ready_def on_raft_def raft_of_def)
  show ?thesis unfolding st'(2)
    by (rule served_step [OF cluster_step.store [OF c(2) refl st'(1)]]) (use co ok in \<open>auto simp: put_node_def\<close>)
qed

text \<open>Applying an entry of \<open>Bootstrap\<close>.\<close>

lemma configured_adds:
  assumes "adds_voter C e"
  shows "configured (entry_change e) cs es data li rn = Inr (rn\<lparr>rs_confState := cs\<rparr>, Publishing es data li)"
  using assms by (simp add: configured_def adds_voter_def Let_def del: ConfChangeAddNode_def EntryConfChange_def)

lemma apply_served:
  assumes c: "reachable B C c" "i \<noteq> 0" "cl_nodes c i = rs_node rn" and C: "C = (Some S, None)"
    and l: "loop_step (rs_node rn) (node_ApplyConfChange (entry_change e)) (OutConf cs) n"
    and ok: "pc_ok C (cl_net c) (Publishing (e # es) data li)" and co: "rs_commitC rn = []"
  shows "served_by C c i (rn\<lparr>rs_node := n, rs_confState := cs\<rparr>, Publishing es data li) []"
proof -
  have e: "ccType (entry_change e) = ConfChangeAddNode" "ccNodeID (entry_change e) |\<in>| S"
    using ok C by (simp_all add: adds_voter_def del: ConfChangeAddNode_def EntryConfChange_def)
  define cc where "cc = entry_change e"
  have s: "loop_step (cl_nodes c i) (EvConf (AsV2 (CCV1 cc))) (OutConf cs) n"
    using l c(3) by (simp add: cc_def node_ApplyConfChange_def)
  then obtain n1 where top: "loop_top (cl_nodes c i) = Inr n1"
      and ev: "loop_event (EvConf (AsV2 (CCV1 cc))) n1 = Inr (n, OutConf cs)"
    by (cases rule: loop_step.cases) blast
  obtain r' cs' where ap: "applyConfChange (AsV2 (CCV1 cc)) (raft_of c i) = Inr (r', cs')" "rn_raft (n_rn n) = r'"
    using ev loop_top_sel(1) [OF top] by (auto simp: Let_def set_raft_def raft_of_def simp del: AsV2.simps split: if_splits)
  have inv: "role_ok (raft_of c i)" "cfgVoters (trkConfig (r_trk (raft_of c i))) = (Some S, None)"
    using reachable_node [OF c(1,2)] C by (simp_all add: node_inv_def)
  have "cfgVoters (trkConfig (r_trk (rn_raft (n_rn n)))) = C"
    using readd_voter [OF ap(1) inv(1) e [folded cc_def] inv(2)] ap(2) C by simp
  then have "cluster_step C c (put_node i n (OutConf cs) c)" using s c(2) by (intro cluster_step.conf)
  then show ?thesis by (rule served_step) (use co ok in simp_all)
qed

text \<open>The steps of the serving loop that need no partner.\<close>

lemma local_served:
  assumes c: "reachable B C c" "i \<noteq> 0" "cl_nodes c i = rs_node rn" and a: "serve_local rn pc = Some (Inr x)"
    and ok: "pc_ok C (cl_net c) pc" and co: "rs_commitC rn = []"
  shows "served_by C c i x []"
proof (cases "\<exists>rd. pc = Storing rd")
  case True
  then show ?thesis using store_served [OF c, of _ x] a ok co by auto
next
  case False
  then have "rs_node (fst x) = rs_node rn \<and> rs_commitC (fst x) = [] \<and> pc_ok C (cl_net c) (snd x)"
    using a ok co
    by (cases "(rn, pc)" rule: serve_local.cases)
      (auto simp: begin_publish_def end_publish_def adds_voter_type dest: entriesToApply_all split: if_splits)
  then show ?thesis using served_same c(3) by metis
qed

section \<open>Every run of the servers is one of the cluster\<close>

definition matches :: "string list \<Rightarrow> 'e servers \<Rightarrow> cluster \<Rightarrow> bool" where
  "matches peers s c \<longleftrightarrow> reachable (start_entries peers) (start_voters peers) c \<and>
     sv_net s \<subseteq> cl_net c \<and> sv_leaders s \<subseteq> cl_leaders c \<and>
     (\<forall>k. 0 < k \<and> k \<le> length peers \<longrightarrow> cl_nodes c (of_nat k) = node_of s (of_nat k) \<and>
        rs_commitC (fst (sv_srv s (of_nat k))) = [] \<and>
        pc_ok (start_voters peers) (cl_net c) (snd (sv_srv s (of_nat k))))"

lemma fresh_clone:
  "\<lbrakk>fresh_node B C j n; i \<noteq> 0\<rbrakk> \<Longrightarrow>
     fresh_node B C i (newNode ((n_rn n)\<lparr>rn_raft := (rn_raft (n_rn n))\<lparr>r_id := i\<rparr>\<rparr>))"
  by (simp add: fresh_node_def newNode_def settled_def role_ok_def Let_def)

lemma start_matches:
  assumes "servers_start parse show peers s" and "peers \<noteq> []" and "length peers < 2 ^ 62"
  shows "\<exists>c. matches peers s c"
proof -
  let ?B = "start_entries peers" and ?C = "start_voters peers"
  have srv: "fresh_node ?B ?C (of_nat k) (node_of s (of_nat k)) \<and> rs_commitC (fst (sv_srv s (of_nat k))) = [] \<and>
      snd (sv_srv s (of_nat k)) = Selecting"
    if k: "0 < k" "k \<le> length peers" for k
  proof -
    obtain rnd resolves rn where rn: "startRaft rnd resolves parse show (int k) peers False = Inr rn"
        "sv_srv s (of_nat k) = (rn, Selecting)"
      using assms(1) k unfolding servers_start_def by blast
    then have "rs_commitC rn = []" by (auto simp: startRaft_def Let_def)
    then show ?thesis using server_node [OF rn(1) k assms(3)] rn(2) by (simp add: node_of_def)
  qed
  define other where "other i = newNode ((n_rn (node_of s 1))\<lparr>rn_raft := (rn_raft (n_rn (node_of s 1)))\<lparr>r_id := i\<rparr>\<rparr>)" for i
  have one: "fresh_node ?B ?C 1 (node_of s 1)" using srv [of 1] assms(2) by (cases peers) simp_all
  define c where "c = \<lparr>cl_nodes = (\<lambda>i. if i \<in> {of_nat k | k. 0 < k \<and> k \<le> length peers} then node_of s i else other i),
    cl_net = {}, cl_sent = {}, cl_leaders = {}\<rparr>"
  have "fresh_node ?B ?C i (cl_nodes c i)" if "i \<noteq> 0" for i
    using srv fresh_clone [OF one that] by (auto simp: c_def other_def)
  then have "reachable ?B ?C c" by (intro reachable.init) (simp add: initial_def c_def)
  moreover have "cl_nodes c (of_nat k) = node_of s (of_nat k)" if "0 < k" "k \<le> length peers" for k
    using that by (auto simp: c_def)
  ultimately have "matches peers s c" using srv assms(1) by (simp add: matches_def servers_start_def)
  then show ?thesis by blast
qed

lemma matches_put:
  assumes m: "matches peers s c" and f: "served_by (start_voters peers) c i x ms" and i: "i \<noteq> 0"
  shows "\<exists>c'. matches peers (put_server i x ms s) c'"
proof -
  obtain c' where f: "follows (start_voters peers) c i (rs_node (fst x)) ms c'" and co: "rs_commitC (fst x) = []"
      and pc: "pc_ok (start_voters peers) (cl_net c') (snd x)"
    using f unfolding served_by_def by blast
  have r: "reachable (start_entries peers) (start_voters peers) c'"
    using m f reachable_steps unfolding matches_def follows_def by blast
  have n: "cl_nodes c' i = rs_node (fst x)" using f by (simp add: follows_def)
  have "(r_Term (rn_raft (n_rn (rs_node (fst x)))), i) \<in> cl_leaders c'"
    if "r_state (rn_raft (n_rn (rs_node (fst x)))) = StateLeader"
    using leader_recorded [OF r i] that n by (simp add: raft_of_def)
  moreover have "cl_net c \<subseteq> cl_net c'" using f by (simp add: follows_def)
  ultimately have "matches peers (put_server i x ms s) c'"
    using m f co r pc pc_ok_mono [OF _ \<open>cl_net c \<subseteq> cl_net c'\<close>]
    by (auto simp: matches_def follows_def put_server_def node_of_def Let_def)
  then show ?thesis by blast
qed

lemma event_served:
  assumes c: "i \<noteq> 0" "cl_nodes c i = rs_node (fst x0)" and l: "loop_step (cl_nodes c i) ev out n" "ev \<noteq> EvReady"
    and a: "allowed c i ev" "numbers_left (stepped ev (cl_nodes c i)) (raft_of c i)"
    and x: "rs_node (fst x) = n" "rs_commitC (fst x) = []" "pc_ok C (cl_net c) (snd x)"
  shows "served_by C c i x []"
proof -
  have "cluster_step C c (put_node i n out c)" by (rule cluster_step.event [OF c(1) l(1) a])
  moreover have "pc_ok C (cl_net (put_node i n out c)) (snd x)" by (rule pc_ok_mono [OF x(3)]) (auto simp: put_node_def)
  ultimately show ?thesis using x by (intro served_step) simp_all
qed

lemma serve_served:
  assumes c: "reachable (start_entries peers) (start_voters peers) c" "i \<noteq> 0" "cl_nodes c i = rs_node rn"
    and st: "serve_step (rn, pc) lab (Inr x)" and ok: "may_happen net (rs_node rn) i lab"
    and pc: "pc_ok (start_voters peers) (cl_net c) pc" and co: "rs_commitC rn = []"
  shows "served_by (start_voters peers) c i x (sent_by lab)"
proof -
  let ?C = "start_voters peers"
  have C: "?C = (Some (fset_of_list (map peerID (start_peers peers))), None)" by (simp add: start_voters_def)
  have ev: "served_by ?C c i (rn\<lparr>rs_node := n\<rparr>, pc') []"
    if "loop_step (rs_node rn) e out n" "lab = Call e" "allowed c i e" "e \<noteq> EvReady" "pc_ok ?C (cl_net c) pc'" for e out n pc'
    by (rule event_served [OF c(2), where ?x0.0 = "(rn, pc)" and ev = e])
      (use that ok co c(3) in \<open>auto simp: raft_of_def\<close>)
  have same: "served_by ?C c i y []" if "rs_node (fst y) = rs_node rn" "rs_commitC (fst y) = []" "pc_ok ?C (cl_net c) (snd y)" for y
    using served_same that c(3) by metis
  show ?thesis
    using st
  proof (cases rule: serve_step.cases)
    case (tick n)
    have "cluster_step ?C c (put_node i n OutNone c)" by (rule cluster_step.clock [OF c(2)]) (use tick c(3) in simp)
    then show ?thesis by (rule served_step) (use tick co in simp_all)
  next
    case (ready rd n)
    then show ?thesis using ready_served [OF c start_entries_add ready(4) _ co] ok c(3) by (simp add: raft_of_def)
  next
    case alone
    then show ?thesis using local_served [OF c _ pc co] by simp
  next
    case (sends m ms ces)
    have "follows ?C c i (rs_node rn) [m] c" using sends pc c(3) follows_same [of ?C c i] by (auto simp: follows_def)
    then show ?thesis using sends pc co by (auto simp: served_by_def send_next_def split: prod.splits)
  next
    case (reports j out n js ms ces)
    have "allowed c i (EvRecv (unreachable_message j))" by (auto simp: local_input_def)
    then show ?thesis using ev [of "EvRecv (unreachable_message j)" out n "Sending js ms ces"] reports pc by simp
  next
    case (applies e cc cs n es data li)
    have "adds_voter ?C e" using applies pc by simp
    then have "x = (rn\<lparr>rs_node := n, rs_confState := cs\<rparr>, Publishing es data li)"
      using applies by (simp add: configured_adds)
    then show ?thesis using apply_served [OF c C _ _ co, of e cs n es data li] applies pc by simp
  next
    case (apply_stopped e es data li)
    have "adds_voter ?C e" using apply_stopped pc by simp
    then have x: "x = (rn\<lparr>rs_confState := zeroConfState\<rparr>, Publishing es data li)"
      using apply_stopped by (simp add: configured_adds)
    then show ?thesis using same [of x] apply_stopped pc co by simp
  next
    case (advance out n)
    then show ?thesis using ev [of EvAdvance out n] by simp
  next
    case (node_stops out n)
    then show ?thesis using ev [of EvStop out n] by simp
  qed (use pc co in \<open>auto simp: serve_results intro!: same\<close>)
qed

lemma local_served_by:
  assumes m: "matches peers s c" and k: "0 < k" "k \<le> length peers" "i = of_nat k" "i \<noteq> 0"
    and st: "local_step (sv_srv s i) lab x" and ok: "may_happen (sv_net s) (node_of s i) i lab"
  shows "served_by (start_voters peers) c i x (sent_by lab)"
proof -
  obtain rn pc where srv: "sv_srv s i = (rn, pc)" by (cases "sv_srv s i")
  have r: "reachable (start_entries peers) (start_voters peers) c" and net: "sv_net s \<subseteq> cl_net c"
    and node: "cl_nodes c i = rs_node rn" and co: "rs_commitC rn = []" and pc: "pc_ok (start_voters peers) (cl_net c) pc"
    using m k srv by (auto simp: matches_def node_of_def)
  show ?thesis
    using st unfolding srv
  proof (cases rule: local_step.cases)
    case serving
    then show ?thesis using serve_served [OF r k(4) node _ _ pc co] ok srv by (simp add: node_of_def)
  next
    case (elsewhere ev out n)
    then show ?thesis
      using event_served [OF k(4), of c "(rn, pc)" ev out n x "start_voters peers"] ok net node srv co pc
      by (auto simp: node_of_def raft_of_def split: node_event.splits)
  next
    case (channels b d)
    then show ?thesis using served_same [of c i x] node co pc by simp
  qed
qed

lemma servers_match:
  assumes "(servers_step (length peers))\<^sup>*\<^sup>* s0 s" and "servers_start parse show peers s0" and "peers \<noteq> []"
    and "length peers < 2 ^ 62"
  shows "\<exists>c. matches peers s c"
  using assms(1)
proof (induction rule: rtranclp_induct)
  case base
  show ?case by (rule start_matches [OF assms(2-4)])
next
  case (step s s')
  then obtain c where c: "matches peers s c" by blast
  from step.hyps(2) obtain k lab x where k: "0 < k" "k \<le> length peers"
      "local_step (sv_srv s (of_nat k)) lab x" "may_happen (sv_net s) (node_of s (of_nat k)) (of_nat k) lab"
    and s': "s' = put_server (of_nat k) x (sent_by lab) s"
    by (auto elim!: servers_step.cases)
  have i: "(of_nat k :: uint64) \<noteq> 0" using small_id(1) [of k] k(1,2) assms(4) by simp
  show ?case using matches_put [OF c local_served_by [OF c k(1,2) refl i k(3,4)] i] s' by simp
qed

text \<open>The raft state and the log of server \<open>k\<close>.\<close>

abbreviation server_raft :: "'e servers \<Rightarrow> nat \<Rightarrow> raft" where
  "server_raft s k \<equiv> rn_raft (n_rn (node_of s (of_nat k)))"

lemma servers_reach:
  assumes "(servers_step (length peers))\<^sup>*\<^sup>* s0 s" and "servers_start parse show peers s0" and "peers \<noteq> []"
    and "length peers < 2 ^ 62"
  obtains c where "reachable (start_entries peers) (start_voters peers) c" "Joint_IDs (start_voters peers) \<noteq> {||}"
    "\<forall>k. 0 < k \<and> k \<le> length peers \<longrightarrow> (of_nat k :: uint64) \<noteq> 0 \<and> raft_of c (of_nat k) = server_raft s k"
proof -
  obtain c where c: "matches peers s c" using servers_match [OF assms] by blast
  have "(of_nat k :: uint64) \<noteq> 0 \<and> raft_of c (of_nat k) = server_raft s k" if "0 < k" "k \<le> length peers" for k
    using small_id(1) [of k] that assms(4) c by (simp add: matches_def raft_of_def)
  then show ?thesis using that c start_voters_nonempty [OF assms(3)] unfolding matches_def by blast
qed

end
