(* ===== verification/Server_Runs.thy ===== *)
theory Server_Runs
  imports Server_System
begin

text \<open>
  The servers of \<open>Server_System\<close> as a program that can be run: a list of moves, each of one server, is carried
  out by functions, and whatever they compute is a run of \<open>servers_step\<close>.  The runs at the end are those
  the properties of \<open>Server_Cluster\<close> are applied to.
\<close>

section \<open>Moves\<close>

text \<open>The clock reaches the node of a server; its run loop takes the tick, the \<open>j\<close>-th message that was ever
  sent, or a proposal; its serving loop takes a \<open>Ready\<close> or goes on with the one it has.\<close>

datatype move = Clock | Tick | Hear nat | Offer Message | Take | GoOn

text \<open>The event of the run loop that a move is.\<close>

fun event_of :: "Message list \<Rightarrow> move \<Rightarrow> node_event" where
  "event_of ms (Hear j) = (if j < length ms then EvRecv (ms ! j) else EvTick)"
| "event_of ms (Offer m) = EvProp \<lparr>pm_m = m, pm_result = None\<rparr>"
| "event_of ms _ = EvTick"

text \<open>How the serving loop goes on.\<close>

definition go_on :: "'e raftNode \<Rightarrow> serve_pc \<Rightarrow> (serve_label \<times> 'e raftNode \<times> serve_pc) go" where
  "go_on rn pc =
     (case serve_local rn pc of
        Some res \<Rightarrow> go_bind res (\<lambda>x. Inr (Silent, x))
      | None \<Rightarrow>
          (case pc of
             Sending [] (m # ms) ces \<Rightarrow> Inr (Gave m, send_next m ms ces rn)
           | Publishing (e # es) data li \<Rightarrow>
               (let ev = node_ApplyConfChange (entry_change e) in
                go_bind (iterate ev (rs_node rn)) (\<lambda>(n, out).
                  case out of
                    OutConf cs \<Rightarrow> go_bind (configured (entry_change e) cs es data li (rn\<lparr>rs_node := n\<rparr>)) (\<lambda>x. Inr (Call ev, x))
                  | _ \<Rightarrow> Inl NotReturning))
           | Advancing \<Rightarrow>
               go_bind (iterate EvAdvance (rs_node rn)) (\<lambda>(n, _). Inr (Call EvAdvance, rn\<lparr>rs_node := n\<rparr>, Selecting))
           | _ \<Rightarrow> Inl NotReturning))"

fun make_move :: "Message list \<Rightarrow> move \<Rightarrow> 'e raftNode \<times> serve_pc \<Rightarrow> (serve_label \<times> 'e raftNode \<times> serve_pc) go" where
  "make_move ms Clock (rn, pc) =
     (let n = rs_node rn in
      if pc = Selecting \<and> n_ticks n < 128 then Inr (Silent, rn\<lparr>rs_node := n\<lparr>n_ticks := n_ticks n + 1\<rparr>\<rparr>, Selecting)
      else Inl NotReturning)"
| "make_move ms Take (rn, pc) =
     (if pc \<noteq> Selecting then Inl NotReturning
      else go_bind (iterate EvReady (rs_node rn)) (\<lambda>(n, out).
        case out of OutReady rd \<Rightarrow> Inr (Call EvReady, rn\<lparr>rs_node := n\<rparr>, Storing rd) | _ \<Rightarrow> Inl NotReturning))"
| "make_move ms GoOn (rn, pc) = go_on rn pc"
| "make_move ms mv (rn, pc) =
     go_bind (iterate (event_of ms mv) (rs_node rn)) (\<lambda>(n, _). Inr (Loop (event_of ms mv), rn\<lparr>rs_node := n\<rparr>, pc))"

text \<open>Server \<open>k + 1\<close> makes a move.\<close>

type_synonym 'e table = "('e raftNode \<times> serve_pc) list \<times> Message list"

fun server_move :: "'e table \<Rightarrow> nat \<times> move \<Rightarrow> 'e table go" where
  "server_move (xs, ms) (k, mv) =
     (if length xs \<le> k then Inl NotReturning
      else go_bind (make_move ms mv (xs ! k)) (\<lambda>(lab, x).
        if may_happen (set ms) (rs_node (fst (xs ! k))) (of_nat (Suc k)) lab then Inr (xs[k := x], ms @ sent_by lab)
        else Inl NotReturning))"

definition play :: "'e table \<Rightarrow> (nat \<times> move) list \<Rightarrow> 'e table go" where
  "play = go_foldl server_move"

fun deal :: "string list \<Rightarrow> nat \<Rightarrow> (unit raftNode \<times> serve_pc) list go" where
  "deal peers 0 = Inr []"
| "deal peers (Suc k) =
     go_bind (deal peers k) (\<lambda>xs.
     go_bind (startRaft (\<lambda>_. 0) True plain_parse plain_show (int (Suc k)) peers False) (\<lambda>rn.
       Inr (xs @ [(rn, Selecting)])))"

section \<open>Moves are steps\<close>

lemma event_of_serves: "event_of ms mv \<noteq> EvReady \<and> event_of ms mv \<noteq> EvAdvance \<and> event_of ms mv \<noteq> EvStop"
  by (cases "(ms, mv)" rule: event_of.cases) simp_all

lemma output_cases [simp]:
  "(case out of OutReady rd \<Rightarrow> f rd | _ \<Rightarrow> Inl e) = Inr y \<longleftrightarrow> (\<exists>rd. out = OutReady rd \<and> f rd = Inr y)"
  "(case out of OutConf cs \<Rightarrow> g cs | _ \<Rightarrow> Inl e) = Inr y \<longleftrightarrow> (\<exists>cs. out = OutConf cs \<and> g cs = Inr y)"
  by (cases out; simp)+

lemma go_on_step:
  assumes "go_on rn pc = Inr (lab, x)"
  shows "serve_step (rn, pc) lab (Inr x)"
proof (cases "serve_local rn pc")
  case (Some res)
  then show ?thesis using assms by (auto simp: go_on_def intro!: serve_step.alone)
next
  case None
  show ?thesis
  proof (cases pc)
    case (Sending js ms ces)
    then show ?thesis using assms None
      by (auto simp: go_on_def intro!: serve_step.sends split: list.splits)
  next
    case (Publishing es data li)
    then obtain e es' where es: "pc = Publishing (e # es') data li" "eType e = EntryConfChange"
      using None by (cases es) (auto split: if_splits)
    obtain n cs where "loop_step (rs_node rn) (node_ApplyConfChange (entry_change e)) (OutConf cs) n"
        "configured (entry_change e) cs es' data li (rn\<lparr>rs_node := n\<rparr>) = Inr x" "lab = Call (node_ApplyConfChange (entry_change e))"
      using assms es by (auto simp: go_on_def Let_def iterate_step)
    then show ?thesis using serve_step.applies [OF es(2) refl, of rn cs n es' data li] es(1) by simp
  next
    case Advancing
    then show ?thesis using assms by (auto simp: go_on_def iterate_step intro!: serve_step.advance)
  qed (use assms None in \<open>auto simp: go_on_def\<close>)
qed

lemma make_move_step:
  assumes "make_move ms mv (rn, pc) = Inr (lab, x)"
  shows "local_step (rn, pc) lab x"
proof -
  have served: "local_step (rn, pc) lab x"
    if e: "go_bind (iterate (event_of ms mv) (rs_node rn))
        (\<lambda>(n, _). Inr (Loop (event_of ms mv), rn\<lparr>rs_node := n\<rparr>, pc)) = Inr (lab, x)"
  proof -
    from e obtain n out where "iterate (event_of ms mv) (rs_node rn) = Inr (n, out)"
        and "lab = Loop (event_of ms mv)" "x = (rn\<lparr>rs_node := n\<rparr>, pc)"
      by (auto simp: go_bind_eq_Inr)
    then show ?thesis using event_of_serves by (auto simp: iterate_step intro: local_step.elsewhere)
  qed
  show ?thesis
  proof (cases mv)
    case Clock
    then show ?thesis using assms
      by (auto simp: Let_def simp del: One_nat_def add_Suc_right
          intro!: local_step.serving serve_step.tick node_Tick.queued split: if_splits)
  next
    case Take
    then show ?thesis using assms
      by (auto simp: iterate_step intro!: local_step.serving serve_step.ready split: if_splits)
  next
    case GoOn
    then show ?thesis using assms go_on_step [of rn pc lab x] by (simp add: local_step.serving)
  qed (use assms served in simp_all)
qed

text \<open>A table of servers and messages, and the servers it shows.\<close>

fun table_of :: "'e table \<Rightarrow> 'e servers \<Rightarrow> bool" where
  "table_of (xs, ms) s \<longleftrightarrow> length xs < 2 ^ 62 \<and> sv_net s = set ms \<and>
     (\<forall>k < length xs. sv_srv s (of_nat (Suc k)) = xs ! k \<and>
        (let r = rn_raft (n_rn (rs_node (fst (xs ! k)))) in
         r_state r = StateLeader \<longrightarrow> (r_Term r, of_nat (Suc k)) \<in> sv_leaders s))"

lemma small_index:
  "\<lbrakk>j < 2 ^ 62; k < 2 ^ 62\<rbrakk> \<Longrightarrow> (of_nat (Suc j) :: uint64) = of_nat (Suc k) \<longleftrightarrow> j = k"
  by (auto simp del: of_nat_Suc dest: arg_cong [of _ _ unat] simp: unat_of_nat_small)

lemma server_move_step:
  assumes "server_move (xs, ms) (k, mv) = Inr (xs', ms')" and "table_of (xs, ms) s"
  shows "length xs' = length xs \<and> (\<exists>s'. servers_step (length xs) s s' \<and> table_of (xs', ms') s')"
proof -
  from assms(1) obtain lab x where k: "k < length xs" and m: "make_move ms mv (xs ! k) = Inr (lab, x)"
      and h: "may_happen (set ms) (rs_node (fst (xs ! k))) (of_nat (Suc k)) lab"
      and t: "xs' = xs[k := x]" "ms' = ms @ sent_by lab"
    by (auto simp: go_bind_eq_Inr split: if_splits)
  let ?i = "of_nat (Suc k) :: uint64"
  have srv: "sv_srv s ?i = xs ! k" and net: "sv_net s = set ms" and len: "length xs < 2 ^ 62"
    using assms(2) k by simp_all
  have "local_step (sv_srv s ?i) lab x" using make_move_step m srv by (metis prod.collapse)
  moreover have "may_happen (sv_net s) (node_of s ?i) ?i lab" using h srv net by (simp add: node_of_def)
  ultimately have "servers_step (length xs) s (put_server ?i x (sent_by lab) s)"
    using k by (intro servers_step.serve [where k = "Suc k"]) simp_all
  moreover have "table_of (xs', ms') (put_server ?i x (sent_by lab) s)"
  proof -
    have "sv_srv (put_server ?i x (sent_by lab) s) (of_nat (Suc j)) = xs' ! j \<and>
        (let r = rn_raft (n_rn (rs_node (fst (xs' ! j)))) in
         r_state r = StateLeader \<longrightarrow> (r_Term r, of_nat (Suc j)) \<in> sv_leaders (put_server ?i x (sent_by lab) s))"
      if j: "j < length xs" for j
    proof (cases "j = k")
      case True
      then show ?thesis using k by (simp add: t put_server_def Let_def del: of_nat_Suc)
    next
      case False
      then have "(of_nat (Suc j) :: uint64) \<noteq> ?i" using small_index [of j k] j k len by simp
      then show ?thesis using False j assms(2) by (auto simp: t put_server_def Let_def simp del: of_nat_Suc)
    qed
    then show ?thesis using len net by (simp add: t put_server_def Let_def del: of_nat_Suc)
  qed
  ultimately show ?thesis using t by auto
qed

lemma play_steps:
  assumes "play st mvs = Inr st'" and "table_of st s"
  shows "length (fst st') = length (fst st) \<and> (\<exists>s'. (servers_step (length (fst st)))\<^sup>*\<^sup>* s s' \<and> table_of st' s')"
  using assms
proof (induction mvs arbitrary: st s)
  case Nil
  then show ?case by (auto simp: play_def)
next
  case (Cons mv mvs)
  obtain xs ms k c where st: "st = (xs, ms)" "mv = (k, c)" by (cases st; cases mv)
  obtain xs1 ms1 where m: "server_move (xs, ms) (k, c) = Inr (xs1, ms1)" and rest: "play (xs1, ms1) mvs = Inr st'"
    using Cons.prems(1) by (auto simp: play_def st go_bind_eq_Inr simp del: server_move.simps)
  from server_move_step [OF m] Cons.prems(2) obtain s1 where
    s1: "length xs1 = length xs" "servers_step (length xs) s s1" "table_of (xs1, ms1) s1"
    using st(1) by blast
  from Cons.IH [OF rest s1(3)] s1(1,2) show ?case by (auto simp: st intro: converse_rtranclp_into_rtranclp)
qed

lemma deal_start:
  assumes "deal peers k = Inr xs"
  shows "length xs = k \<and> (\<forall>j < k. \<exists>rn.
    startRaft (\<lambda>_. 0) True plain_parse plain_show (int (Suc j)) peers False = Inr rn \<and> xs ! j = (rn, Selecting))"
  using assms
proof (induction k arbitrary: xs)
  case (Suc k)
  obtain ys rn where ys: "deal peers k = Inr ys" "xs = ys @ [(rn, Selecting)]"
      and rn: "startRaft (\<lambda>_. 0) True plain_parse plain_show (int (Suc k)) peers False = Inr rn"
    using Suc.prems by (auto simp: go_bind_eq_Inr simp del: of_nat_Suc)
  show ?case using Suc.IH [OF ys(1)] rn ys(2) by (auto simp: less_Suc_eq nth_append simp del: of_nat_Suc)
qed simp

lemma start_not_leader:
  assumes "startRaft rnd resolves parse show (int k) peers False = Inr rn" and "0 < k" "k \<le> length peers"
    and "length peers < 2 ^ 62"
  shows "r_state (rn_raft (n_rn (rs_node rn))) \<noteq> StateLeader"
  using server_node [OF assms] by (simp add: fresh_node_def Let_def)

lemma deal_table:
  assumes "deal peers (length peers) = Inr xs" and "length peers < 2 ^ 62"
  shows "length xs = length peers \<and> (\<exists>s0. servers_start plain_parse plain_show peers s0 \<and> table_of (xs, []) s0)"
proof -
  note d = deal_start [OF assms(1)]
  define s0 where "s0 = \<lparr>sv_srv = \<lambda>i. xs ! (unat i - 1), sv_net = {}, sv_leaders = {}\<rparr>"
  have at: "sv_srv s0 (of_nat (Suc j)) = xs ! j" if "j < length peers" for j
    using that assms(2) by (simp add: s0_def unat_of_nat_small del: of_nat_Suc)
  have "\<exists>rnd resolves rn. startRaft rnd resolves plain_parse plain_show (int k) peers False = Inr rn \<and>
      sv_srv s0 (of_nat k) = (rn, Selecting)" if "0 < k" "k \<le> length peers" for k
  proof -
    define j where "j = k - 1"
    then have j: "k = Suc j" "j < length peers" using that by simp_all
    then show ?thesis using d at [OF j(2)] by metis
  qed
  then have "servers_start plain_parse plain_show peers s0" by (simp add: servers_start_def s0_def)
  moreover have "r_state (rn_raft (n_rn (rs_node (fst (xs ! j))))) \<noteq> StateLeader" if j: "j < length peers" for j
    using start_not_leader [of "\<lambda>_. 0" True plain_parse plain_show "Suc j" peers] d j assms(2) by fastforce
  then have "table_of (xs, []) s0" using d at assms(2) by (simp add: s0_def Let_def del: of_nat_Suc)
  ultimately show ?thesis using d by blast
qed

section \<open>Sample runs\<close>

text \<open>The server of index 0 waits until it campaigns, and its serving loop sends what that gives.\<close>

definition campaign_moves :: "(nat \<times> move) list" where
  "campaign_moves = concat (replicate 10 [(0, Clock), (0, Tick)]) @ (0, Take) # replicate 7 (0, GoOn)"

text \<open>The other server grants its vote, the first hears of it, becomes leader and sends its entry, and the
  other server appends it.\<close>

definition replicate_moves :: "(nat \<times> move) list" where
  "replicate_moves = (1, Hear 0) # (1, Take) # replicate 7 (1, GoOn) @ (0, Hear 1) # (0, Take) # replicate 4 (0, GoOn) @ [(1, Hear 2)]"

text \<open>What is seen of a server: its role, its term and the terms of its log.\<close>

definition glance :: "'e raftNode \<times> serve_pc \<Rightarrow> RoleType \<times> uint64 \<times> uint64 list" where
  "glance x = (let r = rn_raft (n_rn (rs_node (fst x))) in (r_state r, r_Term r, map eTerm (ulog r)))"

definition outcome :: "string list \<Rightarrow> (nat \<times> move) list \<Rightarrow> (RoleType \<times> uint64 \<times> uint64 list) list go" where
  "outcome peers mvs =
     go_bind (deal peers (length peers)) (\<lambda>xs.
     go_bind (play (xs, []) mvs) (\<lambda>(xs, _). Inr (map glance xs)))"

lemma two_outcome:
  "outcome [''http://a:1'', ''http://b:1''] (campaign_moves @ replicate_moves) =
     Inr [(StateLeader, 2, [1, 1, 2]), (StateFollower, 2, [1, 1, 2])]"
  by code_simp

text \<open>The servers look like that.\<close>

definition seen :: "(RoleType \<times> uint64 \<times> uint64 list) list \<Rightarrow> 'e servers \<Rightarrow> bool" where
  "seen gs s \<longleftrightarrow> (\<forall>k < length gs. glance (sv_srv s (of_nat (Suc k))) = gs ! k \<and>
     (fst (gs ! k) = StateLeader \<longrightarrow> (fst (snd (gs ! k)), of_nat (Suc k)) \<in> sv_leaders s))"

lemma outcome_run:
  assumes "outcome peers mvs = Inr gs" and "length peers < 2 ^ 62"
  shows "\<exists>s0 s. servers_start plain_parse plain_show peers (s0 :: unit servers) \<and>
    (servers_step (length peers))\<^sup>*\<^sup>* s0 s \<and> seen gs s"
proof -
  obtain xs st where d: "deal peers (length peers) = Inr xs" and p: "play (xs, []) mvs = Inr st"
      and gs: "gs = map glance (fst st)"
    using assms(1) by (auto simp: outcome_def go_bind_eq_Inr split_def)
  obtain s0 where s0: "length xs = length peers" "servers_start plain_parse plain_show peers s0" "table_of (xs, []) s0"
    using deal_table [OF d assms(2)] by blast
  obtain s where s: "length (fst st) = length peers" "(servers_step (length peers))\<^sup>*\<^sup>* s0 s" "table_of st s"
    using play_steps [OF p s0(3)] s0(1) by auto
  have "seen gs s"
    using s(1,3) by (cases st) (simp add: seen_def gs glance_def Let_def del: of_nat_Suc)
  then show ?thesis using s0(2) s(2) by blast
qed

text \<open>The two servers after that run.\<close>

abbreviation two_addresses :: "string list" where
  "two_addresses \<equiv> [''http://a:1'', ''http://b:1'']"

lemma two_servers_run:
  obtains s0 and s :: "unit servers"
    where "servers_start plain_parse plain_show two_addresses s0" "(servers_step (length two_addresses))\<^sup>*\<^sup>* s0 s"
      "(servers_step 2)\<^sup>*\<^sup>* s0 s" "(2, 1) \<in> sv_leaders s"
      "r_state (server_raft s 1) = StateLeader" "r_Term (server_raft s 1) = 2"
      "map eTerm (ulog (server_raft s 1)) = [1, 1, 2]" "map eTerm (ulog (server_raft s 2)) = [1, 1, 2]"
proof -
  have n: "length two_addresses = 2" by simp
  obtain s0 and s :: "unit servers" where s: "servers_start plain_parse plain_show two_addresses s0"
      "(servers_step (length two_addresses))\<^sup>*\<^sup>* s0 s"
      and at: "seen [(StateLeader, 2, [1, 1, 2]), (StateFollower, 2, [1, 1, 2])] s"
    using outcome_run [OF two_outcome] unfolding n by auto
  have two: "(servers_step 2)\<^sup>*\<^sup>* s0 s" using s(2) unfolding n .
  note at = at [unfolded seen_def, rule_format]
  show thesis
    by (rule that [OF s two])
      (use at [of 0] at [of 1] in \<open>simp_all add: glance_def node_of_def Let_def\<close>)
qed

end
