(* ===== verification/Server_Cluster.thy ===== *)
theory Server_Cluster
  imports Server_Runs
begin

text \<open>
  The properties of the whole program: what holds of the servers of \<open>Server_System\<close> in every run of theirs.
  Each is carried over from the cluster of nodes (\<open>Raft_Cluster\<close>, \<open>Raft_Matching\<close>), and applied to a run in which one of
  two servers is elected by both and the other one appends the entry it is sent.
\<close>

section \<open>Properties\<close>

text \<open>C1: election safety of the program as it runs: when the servers of a list of addresses start and then
  serve, with the network losing, repeating and reordering their messages and clients proposing at any time,
  no two servers are ever leader in the same term.\<close>

theorem servers_elect_one:
  assumes "servers_start parse show peers s0" and "peers \<noteq> []" and "length peers < 2 ^ 62"
    and "(servers_step (length peers))\<^sup>*\<^sup>* s0 s"
  shows "\<forall>t i j. (t, i) \<in> sv_leaders s \<and> (t, j) \<in> sv_leaders s \<longrightarrow> i = j"
proof -
  obtain c where "matches peers s c" using servers_match [OF assms(4,1-3)] by blast
  then have "reachable (start_entries peers) (start_voters peers) c" "sv_leaders s \<subseteq> cl_leaders c"
    by (simp_all add: matches_def)
  then show ?thesis using start_voters_nonempty [OF assms(2)] unique_leader by blast
qed

text \<open>C2: no write of a client is ever applied: the commit mark of every server stays where \<open>Bootstrap\<close> put
  it, so no server ever hands its store a commit, and whatever has been proposed, the store that reads
  its commits stays empty and finds no key.\<close>

theorem writes_never_applied:
  assumes "servers_start parse show peers s0" and "peers \<noteq> []" and "length peers < 2 ^ 62"
    and "(servers_step (length peers))\<^sup>*\<^sup>* s0 s" and "0 < k" and "k \<le> length peers"
    and "rn = fst (sv_srv s (of_nat k))"
  shows "rs_commitC rn = [] \<and>
    l_committed (r_raftLog (rn_raft (n_rn (rs_node rn)))) = of_nat (length peers) \<and>
    (\<exists>st. readCommits dec (map Some (rs_commitC rn)) NewKVStore = Inr (st, []) \<and> Lookup key st = ([], False))"
proof -
  obtain c where c: "matches peers s c" using servers_match [OF assms(4,1-3)] by blast
  have i: "(of_nat k :: uint64) \<noteq> 0" using small_id(1) [of k] assms(3,5,6) by simp
  have "settled (start_entries peers) (raft_of c (of_nat k))"
    using c reachable_node [of "start_entries peers" "start_voters peers" c, OF _ i]
    by (simp add: matches_def node_inv_def)
  moreover have "raft_of c (of_nat k) = rn_raft (n_rn (rs_node rn))" "rs_commitC rn = []"
    using c assms(5-7) by (simp_all add: matches_def raft_of_def node_of_def)
  ultimately show ?thesis
    using length_start_entries [of peers] by (simp add: settled_def boot_log_def NewKVStore_def Lookup_def)
qed

text \<open>C5: the state of a server is always well formed: its raft node has the server's id and the handlers of
  its role, its term is not 0, its voters are exactly the servers, its log begins with the entries that add
  them, indexed one after the other, and the messages it has queued are such as their receivers rely on.\<close>

theorem servers_well_formed:
  assumes "servers_start parse show peers s0" and "peers \<noteq> []" and "length peers < 2 ^ 62"
    and "(servers_step (length peers))\<^sup>*\<^sup>* s0 s" and "0 < k" and "k \<le> length peers"
    and "r = rn_raft (n_rn (rs_node (fst (sv_srv s (of_nat k)))))"
  shows "r_id r = of_nat k \<and> role_ok r \<and> r_Term r \<noteq> 0 \<and> cfgVoters (trkConfig (r_trk r)) = start_voters peers \<and>
    (\<exists>es. u_entries (l_unstable (r_raftLog r)) = start_entries peers @ es) \<and>
    indexed 1 (u_entries (l_unstable (r_raftLog r))) \<and>
    (\<forall>m \<in> set (r_msgs r) \<union> set (r_msgsAfterAppend r). sound_msg (of_nat (length peers)) m)"
proof -
  obtain c where c: "matches peers s c" using servers_match [OF assms(4,1-3)] by blast
  have i: "(of_nat k :: uint64) \<noteq> 0" using small_id(1) [of k] assms(3,5,6) by simp
  have r: "raft_of c (of_nat k) = r" using c assms(5-7) by (simp add: matches_def raft_of_def node_of_def)
  have n: "node_inv (start_entries peers) (start_voters peers) (cl_sent c) (of_nat k) r"
    using c reachable_node [OF _ i] r by (metis matches_def)
  then have "settled (start_entries peers) r" by (simp add: node_inv_def)
  then have "\<exists>es. u_entries (l_unstable (r_raftLog r)) = start_entries peers @ es"
    unfolding settled_def boot_log_def by (metis append_take_drop_id)
  then show ?thesis
    using n length_start_entries [of peers] by (simp add: node_inv_def settled_def boot_log_def)
qed

text \<open>C3: log matching: when the logs of two servers have an entry of the same term at the same place, they are
  the same up to there, whatever has been proposed, sent and lost.\<close>

theorem servers_logs_match:
  assumes "servers_start parse show peers s0" and "peers \<noteq> []" and "length peers < 2 ^ 62"
    and "(servers_step (length peers))\<^sup>*\<^sup>* s0 s"
    and "0 < k" "k \<le> length peers" "0 < l" "l \<le> length peers"
    and "U = entries_of (r_raftLog (server_raft s k))" and "V = entries_of (r_raftLog (server_raft s l))"
    and "n < length U" and "n < length V" and "eTerm (U ! n) = eTerm (V ! n)"
  shows "take (Suc n) U = take (Suc n) V"
proof -
  obtain c where "reachable (start_entries peers) (start_voters peers) c" "Joint_IDs (start_voters peers) \<noteq> {||}"
    "\<forall>k. 0 < k \<and> k \<le> length peers \<longrightarrow> (of_nat k :: uint64) \<noteq> 0 \<and> raft_of c (of_nat k) = server_raft s k"
    using servers_reach [OF assms(4,1-3)] by blast
  then have "agree U V" using reachable_logs_agree assms(5-10) by metis
  then show ?thesis using assms(11-13) by (simp add: agree_def)
qed

text \<open>C4: a leader's log is complete for its term: an entry that the leader of a term has made, which some
  server's log holds beyond the bootstrap entries, stands at the same place in the log of the leader, and so
  does everything before it.\<close>

theorem leader_log_complete:
  assumes "servers_start parse show peers s0" and "peers \<noteq> []" and "length peers < 2 ^ 62"
    and "(servers_step (length peers))\<^sup>*\<^sup>* s0 s"
    and "0 < k" "k \<le> length peers" "0 < l" "l \<le> length peers"
    and "r_state (server_raft s k) = StateLeader"
    and "U = entries_of (r_raftLog (server_raft s k))" and "V = entries_of (r_raftLog (server_raft s l))"
    and "length peers \<le> n" and "n < length V" and "eTerm (V ! n) = r_Term (server_raft s k)"
  shows "n < length U \<and> take (Suc n) V = take (Suc n) U"
proof -
  obtain c where c: "reachable (start_entries peers) (start_voters peers) c" "Joint_IDs (start_voters peers) \<noteq> {||}"
    "\<forall>k. 0 < k \<and> k \<le> length peers \<longrightarrow> (of_nat k :: uint64) \<noteq> 0 \<and> raft_of c (of_nat k) = server_raft s k"
    using servers_reach [OF assms(4,1-3)] by blast
  have "agree V U" using reachable_logs_agree c assms(5-8,10,11) by metis
  moreover have "holds_term (length peers) (r_Term (server_raft s k)) U V"
    using reachable_leader_holds [OF c(1,2), of "of_nat k" "of_nat l"] c(3) assms(5-11)
    by (simp add: length_start_entries)
  ultimately show ?thesis using assms(12-14) unfolding agree_def holds_term_def by metis
qed

section \<open>The properties in a run of two servers\<close>

lemma terms_at:
  assumes "map eTerm es = [1, 1, 2]"
  shows "length es = 3" "eTerm (es ! 2) = 2"
proof -
  show n: "length es = 3" using arg_cong [OF assms, of length] by simp
  show "eTerm (es ! 2) = 2" using arg_cong [OF assms, of "\<lambda>ts. ts ! 2"] n by simp
qed

theorem servers_elect_one_witness:
  "\<exists>s0 s. servers_start plain_parse plain_show two_addresses (s0 :: unit servers) \<and> (servers_step 2)\<^sup>*\<^sup>* s0 s \<and>
     (2, 1) \<in> sv_leaders s \<and> (\<forall>j. (2, j) \<in> sv_leaders s \<longrightarrow> j = 1)"
proof -
  obtain s0 s where s: "servers_start plain_parse plain_show two_addresses (s0 :: unit servers)"
      "(servers_step (length two_addresses))\<^sup>*\<^sup>* s0 s" "(servers_step 2)\<^sup>*\<^sup>* s0 s" "(2, 1) \<in> sv_leaders s"
    using two_servers_run by metis
  have "\<forall>t i j. (t, i) \<in> sv_leaders s \<and> (t, j) \<in> sv_leaders s \<longrightarrow> i = j"
    by (rule servers_elect_one [OF s(1) _ _ s(2)]) simp_all
  then have "\<forall>j. (2, j) \<in> sv_leaders s \<longrightarrow> j = 1" using s(4) by blast
  then show ?thesis using s(1,3,4) by blast
qed

theorem writes_never_applied_witness:
  "\<exists>s0 s. servers_start plain_parse plain_show two_addresses (s0 :: unit servers) \<and> (servers_step 2)\<^sup>*\<^sup>* s0 s \<and>
     map eTerm (ulog (server_raft s 2)) = [1, 1, 2] \<and> l_committed (r_raftLog (server_raft s 2)) = 2 \<and>
     rs_commitC (fst (sv_srv s 2)) = []"
proof -
  obtain s0 s where s: "servers_start plain_parse plain_show two_addresses (s0 :: unit servers)"
      "(servers_step (length two_addresses))\<^sup>*\<^sup>* s0 s" "(servers_step 2)\<^sup>*\<^sup>* s0 s"
      "map eTerm (ulog (server_raft s 2)) = [1, 1, 2]"
    using two_servers_run by metis
  note w = writes_never_applied [OF s(1) _ _ s(2), of 2 "fst (sv_srv s 2)"]
  have "l_committed (r_raftLog (server_raft s 2)) = 2" "rs_commitC (fst (sv_srv s 2)) = []"
    using w by (simp_all add: node_of_def)
  then show ?thesis by (intro exI [of _ s0] exI [of _ s] conjI s(1,3,4))
qed

theorem servers_well_formed_witness:
  "\<exists>s0 s. servers_start plain_parse plain_show two_addresses (s0 :: unit servers) \<and> (servers_step 2)\<^sup>*\<^sup>* s0 s \<and>
     r_state (server_raft s 1) = StateLeader \<and> role_ok (server_raft s 1) \<and> r_id (server_raft s 2) = 2"
proof -
  obtain s0 s where s: "servers_start plain_parse plain_show two_addresses (s0 :: unit servers)"
      "(servers_step (length two_addresses))\<^sup>*\<^sup>* s0 s" "(servers_step 2)\<^sup>*\<^sup>* s0 s"
      "r_state (server_raft s 1) = StateLeader"
    using two_servers_run by metis
  note w = servers_well_formed [OF s(1) _ _ s(2)]
  have "role_ok (server_raft s 1)" using w [of 1] by (simp add: node_of_def)
  moreover have "r_id (server_raft s 2) = 2" using w [of 2] by (simp add: node_of_def)
  ultimately show ?thesis by (intro exI [of _ s0] exI [of _ s] conjI s(1,3,4))
qed

theorem servers_logs_match_witness:
  "\<exists>s0 s. servers_start plain_parse plain_show two_addresses (s0 :: unit servers) \<and> (servers_step 2)\<^sup>*\<^sup>* s0 s \<and>
     length (ulog (server_raft s 1)) = 3 \<and>
     take (Suc 2) (ulog (server_raft s 1)) = take (Suc 2) (ulog (server_raft s 2))"
proof -
  obtain s0 s where s: "servers_start plain_parse plain_show two_addresses (s0 :: unit servers)"
      "(servers_step (length two_addresses))\<^sup>*\<^sup>* s0 s" "(servers_step 2)\<^sup>*\<^sup>* s0 s"
      "map eTerm (ulog (server_raft s 1)) = [1, 1, 2]" "map eTerm (ulog (server_raft s 2)) = [1, 1, 2]"
    using two_servers_run by metis
  note n = terms_at [OF s(4)] terms_at [OF s(5)]
  have "take (Suc 2) (ulog (server_raft s 1)) = take (Suc 2) (ulog (server_raft s 2))"
    by (rule servers_logs_match [OF s(1) _ _ s(2) _ _ _ _ refl refl]) (use n in simp_all)
  then show ?thesis using s(1,3) n(1) by blast
qed

theorem leader_log_complete_witness:
  "\<exists>s0 s. servers_start plain_parse plain_show two_addresses (s0 :: unit servers) \<and> (servers_step 2)\<^sup>*\<^sup>* s0 s \<and>
     r_state (server_raft s 1) = StateLeader \<and> length (ulog (server_raft s 2)) = 3 \<and>
     take (Suc 2) (ulog (server_raft s 2)) = take (Suc 2) (ulog (server_raft s 1))"
proof -
  obtain s0 s where s: "servers_start plain_parse plain_show two_addresses (s0 :: unit servers)"
      "(servers_step (length two_addresses))\<^sup>*\<^sup>* s0 s" "(servers_step 2)\<^sup>*\<^sup>* s0 s"
      "r_state (server_raft s 1) = StateLeader" "r_Term (server_raft s 1) = 2"
      "map eTerm (ulog (server_raft s 2)) = [1, 1, 2]"
    using two_servers_run by metis
  note n = terms_at [OF s(6)]
  have "2 < length (ulog (server_raft s 1)) \<and>
      take (Suc 2) (ulog (server_raft s 2)) = take (Suc 2) (ulog (server_raft s 1))"
    by (rule leader_log_complete [OF s(1) _ _ s(2) _ _ _ _ s(4) refl refl]) (use n s(5) in simp_all)
  then show ?thesis using s(1,3,4) n(1) by blast
qed

end
