(* ===== verification/Spec2Isabelle.thy ===== *)
theory Spec2Isabelle
  imports Raftpb_ConfChange Raftpb_Names Raft_Logger Raft_Acks Kv_Main Server_Cluster
begin

text \<open>
  A key-value store replicated with raft, written in Go: the core of raft after etcd (\<open>src/raft/core\<close>), its
  messages (\<open>src/raft/raftpb\<close>), an HTTP transport between the members (\<open>src/raft/http\<close>), and the store with
  its client interface (\<open>src/kv\<close>, \<open>src/httpapi.go\<close>, \<open>src/main.go\<close>).  This development translates the program
  into definitions that compute, and proves what its parts promise one another and what the whole
  program does.

  \<^bold>\<open>How the program works.\<close>  A client's PUT becomes a string on a channel (\<open>Kvstore.Propose\<close>).  One goroutine of
  the server (\<open>raftNode.serveChannels\<close>) hands it to the raft node; the goroutine that owns the node
  (\<open>node.run\<close>) steps it and offers the outcome as a \<open>Ready\<close>: entries to store, messages to send, entries
  that are committed.  The serving loop takes the \<open>Ready\<close>, appends to the storage, gives the messages to
  the transport, publishes the committed entries to the store (\<open>readCommits\<close>), and calls \<open>Advance\<close>.  The
  transport queues a message at its peer; a worker posts it to the peer's URL, where the pipeline handler
  decodes it and gives it to the raft node of that server.  A GET reads the store.

  \<^bold>\<open>Conventions.\<close>  A call that may panic has the result type \<open>'a go\<close> (\<open>Go_Prelude\<close>), whose left part is the panic;
  an \<open>error\<close> of Go is an ordinary value.  \<open>log.Fatal\<close> and panics of the loggers are panics.  Structs are
  records, \<open>uint64\<close> is a 64-bit word, the tick counters are integers with the wrap-around written out, a
  map is a finite map.  What code shares by pointer is kept once.  Goroutines are step relations, a channel
  is its buffer or a boolean (nil or not, closed or not), a \<open>select\<close> is the choice between the enabled
  cases.  A loop that the source runs for ever has no result (\<open>NotReturning\<close>).

  \<^bold>\<open>Which theory models what.\<close>
  \<^item> \<open>Go_Prelude\<close>: panics as values and their sequencing, loops over slices, indexing and slicing, facts on words.
  \<^item> \<open>Raftpb_Types\<close>, \<open>Raftpb_Wire\<close>, \<open>Raftpb_Decode\<close>, \<open>Raftpb_Codec\<close> (\<open>raft.pb.go\<close>): the nine message types with
    \<open>Size\<close>, \<open>Marshal\<close> and \<open>Unmarshal\<close>.  The locale \<open>pb_codec\<close> states what a codec promises and proves the
    round trip once; it is interpreted for every type.  \<open>Raftpb_Names\<close> has the tables of enumeration names.
    \<open>Raftpb_ConfChange\<close> (\<open>confchange.go\<close>) converts, parses and prints configuration changes.
  \<^item> \<open>Core_Util\<close> (\<open>util.go\<close>), \<open>Core_Storage\<close> (\<open>storage.go\<close>), \<open>Core_Log\<close> (\<open>log.go\<close>, \<open>log_unstable.go\<close>): message classes
    and size limits, the storage in memory, the raft log.  The locale \<open>term_log\<close> is the contract of a log
    that answers for the term of an index, met by the storage and by the raft log.  \<open>maybeAppend\<close> refines
    the list operation \<open>follower_append\<close>.
  \<^item> \<open>Quorum\<close> (\<open>quorum/\<close>), \<open>Tracker\<close> (\<open>tracker/\<close>), \<open>Confchange\<close> (\<open>confchange/\<close>): counting votes, with the locale
    \<open>vote_rule\<close> for majorities and joint majorities; the progress of peers; changes of the membership.
  \<^item> \<open>Raft_State\<close> and \<open>Raft_Step\<close> (\<open>raft.go\<close>, \<open>read_only.go\<close>): the state machine with all its roles and handlers.
    \<open>Raft_Frame\<close>: which operations leave what alone, and the sending of messages.  \<open>Raft_Votes\<close>: no
    operation lets a node vote twice in a term.  \<open>Raft_Roles\<close>: how roles and terms change, and that a leader
    has counted a quorum.  \<open>Raft_Commit\<close>: the log keeps its bootstrap entries and its commit mark never
    passes them.  It has the locale \<open>kept_by_sending\<close>, for predicates that every operation keeps which does
    not write the log, and \<open>kept_by_appending\<close>, which extends it to all operations.  \<open>Raft_Replicate\<close>: how a
    message changes the log, and that append messages carry parts of their sender's log, with a second
    interpretation of \<open>kept_by_sending\<close>.  \<open>Raft_Acks\<close>: the leader's handling of an acknowledgement always ends.
  \<^item> \<open>Raw_Node\<close> (\<open>rawnode.go\<close>, \<open>bootstrap.go\<close>, \<open>status.go\<close>): \<open>Ready\<close>, \<open>Advance\<close>, the first members, the status.
  \<^item> \<open>Node_Loop\<close> (\<open>node.go\<close>): \<open>loop_step\<close> is one iteration of \<open>run\<close>, \<open>iterate\<close> the same as a function, \<open>client_step\<close> a
    caller of \<open>stepWithWaitOption\<close>, \<open>system_step\<close> both together.
  \<^item> \<open>Raft_Cluster\<close>: nodes that run this loop and a network that loses, repeats and reorders messages; election
    safety, and the invariant from which the statements on the whole program follow.  \<open>Raft_Matching\<close>: the
    logs of the nodes, with the logs that leaders have had as a history.
  \<^item> \<open>Raft_Models\<close> (\<open>models/\<close>), \<open>Http_Dial\<close> (\<open>timeout_transport.go\<close>, \<open>tls.go\<close>), \<open>Http_Peer\<close> (\<open>urlpick.go\<close>,
    \<open>peer_status.go\<close>, \<open>pipeline.go\<close>, \<open>stream.go\<close>, \<open>peer.go\<close>, \<open>remote.go\<close>), \<open>Http_Transport\<close> (\<open>transport.go\<close>,
    \<open>http.go\<close>, \<open>util.go\<close>, \<open>utils/ioutil.go\<close>): identifiers and addresses, connections, one peer, all peers.
  \<^item> \<open>Raft_Logger\<close> (\<open>log/logger.go\<close>).
  \<^item> \<open>Kv_Store\<close> (\<open>kvstore.go\<close>, \<open>httpapi.go\<close>), \<open>Kv_Raft\<close> (\<open>raftNode.go\<close>): the store, the serving loop \<open>serve_step\<close> with
    its shutdown, the proposing goroutine.  The loop goes in small steps between which the other goroutines
    run: it stores a \<open>Ready\<close>, sends its messages one by one (waiting in \<open>ReportUnreachable\<close> for every peer that
    does not take one), publishes the entries one by one (waiting in \<open>ApplyConfChange\<close>), hands over the
    data, and waits in \<open>Advance\<close>; \<open>serve_pc\<close> tells where it is.  \<open>Cluster_Start\<close>: what \<open>startRaft\<close> gives.  \<open>Kv_Main\<close>
    (\<open>main.go\<close>, \<open>listener.go\<close>, \<open>snapshotter.go\<close> and the goroutines of \<open>raftNode.go\<close> together): the start and
    the end of the process.
  \<^item> \<open>Server_System\<close>: all servers together, from \<open>startRaft\<close> on.  Every run of them is a run of \<open>Raft_Cluster\<close>
    (a simulation step by step).  \<open>Server_Runs\<close>: the same as a program that carries out a list of moves, and
    a run in which one of two servers is elected and the other appends its entry.  \<open>Server_Cluster\<close>: what
    holds of the program in every run: at most one leader in a term, logs that match, every node well
    formed, and no write of a client is ever applied.

  \<^bold>\<open>What is shown.\<close>  The properties carry their numbers \<open>C1\<close>, \<open>C2\<close> and so on in the theories.  They are of three sorts:
  what the code achieves (election safety, log matching, one vote in a term, quorums that meet, round
  trips of every message, messages that arrive as they were sent, a store that holds what was applied, an
  orderly start and shutdown); where it panics or refuses; and where it does not do what it is meant to,
  stated of the code as it is: the commit mark that never moves (C2), a follower that is sent no entries,
  a proposal that is never answered, timeouts that are never in force.

  \<^bold>\<open>Parameters.\<close>  Code that is not part of the repository is an argument of the definitions: \<open>url.Parse\<close> and
  \<open>URL.String\<close> as \<open>parse\<close> and \<open>show\<close>, the codec of \<open>encoding/gob\<close> as \<open>enc\<close> and \<open>dec\<close>, \<open>go-semver\<close>, the router, the
  prober, zap and the enumeration helpers of gogo/protobuf, the answer to a request, the random numbers,
  whether an address resolves or can be listened on.  A property that relies on one of them says so in
  its hypotheses.

  \<^bold>\<open>Bounds and termination.\<close>  Nothing runs on fuel.  Decoding terminates because every field read moves the index
  (\<open>pb_loop\<close>), the handling of an acknowledgement because it makes a probed peer a replicating one before it goes on
  sending (\<open>leader_ack_ends\<close>), reading a body because every read takes a piece.  Log lengths are assumed below \<open>2 ^ 62\<close> or \<open>2 ^ 63\<close>, messages below
  \<open>2 ^ 63\<close> bytes, as in Go; the statements on clusters assume that neither the terms run out of 64 bits
  nor the logs out of indices (\<open>numbers_left\<close>), and that a server is not restarted (its state is lost when
  it is, see \<open>restart_forgets_hard_state\<close>).

  \<^bold>\<open>Not modelled.\<close>  The text output of protobuf and the registration of its types (generated, unused); the calls
  of loggers that return; mutexes and atomics, whose critical sections are single steps; the JSON snapshot
  of the store and \<open>processMessages\<close>' source of snapshots beyond the field it sets, as no snapshot is ever
  made; the prober; the goroutines of streams and the transport operations whose bodies are empty in the
  source are modelled as empty.
\<close>

end
